(* ===== verification/Prelude.thy ===== *)
theory Prelude
  imports Main "HOL-Library.Word" "HOL-Library.AList" "HOL-Library.Multiset"
begin

text \<open>
  Shared vocabulary of the Okoscope development.

  \<^item> The machine integers of the Rust sources and their checked, saturating and wrapping
    operations; big-endian byte strings.
  \<^item> \<open>result\<close>, Rust's \<open>Result\<close>, with the question-mark operator as \<open>res_bind\<close>.
  \<^item> Hash maps as association lists with distinct keys (\<open>HOL-Library.AList\<close>): the list order
    stands for the unspecified iteration order of a hash map, \<open>length\<close> for \<open>len()\<close>.
  \<^item> \<open>run\<close>, which feeds a sequence of operations to a step function, and the interface locales
    \<open>machine\<close> (a step function with an invariant) and \<open>simulation\<close> (a step function that
    implements an abstract one), which the component theories interpret.

  Times: an \<open>Instant\<close> is a natural number of nanoseconds on the monotonic clock, so that
  subtraction on \<open>nat\<close> is \<open>Instant::duration_since\<close>, which saturates at zero. A
  \<open>DateTime<Utc>\<close> is an integer number of nanoseconds since the epoch. A \<open>usize\<close> that counts
  elements of a collection in memory is a natural number.
\<close>

type_synonym u8 = "8 word"
type_synonym u16 = "16 word"
type_synonym u32 = "32 word"
type_synonym u64 = "64 word"
type_synonym i32 = int
type_synonym instant = nat
type_synonym duration = nat
type_synonym datetime = int
type_synonym uuid = "128 word"

named_theorems map_laws "look-up and size laws of association lists"
named_theorems result_laws "equations and inversions of the result monad"

section \<open>Results\<close>

datatype ('a, 'e) result = Ok 'a | Err 'e

fun res_bind :: "('a, 'e) result \<Rightarrow> ('a \<Rightarrow> ('b, 'e) result) \<Rightarrow> ('b, 'e) result" where
  "res_bind (Ok x) f = f x"
| "res_bind (Err e) f = Err e"

fun map_err :: "('e \<Rightarrow> 'f) \<Rightarrow> ('a, 'e) result \<Rightarrow> ('a, 'f) result" where
  "map_err f (Ok x) = Ok x"
| "map_err f (Err e) = Err (f e)"

fun res_ok :: "('a, 'e) result \<Rightarrow> 'a option" where
  "res_ok (Ok x) = Some x"
| "res_ok (Err e) = None"

fun is_ok :: "('a, 'e) result \<Rightarrow> bool" where
  "is_ok (Ok x) = True"
| "is_ok (Err e) = False"

fun ok_or :: "'e \<Rightarrow> 'a option \<Rightarrow> ('a, 'e) result" where
  "ok_or e None = Err e"
| "ok_or e (Some x) = Ok x"

definition require :: "bool \<Rightarrow> 'e \<Rightarrow> (unit, 'e) result" where
  "require b e = (if b then Ok () else Err e)"

fun try_map :: "('a \<Rightarrow> ('b, 'e) result) \<Rightarrow> 'a list \<Rightarrow> ('b list, 'e) result" where
  "try_map f [] = Ok []"
| "try_map f (x # xs) = res_bind (f x) (\<lambda>y. res_bind (try_map f xs) (\<lambda>ys. Ok (y # ys)))"

lemma res_bind_Ok_iff [result_laws]:
  "res_bind r f = Ok y \<longleftrightarrow> (\<exists>x. r = Ok x \<and> f x = Ok y)"
  by (cases r) auto

lemma res_bind_Err_iff [result_laws]:
  "res_bind r f = Err e \<longleftrightarrow> r = Err e \<or> (\<exists>x. r = Ok x \<and> f x = Err e)"
  by (cases r) auto

lemma map_err_Ok_iff [result_laws]: "map_err f r = Ok x \<longleftrightarrow> r = Ok x"
  by (cases r) auto

lemma map_err_Err_iff [result_laws]: "map_err f r = Err e \<longleftrightarrow> (\<exists>e'. r = Err e' \<and> e = f e')"
  by (cases r) auto

lemma ok_or_Ok_iff [result_laws]: "ok_or e r = Ok x \<longleftrightarrow> r = Some x"
  by (cases r) auto

lemma ok_or_Err_iff [result_laws]: "ok_or e r = Err e' \<longleftrightarrow> r = None \<and> e' = e"
  by (cases r) auto

lemma require_Ok_iff [result_laws]: "require b e = Ok u \<longleftrightarrow> b"
  by (simp add: require_def)

lemma require_Err_iff [result_laws]: "require b e = Err e' \<longleftrightarrow> \<not> b \<and> e' = e"
  by (auto simp: require_def)

lemma require_simps [simp]: "require True e = Ok ()" "require False e = Err e"
  by (simp_all add: require_def)

lemma res_ok_Some_iff [result_laws]: "res_ok r = Some x \<longleftrightarrow> r = Ok x"
  by (cases r) auto

lemma is_ok_iff: "is_ok r \<longleftrightarrow> (\<exists>x. r = Ok x)"
  by (cases r) auto

lemma try_map_Ok_iff: "try_map f xs = Ok ys \<longleftrightarrow> list_all2 (\<lambda>x y. f x = Ok y) xs ys"
  by (induction xs arbitrary: ys) (auto simp: result_laws list_all2_Cons1)

lemma try_map_map: "(\<And>x. x \<in> set xs \<Longrightarrow> g (f x) = Ok x) \<Longrightarrow> try_map g (map f xs) = Ok xs"
  by (induction xs) auto

section \<open>Machine arithmetic\<close>

definition checked_add :: "'l::len word \<Rightarrow> 'l word \<Rightarrow> 'l word option" where
  "checked_add a b = (if unat a + unat b < 2 ^ LENGTH('l) then Some (a + b) else None)"

definition saturating_add :: "'l::len word \<Rightarrow> 'l word \<Rightarrow> 'l word" where
  "saturating_add a b = (if unat a + unat b < 2 ^ LENGTH('l) then a + b else - 1)"

definition saturating_sub :: "'l::len word \<Rightarrow> 'l word \<Rightarrow> 'l word" where
  "saturating_sub a b = (if b \<le> a then a - b else 0)"

definition saturating_mul :: "'l::len word \<Rightarrow> 'l word \<Rightarrow> 'l word" where
  "saturating_mul a b = (if unat a * unat b < 2 ^ LENGTH('l) then a * b else - 1)"

lemma unat_plus_no_wrap:
  fixes a b :: "'l::len word"
  assumes "unat a + unat b < 2 ^ LENGTH('l)"
  shows "unat (a + b) = unat a + unat b"
  using assms by (simp add: unat_word_ariths)

lemma unat_max_word: "unat (- 1 :: 'l::len word) = 2 ^ LENGTH('l) - 1"
  by (simp add: unsigned_minus_1_eq_mask mask_eq_exp_minus_1)

lemma unat_checked_add:
  "checked_add a b = Some c \<Longrightarrow> unat c = unat a + unat b"
  by (auto simp: checked_add_def unat_plus_no_wrap split: if_splits)

lemma checked_add_None_iff:
  "checked_add (a :: 'l::len word) b = None \<longleftrightarrow> 2 ^ LENGTH('l) \<le> unat a + unat b"
  by (auto simp: checked_add_def)

lemma unat_saturating_add:
  "unat (saturating_add a b) = min (unat a + unat b) (2 ^ LENGTH('l) - 1)"
  for a b :: "'l::len word"
  by (auto simp: saturating_add_def unat_plus_no_wrap unat_max_word min_def)

lemma unat_saturating_sub: "unat (saturating_sub a b) = unat a - unat b"
  by (auto simp: saturating_sub_def unat_sub word_le_nat_alt)

lemma unat_saturating_mul:
  "unat (saturating_mul a b) = min (unat a * unat b) (2 ^ LENGTH('l) - 1)"
  for a b :: "'l::len word"
proof (cases "unat a * unat b < 2 ^ LENGTH('l)")
  case True
  then show ?thesis by (simp add: saturating_mul_def unat_word_ariths)
next
  case False
  then show ?thesis by (simp add: saturating_mul_def unat_max_word)
qed

lemma unat_lt_max:
  fixes n :: "'l::len word"
  assumes "n \<noteq> - 1"
  shows "unat n < 2 ^ LENGTH('l) - 1"
proof -
  have "unat n < 2 ^ LENGTH('l)" by (rule unsigned_less)
  moreover have "unat n \<noteq> 2 ^ LENGTH('l) - 1"
    using assms unat_max_word [where 'l = 'l] by (metis word_unat_eq_iff)
  ultimately show ?thesis by linarith
qed

lemma saturating_succ:
  fixes n :: u64
  shows "n \<le> saturating_add n 1" and "n \<noteq> - 1 \<Longrightarrow> n < saturating_add n 1"
    and "n = - 1 \<Longrightarrow> saturating_add n 1 = - 1"
proof -
  show less: "n < saturating_add n 1" if "n \<noteq> - 1"
    using unat_lt_max [OF that] by (simp add: word_less_nat_alt unat_saturating_add)
  show max: "n = - 1 \<Longrightarrow> saturating_add n 1 = - 1"
    by (simp add: saturating_add_def unat_max_word)
  show "n \<le> saturating_add n 1"
    using less max by (cases "n = - 1") auto
qed

lemma unat_ucast_up:
  assumes "LENGTH('a) \<le> LENGTH('b)"
  shows "unat (ucast (w :: 'a::len word) :: 'b::len word) = unat w"
proof -
  have "unat w < 2 ^ LENGTH('a)" by (rule unsigned_less)
  also have "(2 :: nat) ^ LENGTH('a) \<le> 2 ^ LENGTH('b)" using assms by (intro power_increasing) auto
  finally show ?thesis by (simp add: unsigned_ucast_eq take_bit_nat_eq_self)
qed

lemma unat_of_nat_small: "n < 2 ^ LENGTH('l) \<Longrightarrow> unat (of_nat n :: 'l::len word) = n"
  by (simp add: unat_of_nat)

section \<open>Big-endian byte strings\<close>

definition be_nat :: "u8 list \<Rightarrow> nat" where
  "be_nat bs = foldl (\<lambda>acc b. acc * 256 + unat b) 0 bs"

definition from_be_bytes :: "u8 list \<Rightarrow> 'l::len word" where
  "from_be_bytes bs = of_nat (be_nat bs)"

fun be_bytes :: "nat \<Rightarrow> nat \<Rightarrow> u8 list" where
  "be_bytes 0 n = []"
| "be_bytes (Suc k) n = be_bytes k (n div 256) @ [of_nat (n mod 256)]"

lemma be_bytes_two: "be_bytes 2 n = [of_nat (n div 256 mod 256), of_nat (n mod 256)]"
  by (simp add: numeral_2_eq_2)

definition to_be_bytes :: "nat \<Rightarrow> 'l::len word \<Rightarrow> u8 list" where
  "to_be_bytes k w = be_bytes k (unat w)"

lemma length_be_bytes [simp]: "length (be_bytes k n) = k"
  by (induction k arbitrary: n) auto

lemma length_to_be_bytes [simp]: "length (to_be_bytes k w) = k"
  by (simp add: to_be_bytes_def)

lemma be_nat_snoc [simp]: "be_nat (bs @ [b]) = be_nat bs * 256 + unat b"
  by (simp add: be_nat_def)

lemma be_nat_Nil [simp]: "be_nat [] = 0"
  by (simp add: be_nat_def)

lemma unat_byte_of_mod: "unat (of_nat (n mod 256) :: u8) = n mod 256"
  by (simp add: unat_of_nat)

lemma be_nat_be_bytes: "n < 256 ^ k \<Longrightarrow> be_nat (be_bytes k n) = n"
proof (induction k arbitrary: n)
  case 0
  then show ?case by simp
next
  case (Suc k)
  then have "n div 256 < 256 ^ k" by (simp add: less_mult_imp_div_less mult.commute)
  then show ?case by (simp add: Suc.IH unat_byte_of_mod)
qed

lemma unat_byte_bound: "unat (b :: u8) < 256"
proof -
  have "unat b < 2 ^ LENGTH(8)" by (rule unsigned_less)
  then show ?thesis by simp
qed

lemma be_nat_bound: "be_nat bs < 256 ^ length bs"
proof (induction bs rule: rev_induct)
  case Nil
  show ?case by simp
next
  case (snoc b bs)
  have "unat b < 256" by (rule unat_byte_bound)
  with snoc show ?case by simp
qed

lemma be_bytes_be_nat: "be_bytes (length bs) (be_nat bs) = bs"
proof (induction bs rule: rev_induct)
  case Nil
  show ?case by simp
next
  case (snoc b bs)
  have b: "unat b < 256" by (rule unat_byte_bound)
  then have "(be_nat bs * 256 + unat b) div 256 = be_nat bs"
    and "(be_nat bs * 256 + unat b) mod 256 = unat b" by simp_all
  with snoc b show ?case by simp
qed

lemma from_to_be_bytes:
  fixes w :: "'l::len word"
  assumes "LENGTH('l) \<le> 8 * k"
  shows "from_be_bytes (to_be_bytes k w) = w"
proof -
  have "unat w < 2 ^ LENGTH('l)" by (rule unsigned_less)
  also have "(2 :: nat) ^ LENGTH('l) \<le> 2 ^ (8 * k)" using assms by (intro power_increasing) auto
  also have "(2 :: nat) ^ (8 * k) = 256 ^ k" by (simp add: power_mult)
  finally show ?thesis
    by (simp add: from_be_bytes_def to_be_bytes_def be_nat_be_bytes)
qed

lemma to_from_be_bytes:
  assumes "8 * length bs = LENGTH('l)"
  shows "to_be_bytes (length bs) (from_be_bytes bs :: 'l::len word) = bs"
proof -
  have "(256 :: nat) ^ length bs = 2 ^ LENGTH('l)"
    by (simp add: power_mult flip: assms)
  then have "unat (of_nat (be_nat bs) :: 'l word) = be_nat bs"
    using be_nat_bound [of bs] by (simp add: unat_of_nat)
  then show ?thesis by (simp add: to_be_bytes_def from_be_bytes_def be_bytes_be_nat)
qed

section \<open>Hash maps\<close>

abbreviation keys :: "('k \<times> 'v) list \<Rightarrow> 'k list" where
  "keys m \<equiv> map fst m"

definition contains_key :: "('k \<times> 'v) list \<Rightarrow> 'k \<Rightarrow> bool" where
  "contains_key m k \<longleftrightarrow> map_of m k \<noteq> None"

definition modify :: "'k \<Rightarrow> ('v \<Rightarrow> 'v) \<Rightarrow> ('k \<times> 'v) list \<Rightarrow> ('k \<times> 'v) list" where
  "modify k f m = map (\<lambda>(k', v). (k', if k' = k then f v else v)) m"

lemma contains_key_iff [map_laws]: "contains_key m k \<longleftrightarrow> k \<in> set (keys m)"
  by (auto simp: contains_key_def map_of_eq_None_iff)

lemma map_of_update [map_laws, simp]: "map_of (AList.update k v m) = (map_of m)(k \<mapsto> v)"
  by (simp add: AList.update_conv')

lemma map_of_delete_upd [map_laws, simp]: "map_of (AList.delete k m) = (map_of m)(k := None)"
  by (simp add: AList.delete_conv')

lemma length_update [map_laws]:
  "length (AList.update k v m) = (if k \<in> set (keys m) then length m else Suc (length m))"
  by (induction m) auto

lemma distinct_keys_update [map_laws, simp]:
  "distinct (keys m) \<Longrightarrow> distinct (keys (AList.update k v m))"
  by (rule AList.distinct_update)

lemma distinct_keys_delete [map_laws, simp]:
  "distinct (keys m) \<Longrightarrow> distinct (keys (AList.delete k m))"
  by (rule AList.distinct_delete)

lemma set_update_subset: "set (AList.update k v m) \<subseteq> insert (k, v) (set m)"
  by (induction m) auto

lemma delete_filter: "AList.delete k m = filter (\<lambda>p. fst p \<noteq> k) m"
  by (auto simp: AList.delete_eq intro: filter_cong)

lemma length_delete [map_laws]:
  "distinct (keys m) \<Longrightarrow>
     length (AList.delete k m) = (if k \<in> set (keys m) then length m - 1 else length m)"
proof (induction m)
  case (Cons p m)
  then show ?case by (cases m) (auto simp: delete_filter filter_id_conv)
qed (simp add: delete_filter)

lemma keys_modify [map_laws, simp]: "keys (modify k f m) = keys m"
  by (induction m) (auto simp: modify_def)

lemma length_modify [map_laws, simp]: "length (modify k f m) = length m"
  by (simp add: modify_def)

lemma map_of_modify [map_laws]:
  "map_of (modify k f m) k' = (if k' = k then map_option f (map_of m k) else map_of m k')"
  by (induction m) (auto simp: modify_def)

lemma set_keys_update [map_laws, simp]: "set (keys (AList.update k v m)) = insert k (set (keys m))"
  by (induction m) auto

lemma set_keys_delete [map_laws, simp]: "set (keys (AList.delete k m)) = set (keys m) - {k}"
  by (auto simp: delete_filter)

lemma distinct_keys_filter [map_laws, simp]:
  "distinct (keys m) \<Longrightarrow> distinct (keys (filter P m))"
  by (induction m) auto

lemma map_of_filter_distinct:
  "distinct (keys m) \<Longrightarrow>
     map_of (filter P m) k =
       (case map_of m k of None \<Rightarrow> None | Some v \<Rightarrow> if P (k, v) then Some v else None)"
  by (induction m) (auto simp: map_of_eq_None_iff image_iff split: option.splits)

section \<open>Ordered maps\<close>

text \<open>A \<open>BTreeMap\<close> is its list of entries in key order.\<close>

fun bt_insert :: "'k::linorder \<Rightarrow> 'v \<Rightarrow> ('k \<times> 'v) list \<Rightarrow> ('k \<times> 'v) list" where
  "bt_insert k v [] = [(k, v)]"
| "bt_insert k v ((k', v') # m) =
     (if k < k' then (k, v) # (k', v') # m
      else if k = k' then (k, v) # m
      else (k', v') # bt_insert k v m)"

definition bt_sorted :: "('k::linorder \<times> 'v) list \<Rightarrow> bool" where
  "bt_sorted m \<longleftrightarrow> sorted_wrt (<) (keys m)"

lemma map_of_bt_insert [simp]: "map_of (bt_insert k v m) = (map_of m)(k \<mapsto> v)"
  by (induction m) auto

lemma set_keys_bt_insert [simp]: "set (keys (bt_insert k v m)) = insert k (set (keys m))"
proof (induction m)
  case (Cons p m)
  then show ?case by (cases p) (simp, blast)
qed simp

lemma bt_sorted_insert: "bt_sorted m \<Longrightarrow> bt_sorted (bt_insert k v m)"
proof (induction m)
  case Nil
  then show ?case by (simp add: bt_sorted_def)
next
  case (Cons p m)
  then have m: "bt_sorted (bt_insert k v m)" and lt: "\<forall>x \<in> set (keys m). fst p < x"
    by (auto simp: bt_sorted_def)
  from m Cons.prems lt show ?case
    by (cases p) (auto simp: bt_sorted_def simp flip: set_map
        simp del: set_map split: if_splits dest: order.strict_trans)
qed

lemma bt_sorted_distinct: "bt_sorted m \<Longrightarrow> distinct (keys m)"
  by (simp add: bt_sorted_def strict_sorted_iff)

lemma bt_sorted_filter: "bt_sorted m \<Longrightarrow> bt_sorted (filter P m)"
  unfolding bt_sorted_def by (induction m) auto

lemma bt_sorted_delete: "bt_sorted m \<Longrightarrow> bt_sorted (AList.delete k m)"
  by (simp add: delete_filter bt_sorted_filter)

lemma sum_bt_insert:
  "sum_list (map g (bt_insert k v m)) \<le> g (k, v) + sum_list (map g m)" for g :: "_ \<Rightarrow> nat"
  by (induction m) auto

lemma set_bt_insert: "set (bt_insert k v m) \<subseteq> insert (k, v) (set m)"
proof (induction m)
  case (Cons p m)
  then show ?case by (cases p) (simp, blast)
qed simp

lemma sum_delete_le:
  "sum_list (map g (AList.delete k m)) \<le> sum_list (map g m)" for g :: "_ \<Rightarrow> nat"
  by (induction m) auto

lemma bt_insert_greatest: "(\<forall>x \<in> set (keys m). x < k) \<Longrightarrow> bt_insert k v m = m @ [(k, v)]"
  by (induction m) auto

section \<open>Runs of a step function\<close>

fun run :: "('s \<Rightarrow> 'op \<Rightarrow> 's \<times> 'r) \<Rightarrow> 's \<Rightarrow> 'op list \<Rightarrow> 's \<times> 'r list" where
  "run step s [] = (s, [])"
| "run step s (x # xs) =
     (let (s', r) = step s x; (s'', rs) = run step s' xs in (s'', r # rs))"

lemma run_Cons [simp]:
  "fst (run step s (x # xs)) = fst (run step (fst (step s x)) xs)"
  "snd (run step s (x # xs)) = snd (step s x) # snd (run step (fst (step s x)) xs)"
  by (simp_all add: split_beta Let_def)

declare run.simps(2) [simp del]

lemma length_run [simp]: "length (snd (run step s xs)) = length xs"
  by (induction xs arbitrary: s) auto

lemma run_append:
  "fst (run step s (xs @ ys)) = fst (run step (fst (run step s xs)) ys)"
  "snd (run step s (xs @ ys)) = snd (run step s xs) @ snd (run step (fst (run step s xs)) ys)"
  by (induction xs arbitrary: s) auto

text \<open>The contract of a component with state: every operation keeps its invariant.\<close>

locale machine =
  fixes step :: "'s \<Rightarrow> 'op \<Rightarrow> 's \<times> 'r"
    and inv :: "'s \<Rightarrow> bool"
  assumes step_inv: "inv s \<Longrightarrow> inv (fst (step s x))"
begin

lemma run_inv: "inv s \<Longrightarrow> inv (fst (run step s xs))"
  by (induction xs arbitrary: s) (auto intro: step_inv)

lemma run_step_post:
  assumes post: "\<And>s x. inv s \<Longrightarrow> P x (snd (step s x))" and "inv s"
  shows "list_all2 P xs (snd (run step s xs))"
  using \<open>inv s\<close> by (induction xs arbitrary: s) (auto intro: post step_inv)

end

text \<open>
  The contract of a component whose counters are exact only within a budget: each operation has a
  cost, the invariant is indexed by the cost spent so far, and inputs are restricted by \<open>ok\<close>.
\<close>

locale metered =
  fixes step :: "'s \<Rightarrow> 'op \<Rightarrow> 's \<times> 'r"
    and cost :: "'op \<Rightarrow> nat"
    and ok :: "'op \<Rightarrow> bool"
    and budget :: nat
    and inv :: "nat \<Rightarrow> 's \<Rightarrow> bool"
    and post :: "'r \<Rightarrow> bool"
  assumes step_inv: "inv n s \<Longrightarrow> ok x \<Longrightarrow> n + cost x \<le> budget \<Longrightarrow> inv (n + cost x) (fst (step s x))"
    and step_post: "inv n s \<Longrightarrow> ok x \<Longrightarrow> n + cost x \<le> budget \<Longrightarrow> post (snd (step s x))"
begin

lemma run_metered:
  "inv n s \<Longrightarrow> list_all ok xs \<Longrightarrow> n + sum_list (map cost xs) \<le> budget \<Longrightarrow>
     inv (n + sum_list (map cost xs)) (fst (run step s xs)) \<and> list_all post (snd (run step s xs))"
proof (induction xs arbitrary: n s)
  case (Cons x xs)
  then have "inv (n + cost x) (fst (step s x))" "post (snd (step s x))"
    by (auto intro: step_inv step_post)
  with Cons.IH [of "n + cost x" "fst (step s x)"] Cons.prems show ?case
    by (simp add: add.assoc)
qed simp

end

text \<open>The contract of an implementation: every operation does what the abstract one does.\<close>

locale simulation = machine step inv
  for step :: "'s \<Rightarrow> 'op \<Rightarrow> 's \<times> 'r" and inv :: "'s \<Rightarrow> bool" +
  fixes abs :: "'s \<Rightarrow> 'a"
    and astep :: "'a \<Rightarrow> 'op \<Rightarrow> 'a \<times> 'r"
  assumes step_sim: "inv s \<Longrightarrow> astep (abs s) x = (abs (fst (step s x)), snd (step s x))"
begin

lemma run_sim:
  "inv s \<Longrightarrow> run astep (abs s) xs = (abs (fst (run step s xs)), snd (run step s xs))"
proof (induction xs arbitrary: s)
  case Nil
  then show ?case by simp
next
  case (Cons x xs)
  then have "run astep (abs (fst (step s x))) xs
      = (abs (fst (run step (fst (step s x)) xs)), snd (run step (fst (step s x)) xs))"
    by (intro Cons.IH step_inv)
  with Cons.prems show ?case
    by (simp add: run.simps(2) [of astep] step_sim)
qed

end

end
