(* ===== verification/Delivery.thy ===== *)
theory Delivery
  imports Prelude
begin

text \<open>
  The agent's delivery buffer and event rate limiter (\<open>crates/agent/src/delivery.rs\<close>).

  \<open>event_buffer\<close> is the struct \<open>EventBuffer\<close>: a queue of events not yet sent and the batches
  sent but not yet acknowledged, keyed by their sequence number. The element type stands for
  \<open>RuntimeEvent\<close>, which the buffer moves and never inspects. Sequence numbers and counters
  are 64-bit words: the sequence number saturates, the counters wrap. The counters are the
  fields of \<open>Counters\<close> and \<open>ApplicationCounters\<close> that the buffer writes.

  The lemmas show the bounds the buffer keeps under every sequence of operations, that it
  neither loses, duplicates nor reorders an event it accepted, and the admission bound of
  the rate limiter.
\<close>

section \<open>State and operations\<close>

record 'e pending_batch =
  sequence :: u64
  events :: "'e list"

record delivery_counters =
  capacity_dropped :: u64
  sent :: u64
  acknowledged :: u64
  retried :: u64
  delivery_retry :: u64

record 'e event_buffer =
  capacity :: nat
  batch_size :: nat
  next_sequence :: u64
  queued :: "'e list"
  pending :: "(u64 \<times> 'e pending_batch) list"

definition event_buffer_new :: "nat \<Rightarrow> nat \<Rightarrow> 'e event_buffer option" where
  "event_buffer_new cap bsize =
     (if cap > 0 \<and> bsize > 0 \<and> bsize \<le> cap
      then Some \<lparr>capacity = cap, batch_size = bsize, next_sequence = 1, queued = [], pending = []\<rparr>
      else None)"

definition pending_events :: "'e event_buffer \<Rightarrow> nat" where
  "pending_events b = sum_list (map (\<lambda>p. length (events (snd p))) (pending b))"

definition occupied :: "'e event_buffer \<Rightarrow> nat" where
  "occupied b = length (queued b) + pending_events b"

definition push ::
    "'e \<Rightarrow> 'e event_buffer \<times> delivery_counters \<Rightarrow> ('e event_buffer \<times> delivery_counters) \<times> bool" where
  "push e s = (case s of (b, c) \<Rightarrow>
     if occupied b \<ge> capacity b
     then ((b, c\<lparr>capacity_dropped := capacity_dropped c + 1\<rparr>), False)
     else ((b\<lparr>queued := queued b @ [e]\<rparr>, c), True))"

definition next_batch ::
    "'e event_buffer \<times> delivery_counters \<Rightarrow>
       ('e event_buffer \<times> delivery_counters) \<times> 'e pending_batch option" where
  "next_batch s = (case s of (b, c) \<Rightarrow>
     if queued b = [] then ((b, c), None)
     else
       let count = min (batch_size b) (length (queued b));
           batch = \<lparr>sequence = next_sequence b, events = take count (queued b)\<rparr>
       in ((b\<lparr>queued := drop count (queued b),
              next_sequence := saturating_add (next_sequence b) 1,
              pending := bt_insert (sequence batch) batch (pending b)\<rparr>,
            c\<lparr>sent := sent c + of_nat (length (events batch))\<rparr>), Some batch))"

definition acknowledge ::
    "u64 \<Rightarrow> 'e event_buffer \<times> delivery_counters \<Rightarrow>
       ('e event_buffer \<times> delivery_counters) \<times> bool" where
  "acknowledge q s = (case s of (b, c) \<Rightarrow>
     (case map_of (pending b) q of
        None \<Rightarrow> ((b, c), False)
      | Some batch \<Rightarrow>
          ((b\<lparr>pending := AList.delete q (pending b)\<rparr>,
            c\<lparr>acknowledged := acknowledged c + of_nat (length (events batch))\<rparr>), True)))"

definition replay_pending ::
    "'e event_buffer \<times> delivery_counters \<Rightarrow>
       ('e event_buffer \<times> delivery_counters) \<times> 'e pending_batch list" where
  "replay_pending s = (case s of (b, c) \<Rightarrow>
     let batches = map snd (pending b);
         n = of_nat (sum_list (map (\<lambda>batch. length (events batch)) batches))
     in ((b, c\<lparr>retried := retried c + n, delivery_retry := delivery_retry c + n\<rparr>), batches))"

datatype 'e buffer_op = Push 'e | NextBatch | Acknowledge u64 | Replay

datatype 'e buffer_out =
    Pushed bool
  | Batched "'e pending_batch option"
  | Acked bool
  | Replayed "'e pending_batch list"

fun buffer_step ::
    "'e event_buffer \<times> delivery_counters \<Rightarrow> 'e buffer_op \<Rightarrow>
       ('e event_buffer \<times> delivery_counters) \<times> 'e buffer_out" where
  "buffer_step s (Push e) = map_prod id Pushed (push e s)"
| "buffer_step s NextBatch = map_prod id Batched (next_batch s)"
| "buffer_step s (Acknowledge q) = map_prod id Acked (acknowledge q s)"
| "buffer_step s Replay = map_prod id Replayed (replay_pending s)"

section \<open>The bounds the buffer keeps\<close>

text \<open>
  The keys of \<open>pending\<close> are in order and below the next sequence number; only once the
  counter has saturated may the last key equal it.
\<close>

definition batch_ok :: "'e event_buffer \<Rightarrow> u64 \<times> 'e pending_batch \<Rightarrow> bool" where
  "batch_ok b p \<longleftrightarrow>
     sequence (snd p) = fst p \<and> events (snd p) \<noteq> [] \<and> length (events (snd p)) \<le> batch_size b
     \<and> fst p \<le> next_sequence b \<and> (next_sequence b \<noteq> - 1 \<longrightarrow> fst p < next_sequence b)"

definition buffer_inv :: "'e event_buffer \<Rightarrow> bool" where
  "buffer_inv b \<longleftrightarrow>
     0 < batch_size b \<and> batch_size b \<le> capacity b \<and> occupied b \<le> capacity b
     \<and> bt_sorted (pending b) \<and> (\<forall>p \<in> set (pending b). batch_ok b p)"

lemma push_inv: "buffer_inv (fst s) \<Longrightarrow> buffer_inv (fst (fst (push e s)))"
  by (cases s)
    (auto simp: push_def buffer_inv_def batch_ok_def occupied_def pending_events_def)

lemma next_batch_inv:
  assumes "buffer_inv (fst s)"
  shows "buffer_inv (fst (fst (next_batch s)))"
proof -
  obtain b c where s: "s = (b, c)" by (cases s)
  define n where "n = min (batch_size b) (length (queued b))"
  define batch where "batch = \<lparr>sequence = next_sequence b, events = take n (queued b)\<rparr>"
  define b' where "b' = b\<lparr>queued := drop n (queued b),
      next_sequence := saturating_add (next_sequence b) 1,
      pending := bt_insert (next_sequence b) batch (pending b)\<rparr>"
  show ?thesis
  proof (cases "queued b = []")
    case True
    with assms s show ?thesis by (simp add: next_batch_def)
  next
    case False
    from assms s have b: "buffer_inv b" by simp
    have "pending_events b' \<le> length (events batch) + pending_events b"
      using sum_bt_insert [of "\<lambda>p. length (events (snd p))" "next_sequence b" batch "pending b"]
      by (simp add: b'_def pending_events_def)
    then have occ: "occupied b' \<le> capacity b'"
      using b by (auto simp: occupied_def b'_def batch_def n_def buffer_inv_def)
    have "batch_ok b' (next_sequence b, batch)"
      using b False saturating_succ [of "next_sequence b"]
      by (cases "next_sequence b = - 1")
        (auto simp: batch_ok_def b'_def batch_def n_def buffer_inv_def)
    moreover have "batch_ok b' p" if "p \<in> set (pending b)" for p
      using b that saturating_succ [of "next_sequence b"]
      by (auto simp: batch_ok_def b'_def buffer_inv_def)
    ultimately have "\<forall>p \<in> set (pending b'). batch_ok b' p"
      using set_bt_insert [of "next_sequence b" batch "pending b"] by (auto simp: b'_def)
    with b occ have "buffer_inv b'"
      by (auto simp: buffer_inv_def b'_def bt_sorted_insert)
    with False s show ?thesis
      by (simp add: next_batch_def b'_def batch_def n_def Let_def)
  qed
qed

lemma acknowledge_inv: "buffer_inv (fst s) \<Longrightarrow> buffer_inv (fst (fst (acknowledge q s)))"
proof (cases s)
  case (Pair b c)
  have "pending_events (b\<lparr>pending := AList.delete q (pending b)\<rparr>) \<le> pending_events b"
    by (simp add: pending_events_def sum_delete_le)
  then show "buffer_inv (fst s) \<Longrightarrow> ?thesis"
    using Pair
    by (auto simp: acknowledge_def buffer_inv_def batch_ok_def occupied_def bt_sorted_filter
        delete_filter split: option.splits)
qed

lemma replay_inv: "buffer_inv (fst s) \<Longrightarrow> buffer_inv (fst (fst (replay_pending s)))"
  by (cases s) (auto simp: replay_pending_def Let_def)

interpretation buffer: machine buffer_step "\<lambda>s. buffer_inv (fst s)"
proof unfold_locales
  fix s :: "'e event_buffer \<times> delivery_counters" and x
  assume "buffer_inv (fst s)"
  then show "buffer_inv (fst (fst (buffer_step s x)))"
    by (cases x) (auto simp: push_inv next_batch_inv acknowledge_inv replay_inv)
qed

lemma event_buffer_new_inv: "event_buffer_new cap bsize = Some b \<Longrightarrow> buffer_inv b"
  by (auto simp: event_buffer_new_def buffer_inv_def occupied_def pending_events_def bt_sorted_def
      split: if_splits)

section \<open>What the buffer does with the events it accepts\<close>

text \<open>
  The observable history of a run: the events whose push was accepted, the batches handed to
  the transport, the sequence numbers whose acknowledgement was accepted.
\<close>

definition accepted_events :: "'e buffer_op list \<Rightarrow> 'e buffer_out list \<Rightarrow> 'e list" where
  "accepted_events xs rs =
     concat (map (\<lambda>p. case p of (Push e, Pushed True) \<Rightarrow> [e] | _ \<Rightarrow> []) (zip xs rs))"

definition issued :: "'e buffer_out list \<Rightarrow> 'e pending_batch list" where
  "issued rs = concat (map (\<lambda>r. case r of Batched (Some batch) \<Rightarrow> [batch] | _ \<Rightarrow> []) rs)"

definition acked :: "'e buffer_op list \<Rightarrow> 'e buffer_out list \<Rightarrow> u64 list" where
  "acked xs rs =
     concat (map (\<lambda>p. case p of (Acknowledge q, Acked True) \<Rightarrow> [q] | _ \<Rightarrow> []) (zip xs rs))"

definition unacknowledged :: "'e buffer_op list \<Rightarrow> 'e buffer_out list \<Rightarrow> 'e pending_batch list" where
  "unacknowledged xs rs = filter (\<lambda>batch. sequence batch \<notin> set (acked xs rs)) (issued rs)"

definition sequence_numbers :: "nat \<Rightarrow> u64 list" where
  "sequence_numbers n = map of_nat [1..<Suc n]"

definition fifo_state :: "'e buffer_op list \<Rightarrow> 'e buffer_out list \<Rightarrow> 'e event_buffer \<Rightarrow> bool" where
  "fifo_state xs rs b \<longleftrightarrow>
     accepted_events xs rs = concat (map events (issued rs)) @ queued b
     \<and> map sequence (issued rs) = sequence_numbers (length (issued rs))
     \<and> next_sequence b = of_nat (Suc (length (issued rs)))
     \<and> pending b = map (\<lambda>batch. (sequence batch, batch)) (unacknowledged xs rs)
     \<and> set (acked xs rs) \<subseteq> sequence ` set (issued rs)
     \<and> length (issued rs) \<le> length xs"

lemma history_snoc:
  assumes "length xs = length rs"
  shows "accepted_events (xs @ [x]) (rs @ [r]) =
           accepted_events xs rs @ (case (x, r) of (Push e, Pushed True) \<Rightarrow> [e] | _ \<Rightarrow> [])"
    and "issued (rs @ [r]) = issued rs @ (case r of Batched (Some batch) \<Rightarrow> [batch] | _ \<Rightarrow> [])"
    and "acked (xs @ [x]) (rs @ [r]) =
           acked xs rs @ (case (x, r) of (Acknowledge q, Acked True) \<Rightarrow> [q] | _ \<Rightarrow> [])"
  using assms by (simp_all add: accepted_events_def issued_def acked_def)

lemma of_nat_less_u64: "i < j \<Longrightarrow> j < 2 ^ 64 \<Longrightarrow> (of_nat i :: u64) < of_nat j"
  by (simp add: word_less_nat_alt unat_of_nat_small)

lemma sequence_numbers_less:
  "q \<in> set (sequence_numbers n) \<Longrightarrow> Suc n < 2 ^ 64 \<Longrightarrow> q < of_nat (Suc n)"
  by (auto simp: sequence_numbers_def simp del: of_nat_Suc upt_Suc intro: of_nat_less_u64)

lemma fifo_next_batch:
  assumes st: "fifo_state xs rs b" and len: "length xs = length rs"
    and few: "Suc (length xs) < 2 ^ 64 - 1" and ne: "queued b \<noteq> []"
  defines "n \<equiv> min (batch_size b) (length (queued b))"
  defines "batch \<equiv> \<lparr>sequence = next_sequence b, events = take n (queued b)\<rparr>"
  shows "fifo_state (xs @ [NextBatch]) (rs @ [Batched (Some batch)])
    (b\<lparr>queued := drop n (queued b), next_sequence := saturating_add (next_sequence b) 1,
       pending := bt_insert (next_sequence b) batch (pending b)\<rparr>)"
proof -
  let ?k = "Suc (length (issued rs))"
  from st few have k: "Suc ?k < 2 ^ 64" and nxt: "next_sequence b = of_nat ?k"
    by (auto simp: fifo_state_def)
  have "\<forall>q \<in> set (map sequence (issued rs)). q < next_sequence b"
    using st k by (auto simp: fifo_state_def sequence_numbers_less simp del: of_nat_Suc set_map)
  then have seqs: "\<forall>batch \<in> set (issued rs). sequence batch < next_sequence b" by simp
  have fresh: "next_sequence b \<notin> set (acked xs rs)"
  proof
    assume "next_sequence b \<in> set (acked xs rs)"
    with st obtain batch where "batch \<in> set (issued rs)" "next_sequence b = sequence batch"
      by (auto simp: fifo_state_def)
    with seqs show False by auto
  qed
  have "saturating_add (next_sequence b) 1 = of_nat (Suc ?k)"
    using k nxt by (simp add: saturating_add_def unat_of_nat_small del: of_nat_Suc)
       (simp add: algebra_simps)
  moreover have "bt_insert (next_sequence b) batch (pending b)
      = pending b @ [(next_sequence b, batch)]"
    using st seqs by (intro bt_insert_greatest) (auto simp: fifo_state_def unacknowledged_def)
  ultimately show ?thesis
    using st len fresh nxt
    by (auto simp: fifo_state_def history_snoc unacknowledged_def batch_def n_def
        sequence_numbers_def)
qed

lemma fifo_acknowledge:
  assumes st: "fifo_state xs rs b" and len: "length xs = length rs"
    and q: "map_of (pending b) q = Some batch"
  shows "fifo_state (xs @ [Acknowledge q]) (rs @ [Acked True])
    (b\<lparr>pending := AList.delete q (pending b)\<rparr>)"
proof -
  from q have "(q, batch) \<in> set (pending b)" by (rule map_of_SomeD)
  with st have "q \<in> sequence ` set (issued rs)"
    by (auto simp: fifo_state_def unacknowledged_def)
  with st len show ?thesis
    by (auto simp: fifo_state_def history_snoc unacknowledged_def delete_filter filter_map o_def
        intro!: filter_cong arg_cong [where f = "map _"])
qed

lemma fifo_other:
  assumes "fifo_state xs rs b" and "length xs = length rs"
    and "accepted_events (xs @ [x]) (rs @ [r]) = accepted_events xs rs @ es"
    and "issued (rs @ [r]) = issued rs" and "acked (xs @ [x]) (rs @ [r]) = acked xs rs"
  shows "fifo_state (xs @ [x]) (rs @ [r]) (b\<lparr>queued := queued b @ es\<rparr>)"
  using assms by (auto simp: fifo_state_def unacknowledged_def)

lemma fifo_run:
  assumes new: "event_buffer_new cap bsize = Some b0"
  shows "length xs < 2 ^ 64 - 1 \<Longrightarrow>
    fifo_state xs (snd (run buffer_step (b0, c0) xs)) (fst (fst (run buffer_step (b0, c0) xs)))"
proof (induction xs rule: rev_induct)
  case Nil
  show ?case using new
    by (auto simp: event_buffer_new_def fifo_state_def accepted_events_def issued_def acked_def
        unacknowledged_def sequence_numbers_def split: if_splits)
next
  case (snoc x xs)
  define rs where "rs = snd (run buffer_step (b0, c0) xs)"
  obtain b c where bc: "fst (run buffer_step (b0, c0) xs) = (b, c)" by fastforce
  from snoc bc have st: "fifo_state xs rs b" and few: "Suc (length xs) < 2 ^ 64 - 1"
    by (simp_all add: rs_def)
  have len: "length xs = length rs" by (simp add: rs_def)
  note same = fifo_other [OF st len, where es = "[]", simplified]
  have "fifo_state (xs @ [x]) (rs @ [snd (buffer_step (b, c) x)]) (fst (fst (buffer_step (b, c) x)))"
  proof (cases x)
    case (Push e)
    then show ?thesis
      using same [of x "Pushed False"] fifo_other [OF st len, of x "Pushed True" "[e]"] len
      by (auto simp: push_def history_snoc)
  next
    case NextBatch
    then show ?thesis
      using same [of x "Batched None"] fifo_next_batch [OF st len few] len
      by (auto simp: next_batch_def history_snoc Let_def)
  next
    case (Acknowledge q)
    then show ?thesis
      using same [of x "Acked False"] fifo_acknowledge [OF st len] len
      by (auto simp: acknowledge_def history_snoc split: option.splits)
  next
    case Replay
    then show ?thesis
      using same [of x "Replayed _"] len by (auto simp: replay_pending_def history_snoc Let_def)
  qed
  with bc show ?case by (simp add: run_append rs_def)
qed

text \<open>C19: Delivery buffer bounds. Whatever sequence of pushes, batches, acknowledgements and
  replays a new buffer goes through, the events it holds (queued and pending) never exceed its
  capacity, every pending batch is stored under its own sequence number, is not empty and has
  at most \<open>batch_size\<close> events, and the pending batches are in increasing sequence order.\<close>

theorem delivery_buffer_bounded:
  assumes "event_buffer_new cap bsize = Some b0"
    and "run buffer_step (b0, c0) xs = ((b, c), rs)"
  shows "occupied b \<le> capacity b
    \<and> (\<forall>p \<in> set (pending b). sequence (snd p) = fst p \<and> events (snd p) \<noteq> []
         \<and> length (events (snd p)) \<le> batch_size b)
    \<and> sorted_wrt (<) (keys (pending b))"
proof -
  from assms(1) have "buffer_inv (fst (b0, c0))" by (simp add: event_buffer_new_inv)
  then have "buffer_inv (fst (fst (run buffer_step (b0, c0) xs)))" by (rule buffer.run_inv)
  with assms(2) have "buffer_inv b" by simp
  then show ?thesis by (auto simp: buffer_inv_def batch_ok_def bt_sorted_def)
qed

definition zero_counters :: delivery_counters where
  "zero_counters =
     \<lparr>capacity_dropped = 0, sent = 0, acknowledged = 0, retried = 0, delivery_retry = 0\<rparr>"

definition sample_buffer :: "nat event_buffer" where
  "sample_buffer =
     \<lparr>capacity = 3, batch_size = 2, next_sequence = 1, queued = [], pending = []\<rparr>"

lemma sample_buffer_new: "event_buffer_new 3 2 = Some sample_buffer"
  by (simp add: event_buffer_new_def sample_buffer_def)

lemmas sample_run_simps = sample_buffer_def zero_counters_def push_def next_batch_def
  acknowledge_def occupied_def pending_events_def Let_def saturating_add_def

theorem delivery_buffer_bounded_witness:
  "let b = fst (fst (run buffer_step (sample_buffer, zero_counters)
              [Push 7, Push 8, NextBatch, Push 9, Push (10 :: nat)]))
   in occupied b = 3 \<and> capacity b = 3 \<and> queued b = [9]
      \<and> occupied b \<le> capacity b \<and> (\<forall>p \<in> set (pending b). events (snd p) \<noteq> [])"
proof -
  let ?r = "run buffer_step (sample_buffer, zero_counters)
    [Push 7, Push 8, NextBatch, Push 9, Push (10 :: nat)]"
  have "?r = ((fst (fst ?r), snd (fst ?r)), snd ?r)" by (simp only: prod.collapse)
  note delivery_buffer_bounded [OF sample_buffer_new this]
  moreover have "occupied (fst (fst ?r)) = 3 \<and> capacity (fst (fst ?r)) = 3 \<and> queued (fst (fst ?r)) = [9]"
    by (simp add: sample_run_simps run.simps(2) del: run_Cons)
  ultimately show ?thesis unfolding Let_def by blast
qed

text \<open>C3: Delivery in order, without loss or duplication. For fewer than \<open>2^64 - 1\<close> operations on a
  new buffer: the events accepted by \<open>push\<close>, in order, are exactly the events of the batches
  handed out, in order, followed by the events still queued; the batches are numbered
  1, 2, 3, ... in the order they were handed out; and the pending map holds exactly the
  batches handed out and not yet acknowledged, in that order, so a replay resends precisely
  those.\<close>

theorem delivery_fifo_exactly_once:
  assumes "event_buffer_new cap bsize = Some b0" and "length xs < 2 ^ 64 - 1"
    and "run buffer_step (b0, c0) xs = ((b, c), rs)"
  shows "accepted_events xs rs = concat (map events (issued rs)) @ queued b
    \<and> map sequence (issued rs) = map of_nat [1..<Suc (length (issued rs))]
    \<and> pending b = map (\<lambda>batch. (sequence batch, batch)) (unacknowledged xs rs)
    \<and> snd (replay_pending (b, c)) = unacknowledged xs rs"
proof -
  from fifo_run [OF assms(1), of xs c0] assms(2,3) have "fifo_state xs rs b" by simp
  then show ?thesis
    by (simp add: fifo_state_def sequence_numbers_def replay_pending_def Let_def o_def)
qed

theorem delivery_fifo_exactly_once_witness:
  "let xs = [Push 7, Push 8, NextBatch, Push 9, NextBatch, Acknowledge 1 :: nat buffer_op];
       b = fst (fst (run buffer_step (sample_buffer, zero_counters) xs));
       rs = snd (run buffer_step (sample_buffer, zero_counters) xs)
   in accepted_events xs rs = [7, 8, 9] \<and> map events (issued rs) = [[7, 8], [9]]
      \<and> accepted_events xs rs = concat (map events (issued rs)) @ queued b
      \<and> keys (pending b) = [2]
      \<and> pending b = map (\<lambda>batch. (sequence batch, batch)) (unacknowledged xs rs)"
proof -
  let ?xs = "[Push 7, Push 8, NextBatch, Push 9, NextBatch, Acknowledge 1 :: nat buffer_op]"
  let ?r = "run buffer_step (sample_buffer, zero_counters) ?xs"
  have r: "?r = ((fst (fst ?r), snd (fst ?r)), snd ?r)" by (simp only: prod.collapse)
  have "length ?xs < 2 ^ 64 - 1" by simp
  note delivery_fifo_exactly_once [OF sample_buffer_new this r]
  moreover have "accepted_events ?xs (snd ?r) = [7, 8, 9]
      \<and> map events (issued (snd ?r)) = [[7, 8], [9]]"
    by (simp add: sample_run_simps accepted_events_def issued_def run.simps(2) del: run_Cons)
  moreover have "keys (pending (fst (fst ?r))) = [2]" by (simp add: sample_run_simps run.simps(2) del: run_Cons)
  ultimately show ?thesis unfolding Let_def by blast
qed

section \<open>The buffer as one ledger of events\<close>

text \<open>
  The contract of the buffer, without queue, batches or ordered map: one list of the accepted
  and unacknowledged events in order of acceptance, each marked with the number of the batch it
  was sent in, if any. Sending marks the oldest unsent events; acknowledging a number removes
  the events marked with it; a number that is used again (which happens only when the sequence
  counter has saturated) displaces the events that carried it.
\<close>

record 'e ledger =
  l_capacity :: nat
  l_batch_size :: nat
  l_next :: u64
  l_items :: "('e \<times> u64 option) list"

fun mark :: "nat \<Rightarrow> u64 \<Rightarrow> ('e \<times> u64 option) list \<Rightarrow> ('e \<times> u64 option) list" where
  "mark n q [] = []"
| "mark n q ((e, Some r) # xs) = (e, Some r) # mark n q xs"
| "mark 0 q ((e, None) # xs) = (e, None) # mark 0 q xs"
| "mark (Suc n) q ((e, None) # xs) = (e, Some q) # mark n q xs"

lemma dropWhile_shorter [termination_simp]: "length (dropWhile P xs) < Suc (length xs)"
  by (simp add: length_dropWhile_le less_Suc_eq_le)

fun marked_batches :: "('e \<times> u64 option) list \<Rightarrow> 'e pending_batch list" where
  "marked_batches [] = []"
| "marked_batches ((e, None) # xs) = marked_batches xs"
| "marked_batches ((e, Some q) # xs) =
     \<lparr>sequence = q, events = e # map fst (takeWhile (\<lambda>p. snd p = Some q) xs)\<rparr>
     # marked_batches (dropWhile (\<lambda>p. snd p = Some q) xs)"

fun ledger_step :: "'e ledger \<Rightarrow> 'e buffer_op \<Rightarrow> 'e ledger \<times> 'e buffer_out" where
  "ledger_step l (Push e) =
     (if length (l_items l) \<ge> l_capacity l then (l, Pushed False)
      else (l\<lparr>l_items := l_items l @ [(e, None)]\<rparr>, Pushed True))"
| "ledger_step l NextBatch =
     (let es = take (l_batch_size l) (map fst (filter (\<lambda>p. snd p = None) (l_items l)));
          q = l_next l
      in if es = [] then (l, Batched None)
         else (l\<lparr>l_items := mark (l_batch_size l) q (filter (\<lambda>p. snd p \<noteq> Some q) (l_items l)),
                 l_next := saturating_add q 1\<rparr>,
               Batched (Some \<lparr>sequence = q, events = es\<rparr>)))"
| "ledger_step l (Acknowledge q) =
     (if Some q \<in> snd ` set (l_items l)
      then (l\<lparr>l_items := filter (\<lambda>p. snd p \<noteq> Some q) (l_items l)\<rparr>, Acked True)
      else (l, Acked False))"
| "ledger_step l Replay = (l, Replayed (marked_batches (l_items l)))"

definition sent_items :: "(u64 \<times> 'e pending_batch) list \<Rightarrow> ('e \<times> u64 option) list" where
  "sent_items m = concat (map (\<lambda>(q, batch). map (\<lambda>e. (e, Some q)) (events batch)) m)"

definition ledger_of :: "'e event_buffer \<Rightarrow> 'e ledger" where
  "ledger_of b = \<lparr>l_capacity = capacity b, l_batch_size = batch_size b, l_next = next_sequence b,
     l_items = sent_items (pending b) @ map (\<lambda>e. (e, None)) (queued b)\<rparr>"

lemma sent_items_simps [simp]:
  "sent_items [] = []"
  "sent_items ((q, batch) # m) = map (\<lambda>e. (e, Some q)) (events batch) @ sent_items m"
  "sent_items (m @ m') = sent_items m @ sent_items m'"
  by (simp_all add: sent_items_def)

lemma length_sent_items: "length (sent_items m) = sum_list (map (\<lambda>p. length (events (snd p))) m)"
  by (induction m) auto

lemma unsent_sent_items [simp]: "filter (\<lambda>p. snd p = None) (sent_items m) = []"
  by (induction m) auto

lemma filter_sent_items: "filter (\<lambda>p. snd p \<noteq> Some q) (sent_items m) = sent_items (AList.delete q m)"
proof (induction m)
  case (Cons p m)
  then show ?case by (cases p) (auto simp: filter_map o_def)
qed simp

lemma mark_sent_batch:
  "mark n q (map (\<lambda>e. (e, Some r)) es @ ys) = map (\<lambda>e. (e, Some r)) es @ mark n q ys"
  by (induction es) auto

lemma mark_sent_items: "mark n q (sent_items m @ xs) = sent_items m @ mark n q xs"
  by (induction m) (auto simp: mark_sent_batch)

lemma sent_numbers:
  "\<forall>p \<in> set m. events (snd p) \<noteq> [] \<Longrightarrow> Some q \<in> snd ` set (sent_items m) \<longleftrightarrow> q \<in> set (keys m)"
proof (induction m)
  case (Cons p m)
  then show ?case by (cases p) (auto simp: image_Un image_image image_constant_conv)
qed simp

lemma mark_unsent:
  "mark n q (map (\<lambda>e. (e, None)) es) =
     map (\<lambda>e. (e, Some q)) (take n es) @ map (\<lambda>e. (e, None)) (drop n es)"
proof (induction es arbitrary: n)
  case (Cons e es)
  then show ?case by (cases n) auto
qed simp

lemma bt_insert_last:
  "sorted_wrt (<) (keys m) \<Longrightarrow> \<forall>x \<in> set (keys m). x \<le> k \<Longrightarrow>
     bt_insert k v m = AList.delete k m @ [(k, v)]"
proof (induction m)
  case (Cons p m)
  show ?case
  proof (cases "fst p = k")
    case True
    with Cons.prems have "m = []" by (cases m) force+
    with True show ?thesis by (cases p) simp
  next
    case False
    with Cons show ?thesis by (cases p) auto
  qed
qed simp

lemma marked_sent_items:
  "\<forall>p \<in> set m. events (snd p) \<noteq> [] \<and> sequence (snd p) = fst p \<Longrightarrow> distinct (keys m) \<Longrightarrow>
     marked_batches (sent_items m @ map (\<lambda>e. (e, None)) es) = map snd m"
proof (induction m)
  case Nil
  show ?case by (induction es) auto
next
  case (Cons p m)
  obtain q batch where p: "p = (q, batch)" by (cases p)
  let ?rest = "sent_items m @ map (\<lambda>e. (e, None)) es"
  from Cons.prems p obtain e' es' where e: "events batch = e' # es'" by (cases "events batch") auto
  have none: "\<forall>x \<in> set ?rest. snd x \<noteq> Some q"
    using Cons.prems p by (auto simp: sent_items_def rev_image_eqI)
  then have "takeWhile (\<lambda>x. snd x = Some q) ?rest = []" "dropWhile (\<lambda>x. snd x = Some q) ?rest = ?rest"
    by (cases ?rest; simp)+
  then have "takeWhile (\<lambda>x. snd x = Some q) (map (\<lambda>e. (e, Some q)) es' @ ?rest)
        = map (\<lambda>e. (e, Some q)) es'"
    and "dropWhile (\<lambda>x. snd x = Some q) (map (\<lambda>e. (e, Some q)) es' @ ?rest) = ?rest"
    by (simp_all add: takeWhile_append dropWhile_append)
  moreover have "batch = \<lparr>sequence = q, events = e' # es'\<rparr>" using Cons.prems p e by simp
  ultimately show ?case using Cons p e by (simp add: o_def)
qed

lemma ledger_next_batch:
  assumes "buffer_inv b"
  shows "ledger_step (ledger_of b) NextBatch =
    (ledger_of (fst (fst (next_batch (b, c)))), Batched (snd (next_batch (b, c))))"
proof (cases "queued b = []")
  case True
  then show ?thesis by (simp add: ledger_of_def next_batch_def)
next
  case False
  have "bt_insert (next_sequence b) batch (pending b)
      = AList.delete (next_sequence b) (pending b) @ [(next_sequence b, batch)]" for batch
    using assms by (intro bt_insert_last) (auto simp: buffer_inv_def bt_sorted_def batch_ok_def)
  moreover have "take (min (batch_size b) (length (queued b))) (queued b) = take (batch_size b) (queued b)"
    "drop (min (batch_size b) (length (queued b))) (queued b) = drop (batch_size b) (queued b)"
    by (simp_all add: min_def)
  moreover have "0 < batch_size b" using assms by (simp add: buffer_inv_def)
  ultimately show ?thesis using False
    by (simp add: ledger_of_def next_batch_def Let_def filter_sent_items mark_sent_items mark_unsent
        o_def filter_map)
qed

interpretation ledger: simulation buffer_step "\<lambda>s. buffer_inv (fst s)" "\<lambda>s. ledger_of (fst s)" ledger_step
proof unfold_locales
  fix s :: "'e event_buffer \<times> delivery_counters" and x
  assume inv: "buffer_inv (fst s)"
  obtain b c where s: "s = (b, c)" by (cases s)
  show "ledger_step (ledger_of (fst s)) x = (ledger_of (fst (fst (buffer_step s x))), snd (buffer_step s x))"
  proof (cases x)
    case (Push e)
    then show ?thesis
      by (simp add: s ledger_of_def push_def occupied_def pending_events_def length_sent_items)
  next
    case NextBatch
    then show ?thesis using ledger_next_batch [of b c] inv s by simp
  next
    case (Acknowledge q)
    have "Some q \<in> snd ` set (l_items (ledger_of b)) \<longleftrightarrow> q \<in> set (keys (pending b))"
      using inv s sent_numbers [of "pending b" q]
      by (auto simp: ledger_of_def buffer_inv_def batch_ok_def image_Un image_image)
    then have "Some q \<in> snd ` set (l_items (ledger_of b)) \<longleftrightarrow> map_of (pending b) q \<noteq> None"
      by (simp add: map_of_eq_None_iff)
    moreover have "filter (\<lambda>p. snd p \<noteq> Some q) (l_items (ledger_of b))
        = sent_items (AList.delete q (pending b)) @ map (\<lambda>e. (e, None)) (queued b)"
      by (simp add: ledger_of_def filter_sent_items filter_map o_def)
    ultimately show ?thesis using Acknowledge
      by (cases "map_of (pending b) q") (simp_all add: s acknowledge_def, simp add: ledger_of_def)
  next
    case Replay
    moreover have "marked_batches (l_items (ledger_of b)) = map snd (pending b)"
      using inv s by (simp add: ledger_of_def marked_sent_items buffer_inv_def batch_ok_def
          bt_sorted_distinct)
    ultimately show ?thesis by (simp add: s replay_pending_def Let_def ledger_of_def)
  qed
qed

text \<open>C18: The buffer implements the ledger. For every sequence of operations on a new buffer, of
  any length, the queue, the ordered map of pending batches and the sequence counter return,
  operation by operation, what a single list of events marked with batch numbers returns, and
  the final buffer abstracts to the final ledger.\<close>

theorem buffer_refines_ledger:
  assumes "event_buffer_new cap bsize = Some b0"
  shows "run ledger_step
      \<lparr>l_capacity = cap, l_batch_size = bsize, l_next = 1, l_items = []\<rparr> xs
    = (ledger_of (fst (fst (run buffer_step (b0, c0) xs))), snd (run buffer_step (b0, c0) xs))"
proof -
  have "ledger_of b0 = \<lparr>l_capacity = cap, l_batch_size = bsize, l_next = 1, l_items = []\<rparr>"
    using assms by (auto simp: event_buffer_new_def ledger_of_def split: if_splits)
  moreover have "buffer_inv (fst (b0, c0))" using assms by (simp add: event_buffer_new_inv)
  ultimately show ?thesis using ledger.run_sim [of "(b0, c0)" xs] by simp
qed

theorem buffer_refines_ledger_witness:
  "let xs = [Push 7, Push 8, NextBatch, Push 9, Replay, Acknowledge 1, Acknowledge 1 :: nat buffer_op];
       l = run ledger_step \<lparr>l_capacity = 3, l_batch_size = 2, l_next = 1, l_items = []\<rparr> xs
   in l = (ledger_of (fst (fst (run buffer_step (sample_buffer, zero_counters) xs))),
           snd (run buffer_step (sample_buffer, zero_counters) xs))
      \<and> l_items (fst l) = [(9, None)]
      \<and> drop 4 (snd l) = [Replayed [\<lparr>sequence = 1, events = [7, 8]\<rparr>], Acked True, Acked False]"
proof -
  let ?xs = "[Push 7, Push 8, NextBatch, Push 9, Replay, Acknowledge 1, Acknowledge 1 :: nat buffer_op]"
  let ?l = "run ledger_step \<lparr>l_capacity = 3, l_batch_size = 2, l_next = 1, l_items = []\<rparr> ?xs"
  have two: "mark 2 q xs = mark (Suc (Suc 0)) q xs" for q and xs :: "(nat \<times> u64 option) list"
    by (simp add: numeral_2_eq_2)
  have "l_items (fst ?l) = [(9, None)]
      \<and> drop 4 (snd ?l) = [Replayed [\<lparr>sequence = 1, events = [7, 8]\<rparr>], Acked True, Acked False]"
    by (simp add: run.simps(2) saturating_add_def Let_def two del: run_Cons)
  from conjI [OF buffer_refines_ledger [OF sample_buffer_new, of ?xs zero_counters] this]
  show ?thesis unfolding Let_def .
qed

section \<open>The event rate limiter\<close>

record event_rate_limiter =
  max_events_per_second :: u32
  window_started :: instant
  accepted :: u32

definition nanos_per_sec :: duration where
  "nanos_per_sec = 1000000000"

definition event_rate_limiter_new :: "u32 \<Rightarrow> instant \<Rightarrow> event_rate_limiter option" where
  "event_rate_limiter_new max_rate now =
     (if max_rate > 0
      then Some \<lparr>max_events_per_second = max_rate, window_started = now, accepted = 0\<rparr>
      else None)"

definition allow_at :: "event_rate_limiter \<Rightarrow> instant \<Rightarrow> event_rate_limiter \<times> bool" where
  "allow_at l now =
     (let l' = (if now - window_started l \<ge> nanos_per_sec
                then l\<lparr>window_started := now, accepted := 0\<rparr> else l)
      in if accepted l' \<ge> max_events_per_second l' then (l', False)
         else (l'\<lparr>accepted := accepted l' + 1\<rparr>, True))"

definition allowed :: "bool list \<Rightarrow> nat" where
  "allowed rs = length (filter (\<lambda>r. r) rs)"

lemma allowed_simps [simp]:
  "allowed [] = 0" "allowed (r # rs) = (if r then 1 else 0) + allowed rs"
  by (simp_all add: allowed_def)

definition remaining :: "event_rate_limiter \<Rightarrow> nat" where
  "remaining l = unat (max_events_per_second l) - unat (accepted l)"

lemma allow_at_same_window:
  assumes "now - window_started l < nanos_per_sec"
  shows "window_started (fst (allow_at l now)) = window_started l"
    and "max_events_per_second (fst (allow_at l now)) = max_events_per_second l"
    and "remaining (fst (allow_at l now)) + (if snd (allow_at l now) then 1 else 0) = remaining l"
proof -
  have "accepted l < max_events_per_second l \<Longrightarrow> unat (accepted l + 1) = Suc (unat (accepted l))"
    using unsigned_less [of "max_events_per_second l", where ?'a = nat]
    by (simp add: word_less_nat_alt unat_plus_no_wrap)
  with assms show "remaining (fst (allow_at l now)) + (if snd (allow_at l now) then 1 else 0)
      = remaining l"
    by (auto simp: allow_at_def remaining_def word_less_nat_alt word_le_nat_alt not_le)
qed (use assms in \<open>auto simp: allow_at_def Let_def\<close>)

lemma allow_at_new_window:
  assumes "nanos_per_sec \<le> now - window_started l"
  shows "allow_at l now = allow_at (l\<lparr>window_started := now, accepted := 0\<rparr>) now"
  using assms by (simp add: allow_at_def Let_def nanos_per_sec_def)

lemma allowed_one_window:
  "\<forall>t \<in> set ts. t < window_started l + nanos_per_sec \<Longrightarrow>
     allowed (snd (run allow_at l ts)) \<le> remaining l"
proof (induction ts arbitrary: l)
  case (Cons t ts)
  then have "t - window_started l < nanos_per_sec" by (auto simp: nanos_per_sec_def)
  note step = allow_at_same_window [OF this]
  moreover have "allowed (snd (run allow_at (fst (allow_at l t)) ts)) \<le> remaining (fst (allow_at l t))"
    using Cons.prems step by (intro Cons.IH) auto
  ultimately show ?case by (simp split: if_splits)
qed simp

lemma allowed_one_second:
  "\<forall>t \<in> set ts. t0 \<le> t \<and> t < t0 + nanos_per_sec \<Longrightarrow>
     allowed (snd (run allow_at l ts)) \<le> remaining l + unat (max_events_per_second l)"
proof (induction ts arbitrary: l)
  case (Cons t ts)
  show ?case
  proof (cases "nanos_per_sec \<le> t - window_started l")
    case True
    let ?l = "l\<lparr>window_started := t, accepted := 0\<rparr>"
    have "allowed (snd (run allow_at ?l (t # ts))) \<le> remaining ?l"
      using Cons.prems by (intro allowed_one_window) (auto simp: nanos_per_sec_def)
    then show ?thesis
      by (simp add: allow_at_new_window [OF True] remaining_def del: allowed_simps)
  next
    case False
    then have "t - window_started l < nanos_per_sec" by simp
    note step = allow_at_same_window [OF this]
    moreover have "allowed (snd (run allow_at (fst (allow_at l t)) ts))
        \<le> remaining (fst (allow_at l t)) + unat (max_events_per_second (fst (allow_at l t)))"
      using Cons.prems by (intro Cons.IH) auto
    ultimately show ?thesis by (simp split: if_splits)
  qed
qed simp

text \<open>C20: Rate limiter admission bound. Whatever state the limiter is in and in whatever order
  the calls come, among the calls made within any single second it admits at most twice the
  configured number of events per second, and at most the configured number when they all
  fall into the limiter's current window.\<close>

theorem rate_limiter_bound:
  assumes "\<forall>t \<in> set ts. t0 \<le> t \<and> t < t0 + nanos_per_sec"
  shows "allowed (snd (run allow_at l ts)) \<le> 2 * unat (max_events_per_second l)
    \<and> (window_started l = t0 \<longrightarrow>
         allowed (snd (run allow_at l ts)) \<le> unat (max_events_per_second l))"
proof
  show "allowed (snd (run allow_at l ts)) \<le> 2 * unat (max_events_per_second l)"
    using allowed_one_second [OF assms, of l] by (simp add: remaining_def)
  show "window_started l = t0 \<longrightarrow>
      allowed (snd (run allow_at l ts)) \<le> unat (max_events_per_second l)"
    using allowed_one_window [of ts l] assms by (auto simp: remaining_def)
qed

theorem rate_limiter_bound_witness:
  "let l = \<lparr>max_events_per_second = 2, window_started = 0, accepted = 0\<rparr>;
       ts = [500000000, 600000000, 1100000000, 1200000000, 1300000000]
   in allowed (snd (run allow_at l ts)) = 4
      \<and> allowed (snd (run allow_at l ts)) \<le> 2 * unat (max_events_per_second l)"
proof -
  let ?l = "\<lparr>max_events_per_second = 2, window_started = 0, accepted = 0\<rparr>"
  let ?ts = "[500000000, 600000000, 1100000000, 1200000000, 1300000000] :: nat list"
  have "\<forall>t \<in> set ?ts. 500000000 \<le> t \<and> t < 500000000 + nanos_per_sec"
    by (simp add: nanos_per_sec_def)
  from rate_limiter_bound [OF this, of ?l]
  have "allowed (snd (run allow_at ?l ?ts)) \<le> 2 * unat (max_events_per_second ?l)" by blast
  moreover have "allowed (snd (run allow_at ?l ?ts)) = 4"
    by (simp add: allow_at_def nanos_per_sec_def run.simps(2) word_le_nat_alt del: run_Cons)
  ultimately show ?thesis by simp
qed

end
