(* ===== verification/Event_Base.thy ===== *)
theory Event_Base
  imports Rust_Strings
begin

text \<open>
  The elementary values of the event model (\<open>crates/event-model/src/lib.rs\<close>): file paths,
  network endpoints and connection outcomes, DNS names, answers and contexts. Every checked
  constructor of the source is a function into \<open>result\<close> with the source's error values in the
  source's order.

  The lemmas characterise what each constructor accepts: a file path is a rendering of a list
  of proper components and \<open>is_equal_or_descendant_of\<close> is the prefix order on those lists; a DNS
  name is a list of labels; the outcome and errno of a connection agree.
\<close>

section \<open>Process identity\<close>

record process_identity =
  cgroup_id :: u64
  pid :: u32
  tgid :: u32
  command :: string

section \<open>File paths\<close>

datatype file_activity_error = InvalidPath | PathTooLong | SameRenamePath

definition MAX_FILE_PATH_BYTES :: nat where
  "MAX_FILE_PATH_BYTES = 1024"

definition FILE_MODIFY_AGGREGATION_WINDOW :: duration where
  "FILE_MODIFY_AGGREGATION_WINDOW = 5 * 1000000000"

datatype file_activity_path = FileActivityPath (path_str: string)

definition is_normalized_absolute_path :: "string \<Rightarrow> bool" where
  "is_normalized_absolute_path value =
     (if value = [] \<or> CHR 0x00 \<in> set value \<or> \<not> starts_with value ''/'' then False
      else if value \<noteq> ''/''
              \<and> (\<exists>c \<in> set (tl (split_on (CHR ''/'') value)). c = [] \<or> c = ''.'' \<or> c = ''..'')
           then False
      else (case path_components value of
              RootDir # rest \<Rightarrow>
                (if (\<exists>c \<in> set rest. \<not> (case c of Normal _ \<Rightarrow> True | _ \<Rightarrow> False)) then False
                 else value = ''/'' \<or> \<not> ends_with value ''/'')
            | _ \<Rightarrow> False))"

definition file_activity_path_new :: "string \<Rightarrow> (file_activity_path, file_activity_error) result" where
  "file_activity_path_new value =
     (if length value > MAX_FILE_PATH_BYTES then Err PathTooLong
      else if \<not> is_normalized_absolute_path value then Err InvalidPath
      else Ok (FileActivityPath value))"

definition is_equal_or_descendant_of :: "file_activity_path \<Rightarrow> file_activity_path \<Rightarrow> bool" where
  "is_equal_or_descendant_of p q \<longleftrightarrow>
     p = q
     \<or> (case strip_prefix (path_str p) (path_str q) of
          None \<Rightarrow> False
        | Some suf \<Rightarrow> path_str q = ''/'' \<or> starts_with suf ''/'')"

record file_rename =
  old_path :: file_activity_path
  new_path :: file_activity_path
  replaced :: "bool option"

definition file_rename_new ::
    "file_activity_path \<Rightarrow> file_activity_path \<Rightarrow> bool option \<Rightarrow> (file_rename, file_activity_error) result" where
  "file_rename_new old new r =
     (if old = new then Err SameRenamePath
      else Ok \<lparr>old_path = old, new_path = new, replaced = r\<rparr>)"

text \<open>The reference: a path is the list of its components.\<close>

definition proper_component :: "string \<Rightarrow> bool" where
  "proper_component c \<longleftrightarrow> c \<noteq> [] \<and> c \<noteq> ''.'' \<and> c \<noteq> ''..'' \<and> CHR ''/'' \<notin> set c \<and> CHR 0x00 \<notin> set c"

definition render :: "string list \<Rightarrow> string" where
  "render cs = (if cs = [] then ''/'' else concat (map (\<lambda>c. CHR ''/'' # c) cs))"

definition components :: "string \<Rightarrow> string list" where
  "components s = (if s = ''/'' then [] else tl (split_on (CHR ''/'') s))"

lemma concat_render: "cs \<noteq> [] \<Longrightarrow> concat (map (\<lambda>c. sep # c) cs) = sep # join_with sep cs"
  by (induction sep cs rule: join_with.induct) auto

lemma render_split: "cs \<noteq> [] \<Longrightarrow> \<forall>c \<in> set cs. CHR ''/'' \<notin> set c \<Longrightarrow>
    split_on (CHR ''/'') (render cs) = [] # cs"
  by (simp add: render_def concat_render split_join)

lemma render_not_root: "cs \<noteq> [] \<Longrightarrow> \<forall>c \<in> set cs. proper_component c \<Longrightarrow> render cs \<noteq> ''/''"
  by (cases cs) (auto simp: render_def proper_component_def)

lemma components_render:
  assumes "\<forall>c \<in> set cs. proper_component c"
  shows "components (render cs) = cs"
proof (cases "cs = []")
  case True
  then show ?thesis by (simp add: components_def render_def)
next
  case False
  with assms show ?thesis
    by (simp add: components_def render_not_root render_split proper_component_def)
qed

lemma normal_components:
  assumes "\<forall>c \<in> set cs. c \<noteq> [] \<and> c \<noteq> ''.'' \<and> c \<noteq> ''..''"
  shows "concat (map (part_component False) cs) = map Normal cs"
  using assms by (induction cs) (auto simp: part_component_def)

lemma normalized_split:
  assumes "is_normalized_absolute_path s" and "s \<noteq> ''/''"
  shows "components s \<noteq> []" and "\<forall>c \<in> set (components s). proper_component c"
    and "render (components s) = s"
proof -
  let ?p = "tl (split_on (CHR ''/'') s)"
  from assms have s: "starts_with s ''/''" "CHR 0x00 \<notin> set s"
    and ne: "\<forall>c \<in> set ?p. c \<noteq> [] \<and> c \<noteq> ''.'' \<and> c \<noteq> ''..''"
    by (auto simp: is_normalized_absolute_path_def split: if_splits)
  from s(1) obtain t where t: "s = CHR ''/'' # t" by (auto simp: starts_with_def prefix_def)
  have p: "components s = split_on (CHR ''/'') t" using t assms(2) by (simp add: components_def)
  then show "components s \<noteq> []" by simp
  show "\<forall>c \<in> set (components s). proper_component c"
  proof
    fix c assume c: "c \<in> set (components s)"
    with p have "CHR ''/'' \<notin> set c" "set c \<subseteq> set t" by (auto dest: split_on_sep set_split)
    moreover have "c \<in> set ?p" using c assms(2) by (simp add: components_def)
    ultimately show "proper_component c" using ne s(2) t by (auto simp: proper_component_def)
  qed
  show "render (components s) = s" using t p by (simp add: render_def concat_render)
qed

lemma last_render: "cs \<noteq> [] \<Longrightarrow> \<forall>c \<in> set cs. proper_component c \<Longrightarrow> last (render cs) \<noteq> CHR ''/''"
proof (induction cs rule: rev_induct)
  case (snoc c cs)
  then have "c \<noteq> []" "CHR ''/'' \<notin> set c" by (auto simp: proper_component_def)
  then have "c \<noteq> []" "last c \<noteq> CHR ''/''" using last_in_set [of c] by metis+
  then show ?case by (simp add: render_def)
qed simp

lemma render_normalized:
  assumes "\<forall>c \<in> set cs. proper_component c"
  shows "is_normalized_absolute_path (render cs)"
proof (cases "cs = []")
  case True
  then show ?thesis
    by (simp add: render_def is_normalized_absolute_path_def starts_with_def path_components_def
        part_component_def)
next
  case False
  with assms have sp: "split_on (CHR ''/'') (render cs) = [] # cs"
    by (simp add: render_split proper_component_def)
  have st: "starts_with (render cs) ''/''" "render cs \<noteq> []"
    using False by (cases cs; simp add: render_def starts_with_def)+
  have nul: "CHR 0x00 \<notin> set (render cs)"
    using assms by (auto simp: render_def proper_component_def)
  have "\<not> ends_with (render cs) ''/''"
    using last_render [OF False assms] st(2) by (auto simp: ends_with_def suffix_def)
  moreover have "path_components (render cs) = RootDir # map Normal cs"
    using st sp assms by (simp add: path_components_def normal_components proper_component_def)
  ultimately show ?thesis
    using st nul sp assms by (auto simp: is_normalized_absolute_path_def proper_component_def)
qed

lemma is_normalized_iff:
  "is_normalized_absolute_path s \<longleftrightarrow> (\<exists>cs. (\<forall>c \<in> set cs. proper_component c) \<and> s = render cs)"
proof
  assume n: "is_normalized_absolute_path s"
  show "\<exists>cs. (\<forall>c \<in> set cs. proper_component c) \<and> s = render cs"
  proof (cases "s = ''/''")
    case True
    then show ?thesis by (intro exI [of _ "[]"]) (simp add: render_def)
  next
    case False
    from normalized_split [OF n False] show ?thesis by (intro exI [of _ "components s"]) auto
  qed
qed (auto intro: render_normalized)

lemma render_append: "bs \<noteq> [] \<Longrightarrow> render (bs @ cs) = render bs @ concat (map (\<lambda>c. CHR ''/'' # c) cs)"
  by (simp add: render_def)

lemma render_inj:
  "\<forall>c \<in> set as \<union> set bs. proper_component c \<Longrightarrow> render as = render bs \<longleftrightarrow> as = bs"
  by (metis Un_iff components_render)

text \<open>A proper prefix of rendered components that stops before a separator is a component prefix.\<close>

lemma render_prefix_slash:
  assumes "\<forall>c \<in> set as. CHR ''/'' \<notin> set c" and "\<forall>c \<in> set bs. CHR ''/'' \<notin> set c"
    and "concat (map (\<lambda>c. CHR ''/'' # c) as) @ CHR ''/'' # t = concat (map (\<lambda>c. CHR ''/'' # c) bs)"
  shows "prefix as bs"
  using assms
proof (induction as arbitrary: bs)
  case (Cons a as)
  then obtain b bs' where bs: "bs = b # bs'" by (cases bs) auto
  let ?r = "\<lambda>cs. concat (map (\<lambda>c. CHR ''/'' # c) cs)"
  have eq: "a @ ?r as @ CHR ''/'' # t = b @ ?r bs'" using Cons.prems(3) bs by simp
  have na: "CHR ''/'' \<notin> set a" "CHR ''/'' \<notin> set b" using Cons.prems bs by auto
  obtain u where u: "?r as @ CHR ''/'' # t = CHR ''/'' # u" by (cases as) auto
  obtain v where v: "?r bs' = [] \<or> ?r bs' = CHR ''/'' # v" by (cases bs') auto
  have "?r bs' \<noteq> []" using eq u na by (metis append.right_neutral in_set_conv_decomp)
  with v eq u have "a @ CHR ''/'' # u = b @ CHR ''/'' # v" by auto
  with na have "a = b" using split_on_append [OF na(1), of u] split_on_append [OF na(2), of v] by simp
  with eq bs Cons show ?case by simp
qed simp

lemma descendant_iff:
  assumes a: "\<forall>c \<in> set as. proper_component c" and b: "\<forall>c \<in> set bs. proper_component c"
  shows "is_equal_or_descendant_of (FileActivityPath (render as)) (FileActivityPath (render bs))
    \<longleftrightarrow> prefix bs as"
proof (cases "bs = []")
  case True
  have "prefix ''/'' (render as)" by (cases as) (auto simp: render_def)
  with True show ?thesis by (simp add: is_equal_or_descendant_of_def strip_prefix_def render_def)
next
  case False
  have "prefix bs as" if "render as = render bs @ CHR ''/'' # t" for t
  proof (rule render_prefix_slash)
    show "\<forall>c \<in> set bs. CHR ''/'' \<notin> set c" "\<forall>c \<in> set as. CHR ''/'' \<notin> set c"
      using a b by (auto simp: proper_component_def)
    have "as \<noteq> []" using that False by (auto simp: render_def) (cases bs, auto)
    with that False show "concat (map (\<lambda>c. CHR ''/'' # c) bs) @ CHR ''/'' # t
        = concat (map (\<lambda>c. CHR ''/'' # c) as)" by (simp add: render_def)
  qed
  then have fwd: "prefix bs as" if "strip_prefix (render as) (render bs) = Some s" "starts_with s ''/''" for s
    using that by (auto simp: strip_prefix_def starts_with_def prefix_def split: if_splits)
  have "starts_with (drop (length (render bs)) (render as)) ''/'' \<and> prefix (render bs) (render as)"
    if "prefix bs as" "as \<noteq> bs"
  proof -
    from that obtain ds where "as = bs @ ds" "ds \<noteq> []" by (auto simp: prefix_def)
    then obtain c cs where "as = bs @ c # cs" by (cases ds) auto
    with False show ?thesis by (simp add: render_append starts_with_def)
  qed
  moreover have inj: "render as = render bs \<longleftrightarrow> as = bs" using a b by (intro render_inj) auto
  have "is_equal_or_descendant_of (FileActivityPath (render as)) (FileActivityPath (render bs))
      \<longleftrightarrow> as = bs \<or> (prefix (render bs) (render as)
        \<and> starts_with (drop (length (render bs)) (render as)) ''/'')"
    using inj render_not_root [OF False b]
    by (auto simp: is_equal_or_descendant_of_def strip_prefix_def)
  ultimately show ?thesis
    using fwd by (metis prefix_order.order_refl strip_prefix_def)
qed

lemma file_path_new_render:
  "\<forall>c \<in> set cs. proper_component c \<Longrightarrow> length (render cs) \<le> 1024 \<Longrightarrow>
     file_activity_path_new (render cs) = Ok (FileActivityPath (render cs))"
  by (simp add: file_activity_path_new_def MAX_FILE_PATH_BYTES_def render_normalized)

text \<open>Accepted file paths. \<open>FileActivityPath::new\<close> accepts a text exactly when it has at
  most 1024 bytes and is the rendering \<open>/c1/c2/.../cn\<close> of a list of components none of which is
  empty, \<open>.\<close>, \<open>..\<close> or contains a slash or a NUL byte (the empty list rendering the root); the
  length is checked first.\<close>

theorem file_path_accepts_renderings:
  "file_activity_path_new s =
     (if length s > 1024 then Err PathTooLong
      else if \<exists>cs. list_all proper_component cs \<and> s = render cs
           then Ok (FileActivityPath s) else Err InvalidPath)"
  unfolding file_activity_path_new_def MAX_FILE_PATH_BYTES_def is_normalized_iff list_all_iff
  by (rule if_cong) auto

text \<open>Path containment is component-wise. On accepted paths \<open>is_equal_or_descendant_of\<close>, which
  compares text, decides whether the components of the second path are a prefix of the
  components of the first: \<open>/app/database\<close> is not below \<open>/app/data\<close>.\<close>

theorem path_containment_is_component_prefix:
  assumes "file_activity_path_new s = Ok p" and "file_activity_path_new t = Ok q"
  shows "is_equal_or_descendant_of p q \<longleftrightarrow> prefix (components t) (components s)"
proof -
  from assms obtain cs ds where "\<forall>c \<in> set cs. proper_component c" "s = render cs"
    and "\<forall>c \<in> set ds. proper_component c" "t = render ds"
    and "p = FileActivityPath s" "q = FileActivityPath t"
    by (auto simp: file_activity_path_new_def is_normalized_iff split: if_splits)
  then show ?thesis by (simp add: descendant_iff components_render)
qed

theorem path_containment_is_component_prefix_witness:
  "is_equal_or_descendant_of (FileActivityPath ''/app/data/x'') (FileActivityPath ''/app/data'')
     \<longleftrightarrow> prefix (components ''/app/data'') (components ''/app/data/x'')"
proof (rule path_containment_is_component_prefix)
  show "file_activity_path_new ''/app/data/x'' = Ok (FileActivityPath ''/app/data/x'')"
    using file_path_new_render [of "[''app'', ''data'', ''x'']"]
    by (simp add: render_def proper_component_def)
  show "file_activity_path_new ''/app/data'' = Ok (FileActivityPath ''/app/data'')"
    using file_path_new_render [of "[''app'', ''data'']"]
    by (simp add: render_def proper_component_def)
qed

section \<open>Network endpoints\<close>

datatype ip_addr = V4 "32 word" | V6 "128 word"

datatype network_transport = TransportTcp

datatype network_address_family = Ipv4 | Ipv6

datatype network_connect_outcome = Succeeded | InProgress | Failed

record network_listen =
  listen_transport :: network_transport
  listen_family :: network_address_family
  listen_address :: ip_addr
  listen_port :: u16

record network_accept =
  accept_transport :: network_transport
  accept_family :: network_address_family
  accept_local_address :: ip_addr
  accept_local_port :: u16
  accept_remote_address :: ip_addr
  accept_remote_port :: u16

datatype inbound_network_error = ZeroLocalPort | ZeroRemotePort | InboundFamilyMismatch

fun family_matches :: "network_address_family \<Rightarrow> ip_addr \<Rightarrow> bool" where
  "family_matches Ipv4 (V4 _) = True"
| "family_matches Ipv6 (V6 _) = True"
| "family_matches _ _ = False"

definition validate_endpoint ::
    "network_address_family \<Rightarrow> ip_addr \<Rightarrow> u16 \<Rightarrow> bool \<Rightarrow> (unit, inbound_network_error) result" where
  "validate_endpoint family address port local =
     (if port = 0 then Err (if local then ZeroLocalPort else ZeroRemotePort)
      else if \<not> family_matches family address then Err InboundFamilyMismatch
      else Ok ())"

definition network_listen_new ::
    "network_address_family \<Rightarrow> ip_addr \<Rightarrow> u16 \<Rightarrow> (network_listen, inbound_network_error) result" where
  "network_listen_new family address port =
     res_bind (validate_endpoint family address port True) (\<lambda>_.
       Ok \<lparr>listen_transport = TransportTcp, listen_family = family,
           listen_address = address, listen_port = port\<rparr>)"

definition network_accept_new ::
    "network_address_family \<Rightarrow> ip_addr \<Rightarrow> u16 \<Rightarrow> ip_addr \<Rightarrow> u16 \<Rightarrow>
       (network_accept, inbound_network_error) result" where
  "network_accept_new family local_address local_port remote_address remote_port =
     res_bind (validate_endpoint family local_address local_port True) (\<lambda>_.
     res_bind (validate_endpoint family remote_address remote_port False) (\<lambda>_.
       Ok \<lparr>accept_transport = TransportTcp, accept_family = family,
           accept_local_address = local_address, accept_local_port = local_port,
           accept_remote_address = remote_address, accept_remote_port = remote_port\<rparr>))"

definition LINUX_EINPROGRESS :: u16 where
  "LINUX_EINPROGRESS = 115"

definition MAX_LINUX_ERRNO :: u16 where
  "MAX_LINUX_ERRNO = 4095"

datatype network_connect_error =
  ZeroDestinationPort | AddressFamilyMismatch | InconsistentOutcome | InvalidErrno

section \<open>DNS names and answers\<close>

definition MAX_DNS_NAME_LEN :: nat where "MAX_DNS_NAME_LEN = 253"
definition MAX_DNS_CONTEXT_NAMES :: nat where "MAX_DNS_CONTEXT_NAMES = 8"
definition MAX_DNS_ANSWERS :: nat where "MAX_DNS_ANSWERS = 16"
definition MAX_DNS_CNAME_CHAIN :: nat where "MAX_DNS_CNAME_CHAIN = 8"
definition MAX_DNS_TTL_SECONDS :: u32 where "MAX_DNS_TTL_SECONDS = 86400"

datatype dns_name = DnsName (dns_str: string)

datatype dns_validation_error = InvalidName | TooManyValues | InvalidTtl | InvalidContext

definition valid_label :: "string \<Rightarrow> bool" where
  "valid_label label \<longleftrightarrow>
     label \<noteq> [] \<and> length label \<le> 63
     \<and> (\<forall>b \<in> set label. is_ascii_alphanumeric b \<or> b = CHR ''-'')
     \<and> \<not> starts_with label ''-'' \<and> \<not> ends_with label ''-''"

definition dns_name_new :: "string \<Rightarrow> (dns_name, dns_validation_error) result" where
  "dns_name_new value =
     (if value = [] \<or> length value > MAX_DNS_NAME_LEN \<or> ends_with value ''.'' then Err InvalidName
      else if \<exists>b \<in> set value. is_ascii_uppercase b \<or> \<not> is_ascii b then Err InvalidName
      else if \<forall>label \<in> set (split_on (CHR ''.'') value). valid_label label
           then Ok (DnsName value) else Err InvalidName)"

datatype dns_query_type = A | Aaaa
datatype dns_transport = Udp | Tcp
datatype dns_direction = Egress | Ingress
datatype dns_response_code = NoError | FormErr | ServFail | NxDomain | NotImp | Refused
datatype dns_confidence = ObservedRecently

record dns_address_answer =
  ans_name :: dns_name
  ans_address :: ip_addr
  ans_ttl :: u32

record dns_cname =
  cn_alias :: dns_name
  cn_canonical :: dns_name
  cn_ttl :: u32

record network_dns_query =
  q_transaction_id :: u16
  q_direction :: dns_direction
  q_transport :: dns_transport
  q_resolver :: ip_addr
  q_name :: dns_name
  q_type :: dns_query_type

record network_dns_response =
  r_transaction_id :: u16
  r_direction :: dns_direction
  r_transport :: dns_transport
  r_resolver :: ip_addr
  r_name :: dns_name
  r_type :: dns_query_type
  r_code :: dns_response_code
  r_truncated :: bool
  r_answers :: "dns_address_answer list"
  r_cname_chain :: "dns_cname list"
  r_effective_ttl :: "u32 option"

record dns_context =
  ctx_names :: "dns_name list"
  ctx_observed_at :: datetime
  ctx_expires_at :: datetime
  ctx_confidence :: dns_confidence
  ctx_ambiguous :: bool

record network_connect =
  address_family :: network_address_family
  destination_address :: ip_addr
  destination_port :: u16
  outcome :: network_connect_outcome
  errno :: "u16 option"
  dns_context_of :: "dns_context option"

definition network_connect_new ::
    "network_address_family \<Rightarrow> ip_addr \<Rightarrow> u16 \<Rightarrow> network_connect_outcome \<Rightarrow> u16 option \<Rightarrow>
       (network_connect, network_connect_error) result" where
  "network_connect_new family address port oc en =
     (if port = 0 then Err ZeroDestinationPort
      else if \<not> family_matches family address then Err AddressFamilyMismatch
      else if (case en of None \<Rightarrow> False | Some v \<Rightarrow> v = 0 \<or> v > MAX_LINUX_ERRNO) then Err InvalidErrno
      else if \<not> ((case (oc, en) of
                    (Succeeded, None) \<Rightarrow> True
                  | (InProgress, Some v) \<Rightarrow> v = LINUX_EINPROGRESS
                  | (Failed, Some v) \<Rightarrow> 1 \<le> v \<and> v \<le> MAX_LINUX_ERRNO
                  | _ \<Rightarrow> False)
                 \<and> \<not> (oc = Failed \<and> en = Some LINUX_EINPROGRESS))
           then Err InconsistentOutcome
      else Ok \<lparr>address_family = family, destination_address = address, destination_port = port,
               outcome = oc, errno = en, dns_context_of = None\<rparr>)"

definition with_dns_context :: "network_connect \<Rightarrow> dns_context \<Rightarrow> network_connect" where
  "with_dns_context c context = c\<lparr>dns_context_of := Some context\<rparr>"

definition validate_ttl :: "u32 \<Rightarrow> (unit, dns_validation_error) result" where
  "validate_ttl ttl = require (1 \<le> ttl \<and> ttl \<le> MAX_DNS_TTL_SECONDS) InvalidTtl"

definition dns_address_answer_new ::
    "dns_name \<Rightarrow> ip_addr \<Rightarrow> u32 \<Rightarrow> (dns_address_answer, dns_validation_error) result" where
  "dns_address_answer_new name address ttl =
     res_bind (validate_ttl ttl) (\<lambda>_.
       Ok \<lparr>ans_name = name, ans_address = address, ans_ttl = ttl\<rparr>)"

definition dns_cname_new ::
    "dns_name \<Rightarrow> dns_name \<Rightarrow> u32 \<Rightarrow> (dns_cname, dns_validation_error) result" where
  "dns_cname_new alias canonical ttl =
     res_bind (validate_ttl ttl) (\<lambda>_.
       Ok \<lparr>cn_alias = alias, cn_canonical = canonical, cn_ttl = ttl\<rparr>)"

fun validate_ttls :: "u32 list \<Rightarrow> (unit, dns_validation_error) result" where
  "validate_ttls [] = Ok ()"
| "validate_ttls (t # ts) = res_bind (validate_ttl t) (\<lambda>_. validate_ttls ts)"

definition validate_response :: "network_dns_response \<Rightarrow> (unit, dns_validation_error) result" where
  "validate_response r =
     (if length (r_answers r) > MAX_DNS_ANSWERS \<or> length (r_cname_chain r) > MAX_DNS_CNAME_CHAIN
      then Err TooManyValues
      else
        res_bind (validate_ttls (map ans_ttl (r_answers r))) (\<lambda>_.
        res_bind (validate_ttls (map cn_ttl (r_cname_chain r))) (\<lambda>_.
        (case r_effective_ttl r of None \<Rightarrow> Ok () | Some ttl \<Rightarrow> validate_ttl ttl))))"

definition dns_context_new ::
    "dns_name list \<Rightarrow> datetime \<Rightarrow> datetime \<Rightarrow> (dns_context, dns_validation_error) result" where
  "dns_context_new names observed_at expires_at =
     (if names = [] \<or> length names > MAX_DNS_CONTEXT_NAMES \<or> expires_at \<le> observed_at
      then Err InvalidContext
      else Ok \<lparr>ctx_names = names, ctx_observed_at = observed_at, ctx_expires_at = expires_at,
               ctx_confidence = ObservedRecently, ctx_ambiguous = (length names > 1)\<rparr>)"

definition validate_context :: "dns_context \<Rightarrow> (unit, dns_validation_error) result" where
  "validate_context c =
     (if ctx_names c = [] \<or> length (ctx_names c) > MAX_DNS_CONTEXT_NAMES
         \<or> ctx_expires_at c \<le> ctx_observed_at c
         \<or> ctx_ambiguous c \<noteq> (length (ctx_names c) > 1)
         \<or> ctx_confidence c \<noteq> ObservedRecently
      then Err InvalidContext else Ok ())"

section \<open>What the constructors accept\<close>

definition canonical_label :: "string \<Rightarrow> bool" where
  "canonical_label l \<longleftrightarrow>
     1 \<le> length l \<and> length l \<le> 63 \<and> hd l \<noteq> CHR ''-'' \<and> last l \<noteq> CHR ''-''
     \<and> (\<forall>b \<in> set l. is_ascii_lowercase b \<or> is_ascii_digit b \<or> b = CHR ''-'')"

lemma label_bytes:
  "is_ascii_lowercase b \<or> is_ascii_digit b \<or> b = CHR ''-'' \<longleftrightarrow>
     (is_ascii_alphanumeric b \<or> b = CHR ''-'') \<and> \<not> is_ascii_uppercase b \<and> is_ascii b"
  by (auto simp: is_ascii_lowercase_def is_ascii_digit_def is_ascii_alphanumeric_def
      is_ascii_uppercase_def is_ascii_def byte_def)

lemma canonical_label_iff:
  "canonical_label l \<longleftrightarrow>
     valid_label l \<and> (\<forall>b \<in> set l. \<not> is_ascii_uppercase b \<and> is_ascii b)"
proof -
  have "starts_with l ''-'' \<longleftrightarrow> l \<noteq> [] \<and> hd l = CHR ''-''"
    by (cases l) (auto simp: starts_with_def)
  moreover have "ends_with l ''-'' \<longleftrightarrow> l \<noteq> [] \<and> last l = CHR ''-''"
    by (cases l rule: rev_cases) (auto simp: ends_with_def)
  ultimately show ?thesis
    unfolding canonical_label_def valid_label_def label_bytes
    by (cases l) auto
qed

lemma join_with_ends:
  "xs \<noteq> [] \<Longrightarrow> \<forall>x \<in> set xs. x \<noteq> [] \<Longrightarrow> join_with c xs \<noteq> [] \<and> last (join_with c xs) = last (last xs)"
  by (induction c xs rule: join_with.induct) auto

lemma set_join_dot:
  "xs \<noteq> [] \<Longrightarrow> (\<forall>b \<in> set (join_with c xs). P b) \<Longrightarrow> x \<in> set xs \<Longrightarrow> b \<in> set x \<Longrightarrow> P b"
  by (induction c xs rule: join_with.induct) auto

lemma dot_not_label: "canonical_label l \<Longrightarrow> CHR ''.'' \<notin> set l"
  by (auto simp: canonical_label_def is_ascii_lowercase_def is_ascii_digit_def byte_def)

lemma dot_ascii: "is_ascii (CHR ''.'') \<and> \<not> is_ascii_uppercase (CHR ''.'')"
  by (simp add: is_ascii_def is_ascii_uppercase_def byte_def)

lemma ends_with_char: "ends_with s [c] \<longleftrightarrow> s \<noteq> [] \<and> last s = c"
  by (cases s rule: rev_cases) (auto simp: ends_with_def)

lemma dns_name_newI:
  assumes ls: "ls \<noteq> []" "\<forall>l \<in> set ls. canonical_label l" and len: "length (join_with (CHR ''.'') ls) \<le> 253"
  shows "dns_name_new (join_with (CHR ''.'') ls) = Ok (DnsName (join_with (CHR ''.'') ls))"
proof -
  let ?s = "join_with (CHR ''.'') ls"
  have ne: "\<forall>l \<in> set ls. l \<noteq> []" using ls(2) by (auto simp: canonical_label_def)
  have split: "split_on (CHR ''.'') ?s = ls"
    using ls by (intro split_join) (auto simp: dot_not_label)
  have s: "?s \<noteq> []" "last ?s = last (last ls)" using join_with_ends [OF ls(1) ne] by auto
  have "last (last ls) \<in> set (last ls)" using ls(1) ne by simp
  then have "\<not> ends_with ?s ''.''"
    using s dot_not_label [of "last ls"] ls by (auto simp: ends_with_char)
  moreover have "\<forall>b \<in> set ?s. \<not> is_ascii_uppercase b \<and> is_ascii b"
    using ls(2) set_join [of "CHR ''.''" ls] dot_ascii
    by (auto simp: canonical_label_iff)
  ultimately show ?thesis
    using s(1) split ls(2) len
    by (auto simp: dns_name_new_def MAX_DNS_NAME_LEN_def canonical_label_iff)
qed

lemma dns_name_newD:
  assumes "dns_name_new s = Ok n"
  shows "n = DnsName s" and "length s \<le> 253"
    and "\<forall>l \<in> set (split_on (CHR ''.'') s). canonical_label l"
  using assms by (auto simp: dns_name_new_def MAX_DNS_NAME_LEN_def canonical_label_iff
      dest: set_split split: if_splits)

text \<open>Accepted DNS names. \<open>DnsName::new\<close> accepts a text exactly when it has at most 253 bytes
  and is a non-empty dot-separated list of labels of 1 to 63 lower-case letters, digits and
  hyphens that neither start nor end with a hyphen; it then keeps the text unchanged.\<close>

theorem dns_name_accepts_labels:
  "dns_name_new s =
     (if length s \<le> 253 \<and> (\<exists>ls. ls \<noteq> [] \<and> list_all canonical_label ls \<and> s = join_with (CHR ''.'') ls)
      then Ok (DnsName s) else Err InvalidName)"
proof (cases "dns_name_new s")
  case (Ok n)
  note n = dns_name_newD [OF Ok]
  have "split_on (CHR ''.'') s \<noteq> [] \<and> s = join_with (CHR ''.'') (split_on (CHR ''.'') s)" by simp
  with n(2,3) have "length s \<le> 253 \<and>
      (\<exists>ls. ls \<noteq> [] \<and> (\<forall>l \<in> set ls. canonical_label l) \<and> s = join_with (CHR ''.'') ls)" by blast
  with Ok n(1) show ?thesis by (simp add: list_all_iff)
next
  case (Err e)
  then have "e = InvalidName" by (auto simp: dns_name_new_def split: if_splits)
  moreover have "\<not> (length s \<le> 253 \<and>
      (\<exists>ls. ls \<noteq> [] \<and> (\<forall>l \<in> set ls. canonical_label l) \<and> s = join_with (CHR ''.'') ls))"
    using Err by (metis dns_name_newI result.distinct(1))
  ultimately show ?thesis using Err by (simp add: list_all_iff)
qed

text \<open>Accepted connection outcomes. \<open>NetworkConnect::new\<close> accepts an attempt exactly when the
  port is not zero, the address is of the stated family, and the outcome agrees with the error
  number: success has none, an attempt in progress has \<open>EINPROGRESS\<close>, a failure has an error
  number between 1 and 4095 other than \<open>EINPROGRESS\<close>. The value keeps its arguments.\<close>

theorem network_connect_accepts:
  "(\<exists>c. network_connect_new family address port oc en = Ok c) \<longleftrightarrow>
     port \<noteq> 0 \<and> (case address of V4 _ \<Rightarrow> family = Ipv4 | V6 _ \<Rightarrow> family = Ipv6)
     \<and> (case oc of Succeeded \<Rightarrow> en = None
        | InProgress \<Rightarrow> en = Some 115
        | Failed \<Rightarrow> (\<exists>v. en = Some v \<and> 1 \<le> v \<and> v \<le> 4095 \<and> v \<noteq> 115))"
proof -
  have family: "family_matches family address \<longleftrightarrow>
      (case address of V4 _ \<Rightarrow> family = Ipv4 | V6 _ \<Rightarrow> family = Ipv6)"
    by (cases family; cases address) auto
  show ?thesis
    unfolding network_connect_new_def MAX_LINUX_ERRNO_def LINUX_EINPROGRESS_def family
    by (cases oc; cases en) (auto simp: not_less)
qed

lemma validate_ttl_Ok: "validate_ttl t = Ok u \<longleftrightarrow> 1 \<le> t \<and> t \<le> MAX_DNS_TTL_SECONDS"
  by (simp add: validate_ttl_def result_laws)

lemma validate_ttls_Ok:
  "validate_ttls ts = Ok u \<longleftrightarrow> (\<forall>t \<in> set ts. 1 \<le> t \<and> t \<le> MAX_DNS_TTL_SECONDS)"
  by (induction ts) (auto simp: result_laws validate_ttl_Ok)

lemma dns_context_new_valid: "dns_context_new ns obs ex = Ok c \<Longrightarrow> validate_context c = Ok ()"
  by (auto simp: dns_context_new_def validate_context_def split: if_splits)

end
