(* ===== verification/Dns_Message.thy ===== *)
theory Dns_Message
  imports Event_Base
begin

unbundle bit_operations_syntax

text \<open>
  The DNS wire parser of the agent (\<open>crates/agent/src/dns.rs\<close>). A packet is a list of bytes.
  \<open>decode_name\<close> follows length-prefixed labels and compression pointers for at most sixteen
  iterations, \<open>parse_message\<close> reads the header, the single question and the answer records.

  The source indexes the packet directly (\<open>bytes[data_offset]\<close>) after checking its bounds; the
  model gives such an access the extra error value \<open>IndexPanic\<close> when it is out of range, and the
  theorems show that no packet produces it. They also show that what is parsed satisfies the
  event model's bounds, and that packets built by a reference encoder parse to what was encoded.
\<close>

datatype dns_parse_error = Bounds | Compression | Unsupported | Name | Limit | IndexPanic

definition DNS_HEADER_LEN :: nat where "DNS_HEADER_LEN = 12"
definition MAX_POINTER_HOPS :: nat where "MAX_POINTER_HOPS = 16"
definition CLASS_IN :: u16 where "CLASS_IN = 1"
definition TYPE_A :: u16 where "TYPE_A = 1"
definition TYPE_CNAME :: u16 where "TYPE_CNAME = 5"
definition TYPE_AAAA :: u16 where "TYPE_AAAA = 28"

lemmas dns_consts = DNS_HEADER_LEN_def MAX_POINTER_HOPS_def CLASS_IN_def TYPE_A_def
  TYPE_CNAME_def TYPE_AAAA_def

record parsed_dns_message =
  pm_transaction_id :: u16
  pm_is_response :: bool
  pm_truncated :: bool
  pm_name :: dns_name
  pm_query_type :: dns_query_type
  pm_response_code :: dns_response_code
  pm_answers :: "dns_address_answer list"
  pm_cname_chain :: "dns_cname list"
  pm_effective_ttl :: "u32 option"

section \<open>Reading the packet\<close>

definition get_range :: "u8 list \<Rightarrow> nat \<Rightarrow> nat \<Rightarrow> u8 list option" where
  "get_range bytes i j = (if i \<le> j \<and> j \<le> length bytes then Some (take (j - i) (drop i bytes)) else None)"

definition index :: "u8 list \<Rightarrow> nat \<Rightarrow> (u8, dns_parse_error) result" where
  "index bytes i = (if i < length bytes then Ok (bytes ! i) else Err IndexPanic)"

definition read_u16 :: "u8 list \<Rightarrow> nat \<Rightarrow> (u16, dns_parse_error) result" where
  "read_u16 bytes offset =
     res_bind (ok_or Bounds (get_range bytes offset (offset + 2))) (\<lambda>bs. Ok (from_be_bytes bs))"

definition read_u32 :: "u8 list \<Rightarrow> nat \<Rightarrow> (u32, dns_parse_error) result" where
  "read_u32 bytes offset =
     res_bind (ok_or Bounds (get_range bytes offset (offset + 4))) (\<lambda>bs. Ok (from_be_bytes bs))"

definition query_type :: "u16 \<Rightarrow> (dns_query_type, dns_parse_error) result" where
  "query_type value =
     (if value = TYPE_A then Ok A else if value = TYPE_AAAA then Ok Aaaa else Err Unsupported)"

definition response_code :: "u8 \<Rightarrow> (dns_response_code, dns_parse_error) result" where
  "response_code value =
     (if value = 0 then Ok NoError else if value = 1 then Ok FormErr
      else if value = 2 then Ok ServFail else if value = 3 then Ok NxDomain
      else if value = 4 then Ok NotImp else if value = 5 then Ok Refused
      else Err Unsupported)"

definition chr8 :: "u8 \<Rightarrow> char" where
  "chr8 b = char_of (unat b)"

fun decode_name_loop ::
    "u8 list \<Rightarrow> nat \<Rightarrow> string list \<Rightarrow> nat \<Rightarrow> nat option \<Rightarrow> (dns_name \<times> nat, dns_parse_error) result" where
  "decode_name_loop bytes 0 labels cursor next_pos = Err Compression"
| "decode_name_loop bytes (Suc hops) labels cursor next_pos =
     (if cursor \<ge> length bytes then Err Bounds
      else
        let len = bytes ! cursor in
        if len = 0 then
          (let consumed = (case next_pos of None \<Rightarrow> cursor + 1 | Some n \<Rightarrow> n) in
           case dns_name_new (join_with (CHR ''.'') labels) of
             Ok name \<Rightarrow> Ok (name, consumed)
           | Err _ \<Rightarrow> Err Name)
        else if len AND 0xc0 = 0xc0 then
          (if cursor + 1 \<ge> length bytes then Err Bounds
           else
             let low = unat (bytes ! (cursor + 1));
                 pointer = push_bit 8 (unat (len AND 0x3f)) OR low
             in if pointer \<ge> length bytes \<or> pointer \<ge> cursor then Err Compression
                else decode_name_loop bytes hops labels pointer
                       (case next_pos of None \<Rightarrow> Some (cursor + 2) | Some n \<Rightarrow> Some n))
        else if len > 63 \<or> len AND 0xc0 \<noteq> 0 then Err Compression
        else
          let label_start = cursor + 1; label_end = label_start + unat len in
          case get_range bytes label_start label_end of
            None \<Rightarrow> Err Bounds
          | Some label \<Rightarrow>
              (if \<exists>b \<in> set label. \<not> is_ascii_alphanumeric (chr8 b) \<and> chr8 b \<noteq> CHR ''-''
               then Err Name
               else decode_name_loop bytes hops
                      (labels @ [map (\<lambda>b. to_ascii_lowercase (chr8 b)) label]) label_end next_pos))"

definition decode_name :: "u8 list \<Rightarrow> nat \<Rightarrow> (dns_name \<times> nat, dns_parse_error) result" where
  "decode_name bytes start = decode_name_loop bytes MAX_POINTER_HOPS [] start None"

section \<open>Answer records\<close>

record answer_state =
  as_offset :: nat
  as_answers :: "dns_address_answer list"
  as_cnames :: "dns_cname list"
  as_ttl :: "u32 option"

definition min_ttl :: "u32 option \<Rightarrow> u32 \<Rightarrow> u32 option" where
  "min_ttl eff ttl = Some (case eff of None \<Rightarrow> ttl | Some v \<Rightarrow> min v ttl)"

definition push_answer ::
    "dns_name \<Rightarrow> ip_addr \<Rightarrow> u32 \<Rightarrow> answer_state \<Rightarrow> (answer_state, dns_parse_error) result" where
  "push_answer name address ttl st =
     res_bind (map_err (\<lambda>_. Limit) (dns_address_answer_new name address ttl)) (\<lambda>a.
       Ok (st\<lparr>as_answers := as_answers st @ [a], as_ttl := min_ttl (as_ttl st) ttl\<rparr>))"

definition parse_rdata ::
    "u8 list \<Rightarrow> dns_name \<Rightarrow> u16 \<Rightarrow> u32 \<Rightarrow> nat \<Rightarrow> nat \<Rightarrow> answer_state \<Rightarrow>
       (answer_state, dns_parse_error) result" where
  "parse_rdata bytes record_name record_type ttl data_offset data_len st =
     (let data_end = data_offset + data_len in
      if record_type = TYPE_A \<and> data_len = 4 \<and> length (as_answers st) < MAX_DNS_ANSWERS then
        res_bind (index bytes data_offset) (\<lambda>b0.
        res_bind (index bytes (data_offset + 1)) (\<lambda>b1.
        res_bind (index bytes (data_offset + 2)) (\<lambda>b2.
        res_bind (index bytes (data_offset + 3)) (\<lambda>b3.
          push_answer record_name (V4 (from_be_bytes [b0, b1, b2, b3])) ttl st))))
      else if record_type = TYPE_AAAA \<and> data_len = 16 \<and> length (as_answers st) < MAX_DNS_ANSWERS then
        res_bind (ok_or IndexPanic (get_range bytes data_offset data_end)) (\<lambda>slice.
        res_bind (require (length slice = 16) Bounds) (\<lambda>_.
          push_answer record_name (V6 (from_be_bytes slice)) ttl st))
      else if record_type = TYPE_CNAME \<and> length (as_cnames st) < MAX_DNS_CNAME_CHAIN then
        res_bind (decode_name bytes data_offset) (\<lambda>(canonical, consumed).
        res_bind (if consumed > data_end
                  then res_bind (index bytes data_offset) (\<lambda>b.
                         require (b AND 0xc0 = 0xc0) Bounds)
                  else Ok ()) (\<lambda>_.
        res_bind (map_err (\<lambda>_. Limit) (dns_cname_new record_name canonical ttl)) (\<lambda>c.
          Ok (st\<lparr>as_cnames := as_cnames st @ [c], as_ttl := min_ttl (as_ttl st) ttl\<rparr>))))
      else if record_type = TYPE_A \<or> record_type = TYPE_AAAA then Err Bounds
      else Ok st)"

definition parse_record ::
    "u8 list \<Rightarrow> u32 \<Rightarrow> answer_state \<Rightarrow> (answer_state, dns_parse_error) result" where
  "parse_record bytes max_ttl st =
     res_bind (decode_name bytes (as_offset st)) (\<lambda>(record_name, offset).
     res_bind (read_u16 bytes offset) (\<lambda>record_type.
     res_bind (read_u16 bytes (offset + 2)) (\<lambda>cls.
     res_bind (read_u32 bytes (offset + 4)) (\<lambda>raw_ttl.
     let ttl = min raw_ttl max_ttl in
     res_bind (read_u16 bytes (offset + 8)) (\<lambda>len.
     let data_len = unat len; data_offset = offset + 10; data_end = data_offset + data_len in
     if data_end > length bytes then Err Bounds
     else
       res_bind (if cls = CLASS_IN \<and> ttl > 0
                 then parse_rdata bytes record_name record_type ttl data_offset data_len st
                 else Ok st) (\<lambda>st'.
         Ok (st'\<lparr>as_offset := data_end\<rparr>)))))))"

fun parse_records ::
    "u8 list \<Rightarrow> u32 \<Rightarrow> nat \<Rightarrow> answer_state \<Rightarrow> (answer_state, dns_parse_error) result" where
  "parse_records bytes max_ttl 0 st = Ok st"
| "parse_records bytes max_ttl (Suc n) st =
     res_bind (parse_record bytes max_ttl st) (parse_records bytes max_ttl n)"

section \<open>Messages\<close>

definition parse_message :: "u8 list \<Rightarrow> u32 \<Rightarrow> (parsed_dns_message, dns_parse_error) result" where
  "parse_message bytes max_ttl_seconds =
     (if length bytes < DNS_HEADER_LEN \<or> max_ttl_seconds = 0 then Err Bounds
      else
        res_bind (read_u16 bytes 2) (\<lambda>flags.
        let opcode = drop_bit 11 flags AND 0x0f in
        res_bind (read_u16 bytes 4) (\<lambda>qd_count.
        res_bind (read_u16 bytes 6) (\<lambda>an_count.
        let answer_count = unat an_count in
        if opcode \<noteq> 0 \<or> qd_count \<noteq> 1 \<or> answer_count > MAX_DNS_ANSWERS + MAX_DNS_CNAME_CHAIN
        then Err Unsupported
        else
          res_bind (decode_name bytes DNS_HEADER_LEN) (\<lambda>(name, offset).
          res_bind (read_u16 bytes offset) (\<lambda>raw_query_type.
          res_bind (query_type raw_query_type) (\<lambda>qt.
          res_bind (read_u16 bytes (offset + 2)) (\<lambda>cls.
          if cls \<noteq> CLASS_IN then Err Unsupported
          else
            res_bind (response_code (ucast (flags AND 0x0f))) (\<lambda>rc.
            res_bind (parse_records bytes max_ttl_seconds answer_count
                       \<lparr>as_offset = offset + 4, as_answers = [], as_cnames = [], as_ttl = None\<rparr>) (\<lambda>st.
            res_bind (read_u16 bytes 0) (\<lambda>tid.
              Ok \<lparr>pm_transaction_id = tid,
                  pm_is_response = (flags AND 0x8000 \<noteq> 0),
                  pm_truncated = (flags AND 0x0200 \<noteq> 0),
                  pm_name = name, pm_query_type = qt, pm_response_code = rc,
                  pm_answers = as_answers st, pm_cname_chain = as_cnames st,
                  pm_effective_ttl = as_ttl st\<rparr>)))))))))))"

section \<open>Decoded names\<close>

definition valid_dns_name :: "dns_name \<Rightarrow> bool" where
  "valid_dns_name n \<longleftrightarrow> dns_name_new (dns_str n) = Ok n"

lemma dns_name_new_valid: "dns_name_new s = Ok n \<Longrightarrow> valid_dns_name n"
  using dns_name_newD(1) [of s n] by (auto simp: valid_dns_name_def)

lemma decode_name_loop_Ok:
  assumes "decode_name_loop bytes hops labels cursor np = Ok (name, p)"
    and "\<forall>q. np = Some q \<longrightarrow> q \<le> length bytes"
  shows "valid_dns_name name \<and> p \<le> length bytes \<and> cursor < length bytes"
  using assms
proof (induction bytes hops labels cursor np rule: decode_name_loop.induct)
  case (2 bytes hops labels cursor np)
  then show ?case
    by (auto simp: Let_def get_range_def intro: dns_name_new_valid
        split: if_splits option.splits result.splits)
qed simp

lemma decode_name_Ok:
  "decode_name bytes start = Ok (name, p) \<Longrightarrow> valid_dns_name name \<and> start < length bytes"
  unfolding decode_name_def by (drule decode_name_loop_Ok) auto

lemma decode_name_loop_no_panic: "decode_name_loop bytes hops labels cursor np \<noteq> Err IndexPanic"
  by (induction bytes hops labels cursor np rule: decode_name_loop.induct)
    (auto simp: Let_def split: if_splits option.splits result.splits)

lemma read_no_panic: "read_u16 bytes i \<noteq> Err IndexPanic" "read_u32 bytes i \<noteq> Err IndexPanic"
  by (auto simp: read_u16_def read_u32_def result_laws)

lemma codes_no_panic: "query_type v \<noteq> Err IndexPanic" "response_code w \<noteq> Err IndexPanic"
  by (auto simp: query_type_def response_code_def)

section \<open>No packet makes the parser panic\<close>

lemma push_answer_no_panic: "push_answer n a t st \<noteq> Err IndexPanic"
  by (auto simp: push_answer_def result_laws)

lemma parse_rdata_no_panic:
  assumes "data_offset + data_len \<le> length bytes"
  shows "parse_rdata bytes n rt t data_offset data_len st \<noteq> Err IndexPanic"
  using assms decode_name_loop_no_panic push_answer_no_panic
  by (auto simp: parse_rdata_def Let_def result_laws index_def get_range_def decode_name_def
      dest: decode_name_Ok [unfolded decode_name_def] split: if_splits prod.splits)

lemma parse_record_no_panic: "parse_record bytes m st \<noteq> Err IndexPanic"
  using parse_rdata_no_panic decode_name_loop_no_panic read_no_panic
  by (auto simp: parse_record_def Let_def result_laws decode_name_def split: if_splits prod.splits)

lemma parse_records_no_panic: "parse_records bytes m n st \<noteq> Err IndexPanic"
  by (induction n arbitrary: st) (auto simp: result_laws parse_record_no_panic)

text \<open>C22: The DNS parser never panics. No packet and no TTL bound makes \<open>parse_message\<close> read the
  packet out of range: every direct index it uses is within the bounds it has checked.\<close>

theorem dns_parse_never_panics: "parse_message bytes max_ttl \<noteq> Err IndexPanic"
  using parse_records_no_panic decode_name_loop_no_panic read_no_panic codes_no_panic
  by (auto simp: parse_message_def Let_def result_laws decode_name_def split: if_splits prod.splits)

section \<open>What a parsed message satisfies\<close>

definition answer_ok :: "u32 \<Rightarrow> answer_state \<Rightarrow> bool" where
  "answer_ok max_ttl st \<longleftrightarrow>
     length (as_answers st) \<le> MAX_DNS_ANSWERS \<and> length (as_cnames st) \<le> MAX_DNS_CNAME_CHAIN
     \<and> (\<forall>a \<in> set (as_answers st). valid_dns_name (ans_name a))
     \<and> (\<forall>c \<in> set (as_cnames st). valid_dns_name (cn_alias c) \<and> valid_dns_name (cn_canonical c))
     \<and> (\<forall>t \<in> ans_ttl ` set (as_answers st) \<union> cn_ttl ` set (as_cnames st).
           1 \<le> t \<and> t \<le> max_ttl \<and> t \<le> MAX_DNS_TTL_SECONDS)
     \<and> as_ttl st = (if as_answers st = [] \<and> as_cnames st = [] then None
                   else Some (Min (ans_ttl ` set (as_answers st) \<union> cn_ttl ` set (as_cnames st))))"

lemma min_ttl_answers:
  assumes "answer_ok m st"
  shows "min_ttl (as_ttl st) t
    = Some (Min (insert t (ans_ttl ` set (as_answers st) \<union> cn_ttl ` set (as_cnames st))))"
  using assms by (auto simp: answer_ok_def min_ttl_def Min_insert min.commute split: if_splits)

lemma push_answer_ok:
  assumes "answer_ok m st" "length (as_answers st) < MAX_DNS_ANSWERS"
    "valid_dns_name name" "ttl \<le> m" "push_answer name address ttl st = Ok st'"
  shows "answer_ok m st'"
proof -
  from assms(5) have t: "1 \<le> ttl" "ttl \<le> MAX_DNS_TTL_SECONDS"
    and st': "st' = st\<lparr>as_answers := as_answers st @
        [\<lparr>ans_name = name, ans_address = address, ans_ttl = ttl\<rparr>], as_ttl := min_ttl (as_ttl st) ttl\<rparr>"
    by (auto simp: push_answer_def dns_address_answer_new_def result_laws validate_ttl_Ok)
  show ?thesis
    unfolding st' using t assms(1-4) min_ttl_answers [OF assms(1), of ttl]
    by (auto simp: answer_ok_def)
qed

lemma push_cname_ok:
  assumes "answer_ok m st" "length (as_cnames st) < MAX_DNS_CNAME_CHAIN"
    "valid_dns_name name" "valid_dns_name canonical" "ttl \<le> m"
    "dns_cname_new name canonical ttl = Ok c"
  shows "answer_ok m (st\<lparr>as_cnames := as_cnames st @ [c], as_ttl := min_ttl (as_ttl st) ttl\<rparr>)"
proof -
  from assms(6) have t: "1 \<le> ttl" "ttl \<le> MAX_DNS_TTL_SECONDS"
    and c: "c = \<lparr>cn_alias = name, cn_canonical = canonical, cn_ttl = ttl\<rparr>"
    by (auto simp: dns_cname_new_def result_laws validate_ttl_Ok)
  show ?thesis
    unfolding c using t assms(1-5) min_ttl_answers [OF assms(1), of ttl]
    by (auto simp: answer_ok_def)
qed

lemma parse_rdata_ok:
  assumes "answer_ok m st" "valid_dns_name name" "ttl \<le> m"
    "parse_rdata bytes name rt ttl off len st = Ok st'"
  shows "answer_ok m st'"
  using assms
  by (auto simp: parse_rdata_def Let_def result_laws
      dest: push_answer_ok push_cname_ok decode_name_Ok split: if_splits prod.splits)

lemma parse_record_ok:
  assumes "answer_ok m st" "parse_record bytes m st = Ok st'"
  shows "answer_ok m st'"
proof -
  have offset: "answer_ok m (x\<lparr>as_offset := n\<rparr>) = answer_ok m x" for x n
    by (simp add: answer_ok_def)
  from assms show ?thesis
    by (auto simp: parse_record_def Let_def result_laws offset
        dest!: decode_name_Ok dest: parse_rdata_ok [OF assms(1), rotated 2]
        split: if_splits prod.splits)
qed

lemma parse_records_ok:
  "answer_ok m st \<Longrightarrow> parse_records bytes m n st = Ok st' \<Longrightarrow> answer_ok m st'"
  by (induction n arbitrary: st) (auto simp: result_laws dest: parse_record_ok)

lemma answer_ok_init: "answer_ok m \<lparr>as_offset = i, as_answers = [], as_cnames = [], as_ttl = None\<rparr>"
  by (simp add: answer_ok_def MAX_DNS_ANSWERS_def MAX_DNS_CNAME_CHAIN_def)

lemma parse_message_sound:
  assumes "parse_message bytes max_ttl = Ok m"
  defines "ttls \<equiv> map ans_ttl (pm_answers m) @ map cn_ttl (pm_cname_chain m)"
  shows "valid_dns_name (pm_name m)
    \<and> length (pm_answers m) \<le> 16 \<and> length (pm_cname_chain m) \<le> 8
    \<and> (\<forall>a \<in> set (pm_answers m). valid_dns_name (ans_name a))
    \<and> (\<forall>c \<in> set (pm_cname_chain m). valid_dns_name (cn_alias c) \<and> valid_dns_name (cn_canonical c))
    \<and> (\<forall>t \<in> set ttls. 1 \<le> t \<and> t \<le> max_ttl \<and> t \<le> 86400)
    \<and> pm_effective_ttl m = (if ttls = [] then None else Some (Min (set ttls)))"
proof -
  from assms(1) obtain offset n st where "decode_name bytes DNS_HEADER_LEN = Ok (pm_name m, offset)"
    and p: "parse_records bytes max_ttl n
          \<lparr>as_offset = offset + 4, as_answers = [], as_cnames = [], as_ttl = None\<rparr> = Ok st"
    and m: "pm_answers m = as_answers st" "pm_cname_chain m = as_cnames st"
      "pm_effective_ttl m = as_ttl st"
    by (auto simp: parse_message_def Let_def result_laws split: if_splits prod.splits)
  then have "valid_dns_name (pm_name m)" by (auto dest: decode_name_Ok)
  moreover have "answer_ok max_ttl st" by (rule parse_records_ok [OF answer_ok_init p])
  ultimately show ?thesis
    by (auto simp: answer_ok_def m ttls_def MAX_DNS_ANSWERS_def MAX_DNS_CNAME_CHAIN_def
        MAX_DNS_TTL_SECONDS_def)
qed

text \<open>C21: Parsed messages respect the event model's bounds. A message \<open>parse_message\<close> returns has a
  canonical question name, at most 16 address answers and 8 aliases, all with canonical names
  and with TTLs between one second and both the caller's bound and one day; its effective TTL is
  the least TTL of all kept records, and absent exactly when there are none.\<close>

theorem dns_parse_sound:
  assumes "parse_message bytes max_ttl = Ok m"
  defines "ttls \<equiv> map ans_ttl (pm_answers m) @ map cn_ttl (pm_cname_chain m)"
  shows "valid_dns_name (pm_name m)
    \<and> length (pm_answers m) \<le> 16 \<and> length (pm_cname_chain m) \<le> 8
    \<and> (\<forall>a \<in> set (pm_answers m). valid_dns_name (ans_name a))
    \<and> (\<forall>c \<in> set (pm_cname_chain m). valid_dns_name (cn_alias c) \<and> valid_dns_name (cn_canonical c))
    \<and> (\<forall>t \<in> set ttls. 1 \<le> t \<and> t \<le> max_ttl \<and> t \<le> 86400)
    \<and> pm_effective_ttl m = (if ttls = [] then None else Some (Min (set ttls)))"
  using parse_message_sound [OF assms(1)] unfolding ttls_def .

section \<open>A reference encoder\<close>

definition byte8 :: "char \<Rightarrow> u8" where
  "byte8 c = of_nat (byte c)"

definition encode_label :: "string \<Rightarrow> u8 list" where
  "encode_label l = of_nat (length l) # map byte8 l"

definition encode_labels :: "string list \<Rightarrow> u8 list" where
  "encode_labels ls = concat (map encode_label ls) @ [0]"

lemma chr8_byte8 [simp]: "chr8 (byte8 c) = c"
proof -
  have "byte c < 256" by (simp add: byte_def)
  then show ?thesis by (simp add: chr8_def byte8_def byte_def unat_of_nat_small)
qed

lemma low_byte_bits:
  fixes w :: u8
  assumes "unat w \<le> 63"
  shows "w AND 0xc0 = 0"
proof -
  have "unat (take_bit 6 w) = unat w"
    using assms by (simp add: unsigned_take_bit_eq take_bit_nat_eq_self_iff)
  then have "take_bit 6 w = w" by (simp only: word_unat_eq_iff)
  then have "w = w AND mask 6" by (simp add: take_bit_eq_mask)
  then have "w AND 0xc0 = w AND (mask 6 AND 0xc0)" by (metis and.assoc)
  also have "mask 6 AND 0xc0 = (0 :: u8)" by (simp add: mask_eq_exp_minus_1)
  finally show ?thesis by simp
qed

lemma lowercase_canonical:
  "canonical_label l \<Longrightarrow> c \<in> set l \<Longrightarrow> to_ascii_lowercase c = c"
  by (auto simp: canonical_label_iff to_ascii_lowercase_def)

lemma decode_label:
  assumes "canonical_label l"
  shows "decode_name_loop (pre @ encode_label l @ rest) (Suc hops) acc (length pre) np
    = decode_name_loop (pre @ encode_label l @ rest) hops (acc @ [l]) (length (pre @ encode_label l)) np"
proof -
  let ?n = "of_nat (length l) :: u8"
  have n: "1 \<le> length l" "length l \<le> 63" using assms by (auto simp: canonical_label_def)
  then have u: "unat ?n = length l" by (simp add: unat_of_nat_small)
  with n have nz: "?n \<noteq> 0" "\<not> ?n > 63" by (auto simp: word_less_nat_alt)
  have "?n AND 0xc0 = 0" using u n by (intro low_byte_bits) simp
  moreover have "\<not> (\<exists>b \<in> set (map byte8 l). \<not> is_ascii_alphanumeric (chr8 b) \<and> chr8 b \<noteq> CHR ''-'')"
    using assms by (auto simp: canonical_label_iff valid_label_def)
  moreover have "map (\<lambda>b. to_ascii_lowercase (chr8 b)) (map byte8 l) = l"
    using assms by (simp add: o_def lowercase_canonical map_idI)
  moreover have "get_range (pre @ encode_label l @ rest) (length pre + 1) (length pre + 1 + unat ?n)
      = Some (map byte8 l)"
    by (simp add: get_range_def u encode_label_def)
  ultimately show ?thesis
    using nz u by (auto simp: Let_def nth_append encode_label_def o_def)
qed

lemma decode_labels:
  assumes "\<forall>l \<in> set ls. canonical_label l" and "length ls < hops"
  shows "decode_name_loop (pre @ encode_labels ls @ rest) hops acc (length pre) np =
    (case dns_name_new (join_with (CHR ''.'') (acc @ ls)) of
       Ok name \<Rightarrow> Ok (name, case np of None \<Rightarrow> length (pre @ encode_labels ls) | Some n \<Rightarrow> n)
     | Err _ \<Rightarrow> Err Name)"
  using assms
proof (induction ls arbitrary: pre hops acc)
  case Nil
  then obtain h where "hops = Suc h" by (cases hops) auto
  then show ?case
    by (simp add: encode_labels_def nth_append Let_def split: result.splits option.splits)
next
  case (Cons l ls)
  then obtain h where h: "hops = Suc h" "length ls < h" by (cases hops) auto
  have sp: "pre @ encode_labels (l # ls) @ rest = pre @ encode_label l @ encode_labels ls @ rest"
    by (simp add: encode_labels_def)
  have "decode_name_loop (pre @ encode_labels (l # ls) @ rest) hops acc (length pre) np
      = decode_name_loop ((pre @ encode_label l) @ encode_labels ls @ rest) h (acc @ [l])
          (length (pre @ encode_label l)) np"
    using Cons.prems decode_label [of l pre "encode_labels ls @ rest" h acc np]
    by (simp add: h sp del: decode_name_loop.simps)
  then show ?case
    using Cons.IH [of h "pre @ encode_label l" "acc @ [l]"] Cons.prems h
    by (simp add: encode_labels_def split: result.splits option.splits)
qed

definition name_labels :: "string list \<Rightarrow> bool" where
  "name_labels ls \<longleftrightarrow>
     ls \<noteq> [] \<and> (\<forall>l \<in> set ls. canonical_label l) \<and> length (join_with (CHR ''.'') ls) \<le> 253"

abbreviation name_of :: "string list \<Rightarrow> dns_name" where
  "name_of ls \<equiv> DnsName (join_with (CHR ''.'') ls)"

lemma decode_name_encoded:
  assumes "name_labels ls" and "length ls \<le> 15"
  shows "decode_name (pre @ encode_labels ls @ rest) (length pre)
    = Ok (name_of ls, length (pre @ encode_labels ls))"
  using assms
  by (simp add: decode_name_def decode_labels MAX_POINTER_HOPS_def name_labels_def dns_name_newI
      del: decode_name_loop.simps)

lemma decode_too_many_labels:
  assumes "\<forall>l \<in> set ls. canonical_label l" and "length ls \<ge> hops"
  shows "decode_name_loop (pre @ encode_labels ls @ rest) hops acc (length pre) np = Err Compression"
  using assms
proof (induction ls arbitrary: pre hops acc)
  case (Cons l ls)
  show ?case
  proof (cases hops)
    case (Suc h)
    have sp: "pre @ encode_labels (l # ls) @ rest = pre @ encode_label l @ encode_labels ls @ rest"
      by (simp add: encode_labels_def)
    show ?thesis
      using Cons.prems Suc decode_label [of l pre "encode_labels ls @ rest" h acc np]
        Cons.IH [of h "pre @ encode_label l" "acc @ [l]"]
      by (simp add: sp del: decode_name_loop.simps)
  qed simp
qed simp

text \<open>Encoded names decode, up to fifteen labels. A name of at most fifteen labels written
  without compression at any place of a packet decodes to that name, and decoding ends right
  behind it. From sixteen labels on, the iteration bound, which also counts labels, makes
  \<open>decode_name\<close> reject the name as malformed compression although the packet contains no
  compression pointer.\<close>

theorem dns_decode_name_roundtrip:
  assumes "name_labels ls"
  shows "decode_name (pre @ encode_labels ls @ rest) (length pre) =
    (if length ls \<le> 15 then Ok (name_of ls, length pre + length (encode_labels ls))
     else Err Compression)"
  using assms decode_name_encoded [OF assms, of pre rest]
    decode_too_many_labels [of ls MAX_POINTER_HOPS pre rest "[]" None]
  by (auto simp: name_labels_def decode_name_def MAX_POINTER_HOPS_def)

theorem dns_decode_name_roundtrip_witness:
  "name_labels [''api'', ''example'', ''com'']
   \<and> decode_name ([1, 2] @ encode_labels [''api'', ''example'', ''com''] @ [0, 1]) (length [1 :: u8, 2])
     = Ok (DnsName ''api.example.com'', 2 + 17)"
proof -
  have "name_labels [''api'', ''example'', ''com'']"
    by (simp add: name_labels_def canonical_label_def is_ascii_lowercase_def is_ascii_digit_def byte_def)
  then show ?thesis
    using dns_decode_name_roundtrip [of "[''api'', ''example'', ''com'']" "[1, 2]" "[0, 1]"]
    by (simp add: encode_labels_def encode_label_def)
qed

text \<open>Whole messages: one question and address answers whose owner name is a compression pointer
  to the question, as resolvers send them.\<close>

abbreviation be16 :: "u16 \<Rightarrow> u8 list" where "be16 \<equiv> to_be_bytes 2"
abbreviation be32 :: "u32 \<Rightarrow> u8 list" where "be32 \<equiv> to_be_bytes 4"

fun rcode_num :: "dns_response_code \<Rightarrow> u16" where
  "rcode_num NoError = 0" | "rcode_num FormErr = 1" | "rcode_num ServFail = 2"
| "rcode_num NxDomain = 3" | "rcode_num NotImp = 4" | "rcode_num Refused = 5"

fun qtype_num :: "dns_query_type \<Rightarrow> u16" where
  "qtype_num A = 1" | "qtype_num Aaaa = 28"

definition flags_word :: "bool \<Rightarrow> bool \<Rightarrow> dns_response_code \<Rightarrow> u16" where
  "flags_word resp tc rc = (if resp then 0x8000 else 0) OR (if tc then 0x0200 else 0) OR rcode_num rc"

fun encode_address :: "ip_addr \<Rightarrow> u8 list" where
  "encode_address (V4 w) = be16 1 @ be16 1" | "encode_address (V6 w) = be16 28 @ be16 1"

fun encode_rdata :: "ip_addr \<Rightarrow> u8 list" where
  "encode_rdata (V4 w) = be16 4 @ to_be_bytes 4 w" | "encode_rdata (V6 w) = be16 16 @ to_be_bytes 16 w"

definition encode_answer :: "ip_addr \<times> u32 \<Rightarrow> u8 list" where
  "encode_answer a = [0xc0, 12] @ encode_address (fst a) @ be32 (snd a) @ encode_rdata (fst a)"

definition encode_header :: "u16 \<Rightarrow> u16 \<Rightarrow> nat \<Rightarrow> u8 list" where
  "encode_header tid flags n = be16 tid @ be16 flags @ be16 1 @ be16 (of_nat n) @ [0, 0, 0, 0]"

definition encode_message ::
    "u16 \<Rightarrow> bool \<Rightarrow> bool \<Rightarrow> string list \<Rightarrow> dns_query_type \<Rightarrow> dns_response_code \<Rightarrow>
       (ip_addr \<times> u32) list \<Rightarrow> u8 list" where
  "encode_message tid resp tc ls qt rc as =
     encode_header tid (flags_word resp tc rc) (length as) @ encode_labels ls
     @ be16 (qtype_num qt) @ be16 1 @ concat (map encode_answer as)"

lemma read_u16_at: "i = length pre \<Longrightarrow> read_u16 (pre @ be16 w @ rest) i = Ok w"
  by (simp add: read_u16_def get_range_def from_to_be_bytes)

lemma read_u32_at: "i = length pre \<Longrightarrow> read_u32 (pre @ be32 w @ rest) i = Ok w"
  by (simp add: read_u32_def get_range_def from_to_be_bytes)

lemma decode_pointer:
  assumes ls: "name_labels ls" "length ls \<le> 14" and hdr: "length hdr = 12"
    and bytes: "bytes = hdr @ encode_labels ls @ mid @ 0xc0 # 12 # rest"
    and i: "i = length (hdr @ encode_labels ls @ mid)"
  shows "decode_name bytes i = Ok (name_of ls, i + 2)"
proof -
  have b: "bytes ! i = 0xc0" "bytes ! (i + 1) = 12" "i + 1 < length bytes" "12 < i"
    using hdr by (auto simp: bytes i nth_append encode_labels_def)
  have pointer: "push_bit 8 (unat ((0xc0 :: u8) AND 0x3f)) OR unat (12 :: u8) = 12" by simp
  have "decode_name bytes i = decode_name_loop bytes (Suc 15) [] i None"
    by (simp add: decode_name_def MAX_POINTER_HOPS_def del: decode_name_loop.simps)
  also have "\<dots> = decode_name_loop bytes 15 [] 12 (Some (i + 2))"
    using b pointer by (subst decode_name_loop.simps(2)) (simp add: Let_def)
  also have "\<dots> = Ok (name_of ls, i + 2)"
    using decode_labels [of ls 15 hdr "mid @ 0xc0 # 12 # rest" "[]" "Some (i + 2)"] ls hdr
    by (simp add: bytes name_labels_def dns_name_newI del: decode_name_loop.simps)
  finally show ?thesis .
qed

lemma parse_record_fields:
  assumes name: "decode_name bytes (as_offset st) = Ok (name, as_offset st + 2)"
    and bytes: "bytes = pre @ [0xc0, 12] @ be16 ty @ be16 1 @ be32 ttl @ be16 n @ data @ rest"
    and off: "as_offset st = length pre" and data: "length data = unat n" and ttl: "0 < min ttl m"
  shows "parse_record bytes m st =
    res_bind (parse_rdata bytes name ty (min ttl m) (length pre + 12) (length data) st)
      (\<lambda>st'. Ok (st'\<lparr>as_offset := length pre + 12 + length data\<rparr>))"
proof -
  define k where "k = length pre + 2"
  have kk: "length pre + 12 = k + 10" by (simp add: k_def)
  have "read_u16 bytes k = Ok ty"
    unfolding bytes using read_u16_at [of k "pre @ [0xc0, 12]" ty] by (simp add: k_def)
  moreover have "read_u16 bytes (k + 2) = Ok 1"
    unfolding bytes using read_u16_at [of "k + 2" "pre @ [0xc0, 12] @ be16 ty" 1] by (simp add: k_def)
  moreover have "read_u32 bytes (k + 4) = Ok ttl"
    unfolding bytes using read_u32_at [of "k + 4" "pre @ [0xc0, 12] @ be16 ty @ be16 1" ttl]
    by (simp add: k_def)
  moreover have "read_u16 bytes (k + 8) = Ok n"
    unfolding bytes
    using read_u16_at [of "k + 8" "pre @ [0xc0, 12] @ be16 ty @ be16 1 @ be32 ttl" n]
    by (simp add: k_def)
  moreover have "\<not> k + 10 + unat n > length bytes" by (simp add: bytes k_def flip: data)
  moreover have "decode_name bytes (as_offset st) = Ok (name, k)" using name off by (simp add: k_def)
  ultimately show ?thesis
    unfolding kk using ttl by (simp add: parse_record_def Let_def CLASS_IN_def data)
qed

lemma length_four: "length xs = 4 \<Longrightarrow> \<exists>a b c d. xs = [a, b, c, d]"
  by (auto simp: eval_nat_numeral length_Suc_conv)

lemma parse_rdata_A:
  assumes "length pre = i" "length (as_answers st) < 16"
  shows "parse_rdata (pre @ to_be_bytes 4 w @ rest) name 1 ttl i 4 st = push_answer name (V4 w) ttl st"
proof -
  obtain b0 b1 b2 b3 where b: "to_be_bytes 4 w = [b0, b1, b2, b3]"
    using length_four [of "to_be_bytes 4 w"] by auto
  have "from_be_bytes (to_be_bytes 4 w) = w" by (rule from_to_be_bytes) simp
  then have "from_be_bytes [b0, b1, b2, b3] = w" by (simp add: b)
  with assms show ?thesis
    unfolding b by (simp add: parse_rdata_def Let_def dns_consts MAX_DNS_ANSWERS_def index_def nth_append)
qed

lemma parse_rdata_AAAA:
  assumes "length pre = i" "length (as_answers st) < 16"
  shows "parse_rdata (pre @ to_be_bytes 16 w @ rest) name 28 ttl i 16 st = push_answer name (V6 w) ttl st"
  using assms
  by (simp add: parse_rdata_def Let_def dns_consts MAX_DNS_ANSWERS_def get_range_def from_to_be_bytes)

definition decoded_answer :: "string list \<Rightarrow> u32 \<Rightarrow> ip_addr \<times> u32 \<Rightarrow> dns_address_answer" where
  "decoded_answer ls m a = \<lparr>ans_name = name_of ls, ans_address = fst a, ans_ttl = min (snd a) m\<rparr>"

lemma parse_record_encoded:
  assumes ls: "name_labels ls" "length ls \<le> 14" and hdr: "length hdr = 12"
    and ttl: "1 \<le> snd a" "snd a \<le> 86400" "0 < m" and few: "length (as_answers st) < 16"
    and bytes: "bytes = pre @ encode_answer a @ rest" and pre: "pre = hdr @ encode_labels ls @ mid"
    and off: "as_offset st = length pre"
  shows "parse_record bytes m st =
    Ok (st\<lparr>as_offset := length (pre @ encode_answer a),
           as_answers := as_answers st @ [decoded_answer ls m a],
           as_ttl := min_ttl (as_ttl st) (min (snd a) m)\<rparr>)"
proof -
  obtain addr t where a: "a = (addr, t)" by (cases a)
  have t0: "0 < min t m" "1 \<le> min t m" "min t m \<le> 86400"
    using ttl a by (auto simp: min_def word_le_nat_alt word_less_nat_alt)
  have name: "decode_name bytes (as_offset st) = Ok (name_of ls, as_offset st + 2)"
    using ls hdr by (intro decode_pointer) (auto simp: bytes pre off encode_answer_def)
  have push: "push_answer (name_of ls) addr (min t m) st =
      Ok (st\<lparr>as_answers := as_answers st @ [decoded_answer ls m a],
             as_ttl := min_ttl (as_ttl st) (min t m)\<rparr>)"
    using t0(2,3) a by (simp add: push_answer_def dns_address_answer_new_def validate_ttl_def
        MAX_DNS_TTL_SECONDS_def decoded_answer_def)
  show ?thesis
  proof (cases addr)
    case (V4 w)
    have "bytes = pre @ [0xc0, 12] @ be16 1 @ be16 1 @ be32 t @ be16 4 @ to_be_bytes 4 w @ rest"
      by (simp add: bytes encode_answer_def a V4)
    from parse_record_fields [OF name this off _ t0(1)]
      parse_rdata_A [of "pre @ [0xc0, 12] @ be16 1 @ be16 1 @ be32 t @ be16 4" "length pre + 12" st w
        rest "name_of ls" "min t m"] few this push
    show ?thesis by (simp add: a V4 encode_answer_def)
  next
    case (V6 w)
    have "bytes = pre @ [0xc0, 12] @ be16 28 @ be16 1 @ be32 t @ be16 16 @ to_be_bytes 16 w @ rest"
      by (simp add: bytes encode_answer_def a V6)
    from parse_record_fields [OF name this off _ t0(1)]
      parse_rdata_AAAA [of "pre @ [0xc0, 12] @ be16 28 @ be16 1 @ be32 t @ be16 16" "length pre + 12"
        st w rest "name_of ls" "min t m"] few this push
    show ?thesis by (simp add: a V6 encode_answer_def)
  qed
qed

lemma parse_records_encoded:
  assumes ls: "name_labels ls" "length ls \<le> 14" and hdr: "length hdr = 12" and m: "0 < m"
  shows "\<forall>a \<in> set as. 1 \<le> snd a \<and> snd a \<le> 86400 \<Longrightarrow> length (as_answers st) + length as \<le> 16 \<Longrightarrow>
    as_offset st = length (hdr @ encode_labels ls @ mid) \<Longrightarrow>
    (\<exists>st'. parse_records (hdr @ encode_labels ls @ mid @ concat (map encode_answer as) @ rest) m (length as) st = Ok st'
      \<and> as_answers st' = as_answers st @ map (decoded_answer ls m) as \<and> as_cnames st' = as_cnames st)"
proof (induction as arbitrary: st mid)
  case (Cons a as)
  let ?bytes = "hdr @ encode_labels ls @ mid @ concat (map encode_answer (a # as)) @ rest"
  obtain st1 where st1: "parse_record ?bytes m st = Ok st1"
    "as_answers st1 = as_answers st @ [decoded_answer ls m a]" "as_cnames st1 = as_cnames st"
    "as_offset st1 = length (hdr @ encode_labels ls @ mid @ encode_answer a)"
    using parse_record_encoded [OF ls hdr, of a m st ?bytes "hdr @ encode_labels ls @ mid"
        "concat (map encode_answer as) @ rest" mid] Cons.prems m by auto
  then show ?case
    using Cons.IH [of st1 "mid @ encode_answer a"] Cons.prems by auto
qed auto

lemma flags_word_bits:
  "drop_bit 11 (flags_word resp tc rc) AND 0x0f = 0"
  "(flags_word resp tc rc AND 0x8000 \<noteq> 0) = resp"
  "(flags_word resp tc rc AND 0x0200 \<noteq> 0) = tc"
  "response_code (ucast (flags_word resp tc rc AND 0x0f)) = Ok rc"
  by (cases resp; cases tc; cases rc; simp add: flags_word_def response_code_def)+

lemma parse_encoded_message:
  assumes "name_labels ls" "length ls \<le> 14" "length as \<le> 16" "0 < max_ttl"
    and "\<forall>a \<in> set as. 1 \<le> snd a \<and> snd a \<le> 86400"
  shows "\<exists>m. parse_message (encode_message tid resp tc ls qt rc as) max_ttl = Ok m
    \<and> pm_transaction_id m = tid \<and> pm_is_response m = resp \<and> pm_truncated m = tc
    \<and> pm_name m = name_of ls \<and> pm_query_type m = qt \<and> pm_response_code m = rc
    \<and> pm_answers m = map (decoded_answer ls max_ttl) as \<and> pm_cname_chain m = []"
proof -
  let ?h = "encode_header tid (flags_word resp tc rc) (length as)"
  let ?q = "be16 (qtype_num qt) @ be16 1"
  let ?bytes = "encode_message tid resp tc ls qt rc as"
  have h: "length ?h = 12" by (simp add: encode_header_def)
  have hd: "read_u16 ?bytes 0 = Ok tid" "read_u16 ?bytes 2 = Ok (flags_word resp tc rc)"
    "read_u16 ?bytes 4 = Ok 1" "read_u16 ?bytes 6 = Ok (of_nat (length as))"
    using read_u16_at [of 0 "[]" tid] read_u16_at [of 2 "be16 tid" "flags_word resp tc rc"]
      read_u16_at [of 4 "be16 tid @ be16 (flags_word resp tc rc)" 1]
      read_u16_at [of 6 "be16 tid @ be16 (flags_word resp tc rc) @ be16 1" "of_nat (length as)"]
    by (simp_all add: encode_message_def encode_header_def)
  let ?i = "12 + length (encode_labels ls)"
  have name: "decode_name ?bytes 12 = Ok (name_of ls, ?i)"
    using decode_name_encoded [of ls ?h "?q @ concat (map encode_answer as)"] assms(1,2) h
    by (simp add: encode_message_def)
  have q: "read_u16 ?bytes ?i = Ok (qtype_num qt)" "read_u16 ?bytes (?i + 2) = Ok 1"
    using read_u16_at [of ?i "?h @ encode_labels ls" "qtype_num qt"]
      read_u16_at [of "?i + 2" "?h @ encode_labels ls @ be16 (qtype_num qt)" 1] h
    by (simp_all add: encode_message_def)
  let ?st = "\<lparr>as_offset = ?i + 4, as_answers = [], as_cnames = [], as_ttl = None\<rparr>"
  obtain st where st: "parse_records ?bytes max_ttl (length as) ?st = Ok st"
    "as_answers st = map (decoded_answer ls max_ttl) as" "as_cnames st = []"
    using parse_records_encoded [OF assms(1,2) h assms(4), of as ?st ?q "[]"] assms(3,5) h
    by (auto simp: encode_message_def)
  have n: "unat (of_nat (length as) :: u16) = length as" using assms(3) by (simp add: unat_of_nat_small)
  have "query_type (qtype_num qt) = Ok qt" by (cases qt) (simp_all add: query_type_def dns_consts)
  moreover have "12 \<le> length ?bytes" using h by (simp add: encode_message_def)
  ultimately show ?thesis
    using hd name q st n assms(3,4) flags_word_bits [of resp tc rc]
    by (simp add: parse_message_def Let_def DNS_HEADER_LEN_def CLASS_IN_def MAX_DNS_ANSWERS_def
        MAX_DNS_CNAME_CHAIN_def)
qed

text \<open>C17: Encoded DNS messages parse to what was encoded. For a question name of at most fourteen
  labels, any transaction id, flags, response code and at most sixteen A and AAAA answers with
  TTLs between one second and one day whose owner is a compression pointer to the question,
  parsing the encoded packet returns the question and every answer in order, with its address
  and its TTL cut to the caller's bound.\<close>

theorem dns_message_roundtrip:
  assumes "name_labels ls" "length ls \<le> 14" "length as \<le> 16" "0 < max_ttl"
    and "\<forall>a \<in> set as. 1 \<le> snd a \<and> snd a \<le> 86400"
  shows "\<exists>m. parse_message (encode_message tid resp tc ls qt rc as) max_ttl = Ok m
    \<and> pm_transaction_id m = tid \<and> pm_is_response m = resp \<and> pm_truncated m = tc
    \<and> pm_name m = name_of ls \<and> pm_query_type m = qt \<and> pm_response_code m = rc
    \<and> pm_answers m = map (decoded_answer ls max_ttl) as \<and> pm_cname_chain m = []"
  using assms by (rule parse_encoded_message)

lemma sample_labels: "name_labels [''api'', ''example'']"
  by (simp add: name_labels_def canonical_label_def is_ascii_lowercase_def is_ascii_digit_def byte_def)

abbreviation sample_answers :: "(ip_addr \<times> u32) list" where
  "sample_answers \<equiv> [(V4 0xCB007107, 600), (V6 1, 20)]"

lemma sample_answer_bounds: "\<forall>a \<in> set sample_answers. 1 \<le> snd a \<and> snd a \<le> 86400"
  by (simp add: word_le_nat_alt)

theorem dns_message_roundtrip_witness:
  "\<exists>m. parse_message (encode_message 7 True False [''api'', ''example''] A NoError sample_answers) 300 = Ok m
    \<and> pm_name m = DnsName ''api.example'' \<and> map ans_ttl (pm_answers m) = [300, 20]"
  using dns_message_roundtrip [OF sample_labels, of sample_answers 300 7 True False A NoError]
    sample_answer_bounds
  by (auto simp: decoded_answer_def min_def word_le_nat_alt)

theorem dns_parse_sound_witness:
  "\<exists>m. parse_message (encode_message 7 True False [''api'', ''example''] A NoError sample_answers) 300 = Ok m
    \<and> valid_dns_name (pm_name m) \<and> pm_effective_ttl m = Some (Min {300, 20})"
proof -
  obtain m where m: "parse_message
      (encode_message 7 True False [''api'', ''example''] A NoError sample_answers) 300 = Ok m"
    "pm_answers m = map (decoded_answer [''api'', ''example''] 300) sample_answers" "pm_cname_chain m = []"
    using parse_encoded_message [OF sample_labels, of sample_answers 300 7 True False A NoError]
      sample_answer_bounds by auto
  with dns_parse_sound [OF m(1)] show ?thesis
    by (auto simp: decoded_answer_def min_def word_le_nat_alt)
qed

end
