(* ===== verification/Dns_Tcp.thy ===== *)
theory Dns_Tcp
  imports Event_Base
begin

text \<open>
  Reassembly of DNS messages from TCP segments (\<open>crates/agent/src/dns_tcp.rs\<close>). Each stream
  collects the bytes of one length-prefixed message; a gap in the sequence numbers, an oversize
  or a badly framed message drops the stream, and a stream that has not been written for the
  timeout is forgotten before the next segment is looked at.

  The lemmas show that the memory the reassembler uses is bounded, and that a framed message
  is delivered exactly when its last byte arrives, however it was cut into segments.
\<close>

record tcp_dns_stream_key =
  key_cgroup :: u64
  key_cookie :: u64
  key_direction :: u8

datatype tcp_reassembly_error = Capacity | InvalidSequence | Oversize | InvalidFraming

record tcp_stream =
  next_seq :: u32
  updated_at :: instant
  stream_bytes :: "u8 list"

record tcp_dns_reassembler =
  streams :: "(tcp_dns_stream_key \<times> tcp_stream) list"
  max_streams :: nat
  max_message_bytes :: nat
  tcp_timeout :: duration

definition tcp_dns_reassembler_new :: "nat \<Rightarrow> nat \<Rightarrow> duration \<Rightarrow> tcp_dns_reassembler" where
  "tcp_dns_reassembler_new max_s max_b timeout =
     \<lparr>streams = [], max_streams = max_s, max_message_bytes = max_b, tcp_timeout = timeout\<rparr>"

definition expire :: "instant \<Rightarrow> tcp_dns_reassembler \<Rightarrow> tcp_dns_reassembler \<times> nat" where
  "expire now r =
     (let r' = r\<lparr>streams := filter (\<lambda>(_, s). now - updated_at s < tcp_timeout r) (streams r)\<rparr>
      in (r', length (streams r) - length (streams r')))"

definition drop_stream :: "tcp_dns_stream_key \<Rightarrow> tcp_dns_reassembler \<Rightarrow> tcp_dns_reassembler" where
  "drop_stream key r = r\<lparr>streams := AList.delete key (streams r)\<rparr>"

definition tcp_push ::
    "tcp_dns_stream_key \<Rightarrow> u32 \<Rightarrow> u8 list \<Rightarrow> instant \<Rightarrow> tcp_dns_reassembler \<Rightarrow>
       tcp_dns_reassembler \<times> (u8 list option, tcp_reassembly_error) result" where
  "tcp_push key seq payload now r0 =
     (let r = fst (expire now r0) in
      if payload = [] then (r, Ok None)
      else if \<not> contains_key (streams r) key \<and> length (streams r) \<ge> max_streams r
      then (r, Err Capacity)
      else
        let stream = (case map_of (streams r) key of
              Some s \<Rightarrow> s
            | None \<Rightarrow> \<lparr>next_seq = seq, updated_at = now, stream_bytes = []\<rparr>)
        in
        if seq \<noteq> next_seq stream then (drop_stream key r, Err InvalidSequence)
        else if length (stream_bytes stream) + length payload > max_message_bytes r + 2
        then (drop_stream key r, Err Oversize)
        else
          let bytes = stream_bytes stream @ payload;
              stream' = \<lparr>next_seq = seq + (if length payload < 2 ^ 32 then of_nat (length payload) else - 1),
                         updated_at = now, stream_bytes = bytes\<rparr>;
              stored = r\<lparr>streams := AList.update key stream' (streams r)\<rparr>
          in
          if length bytes < 2 then (stored, Ok None)
          else
            let message_len = unat (from_be_bytes [bytes ! 0, bytes ! 1] :: u16) in
            if message_len = 0 \<or> message_len > max_message_bytes r
            then (drop_stream key r, Err InvalidFraming)
            else if length bytes < message_len + 2 then (stored, Ok None)
            else if length bytes \<noteq> message_len + 2 then (drop_stream key r, Err InvalidFraming)
            else (drop_stream key r, Ok (Some (drop 2 bytes))))"

record tcp_segment =
  seg_key :: tcp_dns_stream_key
  seg_sequence :: u32
  seg_payload :: "u8 list"
  seg_time :: instant

definition tcp_step ::
    "tcp_dns_reassembler \<Rightarrow> tcp_segment \<Rightarrow>
       tcp_dns_reassembler \<times> (u8 list option, tcp_reassembly_error) result" where
  "tcp_step r s = tcp_push (seg_key s) (seg_sequence s) (seg_payload s) (seg_time s) r"

section \<open>Bounds\<close>

text \<open>
  A stored stream holds an unfinished message: fewer bytes than its length prefix announces,
  and never more than the largest message with its prefix.
\<close>

definition unfinished :: "nat \<Rightarrow> u8 list \<Rightarrow> bool" where
  "unfinished max_b bytes \<longleftrightarrow>
     bytes \<noteq> [] \<and> length bytes \<le> max_b + 2
     \<and> (2 \<le> length bytes \<longrightarrow>
          (let n = unat (from_be_bytes [bytes ! 0, bytes ! 1] :: u16)
           in 0 < n \<and> n \<le> max_b \<and> length bytes < n + 2))"

definition tcp_inv :: "tcp_dns_reassembler \<Rightarrow> bool" where
  "tcp_inv r \<longleftrightarrow>
     distinct (keys (streams r)) \<and> length (streams r) \<le> max_streams r
     \<and> (\<forall>p \<in> set (streams r). unfinished (max_message_bytes r) (stream_bytes (snd p)))"

lemma expire_config [simp]:
  "max_streams (fst (expire now r)) = max_streams r"
  "max_message_bytes (fst (expire now r)) = max_message_bytes r"
  "tcp_timeout (fst (expire now r)) = tcp_timeout r"
  by (simp_all add: expire_def Let_def)

lemma expire_inv: "tcp_inv r \<Longrightarrow> tcp_inv (fst (expire now r))"
  by (auto simp: tcp_inv_def expire_def Let_def intro: order_trans [OF length_filter_le])

lemma drop_stream_inv: "tcp_inv r \<Longrightarrow> tcp_inv (drop_stream key r)"
  by (auto simp: tcp_inv_def drop_stream_def delete_filter intro: order_trans [OF length_filter_le])

lemma store_inv:
  assumes "tcp_inv r" "contains_key (streams r) key \<or> length (streams r) < max_streams r"
    and "unfinished (max_message_bytes r) (stream_bytes s)"
  shows "tcp_inv (r\<lparr>streams := AList.update key s (streams r)\<rparr>)"
  using assms set_update_subset [of key s "streams r"]
  by (auto simp: tcp_inv_def length_update contains_key_iff)

lemma tcp_push_inv: "tcp_inv r \<Longrightarrow> tcp_inv (fst (tcp_push key seq payload now r))"
  using expire_inv [of r now]
  by (auto simp: tcp_push_def Let_def drop_stream_inv unfinished_def intro!: store_inv
      split: option.splits)

interpretation tcp: machine tcp_step tcp_inv
  by unfold_locales (simp add: tcp_step_def tcp_push_inv)

text \<open>TCP reassembly uses bounded memory. Whatever segments arrive at a new reassembler, it never
  holds more than \<open>max_streams\<close> streams, no stream occurs twice, and no stream ever holds more
  bytes than the largest accepted message and its two-byte prefix; a stream that holds two bytes
  or more is still waiting for bytes its prefix announces.\<close>

theorem tcp_reassembly_bounded:
  assumes "r = fst (run tcp_step (tcp_dns_reassembler_new max_s max_b timeout) segs)"
  shows "length (streams r) \<le> max_streams r \<and> distinct (keys (streams r))
    \<and> (\<forall>p \<in> set (streams r). unfinished (max_message_bytes r) (stream_bytes (snd p)))"
proof -
  have "tcp_inv (tcp_dns_reassembler_new max_s max_b timeout)"
    by (simp add: tcp_inv_def tcp_dns_reassembler_new_def)
  then have "tcp_inv r" unfolding assms by (rule tcp.run_inv)
  then show ?thesis by (simp add: tcp_inv_def)
qed

theorem tcp_reassembly_bounded_witness:
  "let segs = [\<lparr>seg_key = \<lparr>key_cgroup = 1, key_cookie = 2, key_direction = 1\<rparr>, seg_sequence = 9,
                seg_payload = [0, 3, 65], seg_time = 0\<rparr>];
       r = fst (run tcp_step (tcp_dns_reassembler_new 2 512 5) segs)
   in length (streams r) = 1 \<and> length (streams r) \<le> max_streams r
      \<and> (\<forall>p \<in> set (streams r). unfinished (max_message_bytes r) (stream_bytes (snd p)))"
proof -
  let ?segs = "[\<lparr>seg_key = \<lparr>key_cgroup = 1, key_cookie = 2, key_direction = 1\<rparr>, seg_sequence = 9,
                seg_payload = [0, 3, 65], seg_time = 0\<rparr>]"
  let ?r = "fst (run tcp_step (tcp_dns_reassembler_new 2 512 5) ?segs)"
  have "length (streams ?r) = 1"
    by (simp add: tcp_step_def tcp_push_def tcp_dns_reassembler_new_def Let_def expire_def
        contains_key_def from_be_bytes_def be_nat_def)
  then show ?thesis unfolding Let_def using tcp_reassembly_bounded [OF refl, of 2 512 5 ?segs] by blast
qed

section \<open>Reassembly of a framed message\<close>

definition frame :: "u8 list \<Rightarrow> u8 list" where
  "frame msg = to_be_bytes 2 (of_nat (length msg) :: u16) @ msg"

fun segments :: "tcp_dns_stream_key \<Rightarrow> u32 \<Rightarrow> (u8 list \<times> instant) list \<Rightarrow> tcp_segment list" where
  "segments key seq [] = []"
| "segments key seq ((payload, t) # rest) =
     \<lparr>seg_key = key, seg_sequence = seq, seg_payload = payload, seg_time = t\<rparr>
       # segments key (seq + of_nat (length payload)) rest"

fun in_time :: "duration \<Rightarrow> instant \<Rightarrow> (u8 list \<times> instant) list \<Rightarrow> bool" where
  "in_time timeout t0 [] = True"
| "in_time timeout t0 ((payload, t) # rest) = (t - t0 < timeout \<and> in_time timeout t rest)"

text \<open>The stream, as the reassembler sees it at the time of the next segment, has collected
  \<open>bytes\<close>.\<close>

definition stream_at ::
    "tcp_dns_reassembler \<Rightarrow> tcp_dns_stream_key \<Rightarrow> instant \<Rightarrow> u32 \<Rightarrow> u8 list \<Rightarrow> bool" where
  "stream_at r key now seq bytes \<longleftrightarrow>
     distinct (keys (streams r)) \<and>
     (let r' = fst (expire now r) in
      (bytes = [] \<and> map_of (streams r') key = None \<and> length (streams r') < max_streams r')
      \<or> (\<exists>s. map_of (streams r') key = Some s \<and> next_seq s = seq \<and> stream_bytes s = bytes))"

lemma frame_prefix_length:
  assumes "length msg < 2 ^ 16" "xs @ ys = frame msg" "2 \<le> length xs"
  shows "unat (from_be_bytes [xs ! 0, xs ! 1] :: u16) = length msg"
proof -
  have "[xs ! 0, xs ! 1] = take 2 (xs @ ys)"
    using assms(3) by (cases xs; cases "tl xs") auto
  also have "\<dots> = to_be_bytes 2 (of_nat (length msg) :: u16)" by (simp add: assms(2) frame_def)
  finally have "(from_be_bytes [xs ! 0, xs ! 1] :: u16) = of_nat (length msg)"
    by (simp add: from_to_be_bytes)
  then show ?thesis using assms(1) by (simp add: unat_of_nat_small)
qed

lemma tcp_push_frame:
  assumes st: "stream_at r key now seq bytes" and fr: "bytes @ payload @ rest = frame msg"
    and msg: "1 \<le> length msg" "length msg \<le> max_message_bytes r" "length msg < 2 ^ 16"
    and ne: "payload \<noteq> []"
  defines "r' \<equiv> fst (tcp_push key seq payload now r)"
  shows "rest \<noteq> [] \<Longrightarrow> snd (tcp_push key seq payload now r) = Ok None
      \<and> map_of (streams r') key = Some \<lparr>next_seq = seq + of_nat (length payload),
            updated_at = now, stream_bytes = bytes @ payload\<rparr>"
    and "rest = [] \<Longrightarrow> snd (tcp_push key seq payload now r) = Ok (Some msg)
      \<and> map_of (streams r') key = None"
    and "distinct (keys (streams r')) \<and> tcp_timeout r' = tcp_timeout r
      \<and> max_message_bytes r' = max_message_bytes r"
proof -
  let ?e = "fst (expire now r)"
  let ?b = "bytes @ payload"
  have len: "length ?b + length rest = length msg + 2"
    using arg_cong [OF fr, of length] by (simp add: frame_def)
  have drp: "drop 2 ?b = msg" if "rest = []" using fr that by (simp add: frame_def)
  have "msg \<noteq> []" using msg(1) by auto
  have small: "length payload < 2 ^ 32" "length bytes + length payload \<le> max_message_bytes r + 2"
    using len msg by auto
  have mlen: "unat (from_be_bytes [?b ! 0, ?b ! 1] :: u16) = length msg" if "2 \<le> length ?b"
    using frame_prefix_length [OF msg(3), of ?b rest] fr that by simp
  have dist: "distinct (keys (streams ?e))"
    using st by (simp add: stream_at_def expire_def Let_def)
  have room: "\<not> (\<not> contains_key (streams ?e) key \<and> length (streams ?e) \<ge> max_streams ?e)"
    using st by (auto simp: stream_at_def Let_def contains_key_def)
  define s where "s = (case map_of (streams ?e) key of Some s \<Rightarrow> s
      | None \<Rightarrow> \<lparr>next_seq = seq, updated_at = now, stream_bytes = []\<rparr>)"
  have s: "next_seq s = seq" "stream_bytes s = bytes"
    using st by (auto simp: stream_at_def Let_def s_def)
  have push: "tcp_push key seq payload now r =
      (if length ?b < length msg + 2
       then (?e\<lparr>streams := AList.update key \<lparr>next_seq = seq + of_nat (length payload),
              updated_at = now, stream_bytes = ?b\<rparr> (streams ?e)\<rparr>, Ok None)
       else (drop_stream key ?e, Ok (Some (drop 2 ?b))))"
    unfolding tcp_push_def Let_def s_def [symmetric]
    using room ne s small msg(1,2) \<open>msg \<noteq> []\<close> mlen len by simp
  show "rest \<noteq> [] \<Longrightarrow> snd (tcp_push key seq payload now r) = Ok None
      \<and> map_of (streams r') key = Some \<lparr>next_seq = seq + of_nat (length payload),
            updated_at = now, stream_bytes = ?b\<rparr>"
  proof -
    assume "rest \<noteq> []"
    then have "0 < length rest" by simp
    with len have "length ?b < length msg + 2" by linarith
    then show ?thesis by (simp add: r'_def push)
  qed
  show "rest = [] \<Longrightarrow> snd (tcp_push key seq payload now r) = Ok (Some msg)
      \<and> map_of (streams r') key = None"
    using len drp by (simp add: r'_def push drop_stream_def)
  show "distinct (keys (streams r')) \<and> tcp_timeout r' = tcp_timeout r
      \<and> max_message_bytes r' = max_message_bytes r"
    using dist by (simp add: r'_def push drop_stream_def)
qed

lemma tcp_step_segment:
  "tcp_step r \<lparr>seg_key = k, seg_sequence = q, seg_payload = p, seg_time = t\<rparr> = tcp_push k q p t r"
  by (simp add: tcp_step_def)

lemma tcp_run_frame:
  assumes msg: "1 \<le> length msg" "length msg \<le> max_message_bytes r" "length msg < 2 ^ 16"
  shows "segs \<noteq> [] \<Longrightarrow> \<forall>p \<in> set segs. fst p \<noteq> [] \<Longrightarrow> bytes @ concat (map fst segs) = frame msg \<Longrightarrow>
    stream_at r key (snd (hd segs)) seq bytes \<Longrightarrow> in_time (tcp_timeout r) (snd (hd segs)) (tl segs) \<Longrightarrow>
    snd (run tcp_step r (segments key seq segs)) = replicate (length segs - 1) (Ok None) @ [Ok (Some msg)]
    \<and> map_of (streams (fst (run tcp_step r (segments key seq segs)))) key = None"
  using msg
proof (induction segs arbitrary: r seq bytes)
  case (Cons p segs)
  obtain payload t where p: "p = (payload, t)" by (cases p)
  let ?r = "fst (tcp_push key seq payload t r)"
  have st: "stream_at r key t seq bytes" and fr: "bytes @ payload @ concat (map fst segs) = frame msg"
    and ne: "payload \<noteq> []"
    using Cons.prems p by auto
  note push = tcp_push_frame [OF st fr Cons.prems(6-8) ne]
  show ?case
  proof (cases segs)
    case Nil
    with push(2) show ?thesis by (simp add: p tcp_step_segment)
  next
    case (Cons q segs')
    obtain payload' t' where q: "q = (payload', t')" by (cases q)
    have "concat (map fst segs) \<noteq> []" using Cons.prems(2) Cons q by auto
    note stored = push(1) [OF this]
    have "t' - t < tcp_timeout r" "in_time (tcp_timeout r) t' segs'"
      using Cons.prems(5) Cons p q by simp_all
    with stored push(3) have "stream_at ?r key t' (seq + of_nat (length payload)) (bytes @ payload)"
      by (auto simp: stream_at_def expire_def Let_def map_of_filter_distinct)
    then have "snd (run tcp_step ?r (segments key (seq + of_nat (length payload)) segs))
          = replicate (length segs - 1) (Ok None) @ [Ok (Some msg)]
        \<and> map_of (streams (fst (run tcp_step ?r (segments key (seq + of_nat (length payload)) segs)))) key = None"
      using Cons.prems fr Cons q push(3) \<open>in_time (tcp_timeout r) t' segs'\<close>
      by (intro Cons.IH) auto
    with stored show ?thesis by (simp add: p tcp_step_segment Cons)
  qed
qed simp

text \<open>C23: TCP reassembly delivers the message. Take any message of at least one and at most
  \<open>max_message_bytes\<close> bytes (and less than \<open>2^16\<close>), written with its two-byte length prefix, cut
  in any way into non-empty segments that arrive in order with consecutive sequence numbers
  (wrapping at \<open>2^32\<close>) and no gap of \<open>timeout\<close> or more between them, on a stream the reassembler
  does not know and has room for: every segment but the last returns nothing, the last returns
  exactly the message, and the stream is forgotten.\<close>

theorem tcp_reassembly_delivers:
  assumes "1 \<le> length msg" "length msg \<le> max_message_bytes r" "length msg < 2 ^ 16"
    and "segs \<noteq> []" "\<forall>p \<in> set segs. fst p \<noteq> []" "concat (map fst segs) = frame msg"
    and "distinct (keys (streams r))" "map_of (streams r) key = None" "length (streams r) < max_streams r"
    and "in_time (tcp_timeout r) (snd (hd segs)) (tl segs)"
  shows "snd (run tcp_step r (segments key seq segs))
      = replicate (length segs - 1) (Ok None) @ [Ok (Some msg)]
    \<and> map_of (streams (fst (run tcp_step r (segments key seq segs)))) key = None"
proof (rule tcp_run_frame [where bytes = "[]"])
  have "length (streams (fst (expire (snd (hd segs)) r))) \<le> length (streams r)"
    by (simp add: expire_def Let_def)
  with assms(7-9) show "stream_at r key (snd (hd segs)) seq []"
    by (simp add: stream_at_def expire_def Let_def map_of_filter_distinct
        le_less_trans [OF length_filter_le])
qed (use assms in auto)

theorem tcp_reassembly_delivers_witness:
  "let r = tcp_dns_reassembler_new 1 512 5;
       k = \<lparr>key_cgroup = 1, key_cookie = 2, key_direction = 1\<rparr>
   in snd (run tcp_step r (segments k 0xffffffff [([0], 10), ([3, 65], 12), ([66, 67], 16)]))
      = [Ok None, Ok None, Ok (Some [65, 66, 67])]"
proof -
  let ?segs = "[([0], 10), ([3, 65], 12), ([66, 67], 16)] :: (u8 list \<times> nat) list"
  let ?k = "\<lparr>key_cgroup = 1, key_cookie = 2, key_direction = 1\<rparr>"
  let ?r = "tcp_dns_reassembler_new 1 512 5"
  have "concat (map fst ?segs) = frame [65, 66, 67]"
    by (simp add: frame_def to_be_bytes_def be_bytes_two)
  then have "snd (run tcp_step ?r (segments ?k 0xffffffff ?segs))
      = replicate (length ?segs - 1) (Ok None) @ [Ok (Some [65, 66, 67])]"
    using tcp_reassembly_delivers [of "[65, 66, 67]" ?r ?segs ?k "0xffffffff"]
    by (simp add: tcp_dns_reassembler_new_def del: segments.simps run_Cons)
  moreover have "replicate (length ?segs - 1) x = [x, x]" for x :: "(u8 list option, tcp_reassembly_error) result"
    by (simp add: numeral_2_eq_2)
  ultimately show ?thesis unfolding Let_def by (simp only: append_Cons append_Nil)
qed

end
