(* ===== verification/Dns_State.thy ===== *)
theory Dns_State
  imports Event_Base "HOL-Library.List_Lexorder" "HOL-Library.Char_ord"
begin

text \<open>
  Correlation of DNS queries with responses and the cache of observed names
  (\<open>crates/agent/src/dns_state.rs\<close>). \<open>pending\<close> maps a query to the process that sent it,
  \<open>pending_order\<close> is the registration order that \<open>expire_pending\<close> consumes from the front, and
  \<open>addresses\<close> remembers, per control group and address, which names resolved to it.

  The lemmas show the bounds of the tables, that a response finds its query through any
  interleaving of other traffic within the timeout and at most once, and what a DNS context
  contains. Two further theorems show what re-registering a query does to the order queue.
\<close>

record pending_query_key =
  pk_cgroup :: u64
  pk_transport :: dns_transport
  pk_resolver :: ip_addr
  pk_transaction_id :: u16
  pk_name :: dns_name
  pk_query_type :: dns_query_type

record pending_query =
  created_at :: instant
  query_process :: process_identity

record cached_name =
  cached :: dns_name
  observed_at :: datetime
  expires_at :: datetime

record dns_state =
  pending :: "(pending_query_key \<times> pending_query) list"
  pending_order :: "pending_query_key list"
  addresses :: "((u64 \<times> ip_addr) \<times> cached_name list) list"
  max_pending :: nat
  max_names_per_address :: nat
  transaction_timeout :: duration
  max_ttl :: duration

datatype correlation_outcome = Matched | Miss

definition dns_state_new :: "nat \<Rightarrow> nat \<Rightarrow> duration \<Rightarrow> duration \<Rightarrow> dns_state" where
  "dns_state_new max_p max_n timeout ttl =
     \<lparr>pending = [], pending_order = [], addresses = [], max_pending = max_p,
      max_names_per_address = max_n, transaction_timeout = timeout, max_ttl = ttl\<rparr>"

fun expire_loop ::
    "instant \<Rightarrow> duration \<Rightarrow> pending_query_key list \<Rightarrow> (pending_query_key \<times> pending_query) list \<Rightarrow>
       pending_query_key list \<times> (pending_query_key \<times> pending_query) list" where
  "expire_loop now timeout [] m = ([], m)"
| "expire_loop now timeout (key # rest) m =
     (case map_of m key of
        None \<Rightarrow> expire_loop now timeout rest m
      | Some p \<Rightarrow>
          if now - created_at p < timeout then (key # rest, m)
          else expire_loop now timeout rest (AList.delete key m))"

definition expire_pending :: "instant \<Rightarrow> dns_state \<Rightarrow> dns_state" where
  "expire_pending now s =
     (case expire_loop now (transaction_timeout s) (pending_order s) (pending s) of
        (ord, m) \<Rightarrow> s\<lparr>pending_order := ord, pending := m\<rparr>)"

definition register_query ::
    "pending_query_key \<Rightarrow> process_identity \<Rightarrow> instant \<Rightarrow> dns_state \<Rightarrow> dns_state \<times> bool" where
  "register_query key process now s0 =
     (let s = expire_pending now s0 in
      if length (pending s) \<ge> max_pending s then (s, False)
      else (s\<lparr>pending := AList.update key \<lparr>created_at = now, query_process = process\<rparr> (pending s),
              pending_order := pending_order s @ [key]\<rparr>, True))"

definition nanos :: "u32 \<Rightarrow> duration" where
  "nanos secs = unat secs * 1000000000"

text \<open>\<open>chrono::Duration::from_std\<close> cannot fail here: \<open>2^32\<close> seconds are within its range.\<close>

definition cache_answer ::
    "pending_query_key \<Rightarrow> datetime \<Rightarrow> dns_address_answer \<Rightarrow> dns_state \<Rightarrow> dns_state" where
  "cache_answer key obs answer s =
     (let delta = min (nanos (ans_ttl answer)) (max_ttl s);
          slot = (pk_cgroup key, ans_address answer);
          old = (case map_of (addresses s) slot of None \<Rightarrow> [] | Some es \<Rightarrow> es);
          kept = filter (\<lambda>c. expires_at c > obs \<and> cached c \<noteq> pk_name key) old;
          new = (if length kept < max_names_per_address s
                 then kept @ [\<lparr>cached = pk_name key, observed_at = obs, expires_at = obs + int delta\<rparr>]
                 else kept)
      in s\<lparr>addresses := AList.update slot new (addresses s)\<rparr>)"

definition correlate_response ::
    "pending_query_key \<Rightarrow> network_dns_response \<Rightarrow> instant \<Rightarrow> datetime \<Rightarrow> dns_state \<Rightarrow>
       dns_state \<times> (process_identity, correlation_outcome) result" where
  "correlate_response key response now obs s0 =
     (let s = expire_pending now s0 in
      case map_of (pending s) key of
        None \<Rightarrow> (s, Err Miss)
      | Some p \<Rightarrow>
          (fold (cache_answer key obs) (r_answers response)
             (s\<lparr>pending := AList.delete key (pending s)\<rparr>), Ok (query_process p)))"

fun dedup_names :: "cached_name list \<Rightarrow> cached_name list" where
  "dedup_names [] = []"
| "dedup_names [c] = [c]"
| "dedup_names (c # d # cs) =
     (if cached d = cached c then dedup_names (c # cs) else c # dedup_names (d # cs))"

definition context_for :: "u64 \<Rightarrow> ip_addr \<Rightarrow> datetime \<Rightarrow> dns_state \<Rightarrow> dns_state \<times> dns_context option" where
  "context_for cgroup address now s =
     (let slot = (cgroup, address) in
      case map_of (addresses s) slot of
        None \<Rightarrow> (s, None)
      | Some old \<Rightarrow>
          let live = filter (\<lambda>c. expires_at c > now) old in
          if live = [] then (s\<lparr>addresses := AList.delete slot (addresses s)\<rparr>, None)
          else
            let vs = dedup_names (sort_key (\<lambda>c. dns_str (cached c)) live);
                names = map cached vs;
                obs = Max (observed_at ` set vs);
                ex = Min (expires_at ` set vs)
            in (s\<lparr>addresses := AList.update slot vs (addresses s)\<rparr>,
                res_ok (dns_context_new names obs ex)))"

datatype dns_op =
    Register pending_query_key process_identity instant
  | Correlate pending_query_key network_dns_response instant datetime
  | ContextFor u64 ip_addr datetime

datatype dns_out =
    Registered bool
  | Correlated "(process_identity, correlation_outcome) result"
  | Context "dns_context option"

fun dns_step :: "dns_state \<Rightarrow> dns_op \<Rightarrow> dns_state \<times> dns_out" where
  "dns_step s (Register key process now) = map_prod id Registered (register_query key process now s)"
| "dns_step s (Correlate key response now obs) =
     map_prod id Correlated (correlate_response key response now obs s)"
| "dns_step s (ContextFor cgroup address now) = map_prod id Context (context_for cgroup address now s)"

section \<open>Expiry\<close>

lemma expire_loop_sub:
  "expire_loop now timeout ord m = (ord', m') \<Longrightarrow>
     set ord' \<subseteq> set ord \<and> map_of m' \<subseteq>\<^sub>m map_of m \<and> length m' \<le> length m
     \<and> (distinct (keys m) \<longrightarrow> distinct (keys m'))"
proof (induction now timeout ord m rule: expire_loop.induct)
  case (1 now timeout m)
  then show ?case by simp
next
  case (2 now timeout key rest m)
  show ?case
  proof (cases "map_of m key")
    case None
    with 2 show ?thesis by auto
  next
    case (Some p)
    show ?thesis
    proof (cases "now - created_at p < timeout")
      case True
      with 2 Some show ?thesis by auto
    next
      case False
      have "expire_loop now timeout rest (AList.delete key m) = (ord', m')"
        using "2.prems" Some False by simp
      note "2.IH"(2) [OF Some False this]
      moreover have "map_of (AList.delete key m) \<subseteq>\<^sub>m map_of m" by (simp add: map_le_def)
      moreover have "length (AList.delete key m) \<le> length m" by (rule AList.length_delete_le)
      ultimately show ?thesis
        by (auto simp del: map_of_delete_upd intro: map_le_trans)
    qed
  qed
qed

text \<open>An entry younger than the timeout survives.\<close>

lemma expire_loop_keeps:
  "map_of m key = Some p \<Longrightarrow> now - created_at p < timeout \<Longrightarrow>
     map_of (snd (expire_loop now timeout ord m)) key = Some p"
proof (induction now timeout ord m rule: expire_loop.induct)
  case (2 now timeout k rest m)
  then show ?case by (cases "k = key") (auto split: option.splits)
qed simp

text \<open>Every entry of the map stays reachable from the order queue.\<close>

lemma expire_loop_covered:
  "set (keys m) \<subseteq> set ord \<Longrightarrow>
     set (keys (snd (expire_loop now timeout ord m))) \<subseteq> set (fst (expire_loop now timeout ord m))"
proof (induction now timeout ord m rule: expire_loop.induct)
  case (2 now timeout key rest m)
  show ?case
  proof (cases "map_of m key")
    case None
    then have "set (keys m) \<subseteq> set rest" using "2.prems" by (auto simp: map_of_eq_None_iff)
    with 2 None show ?thesis by simp
  next
    case (Some p)
    have "set (keys (AList.delete key m)) \<subseteq> set rest"
      using "2.prems" set_keys_delete [of key m] by auto
    with 2 Some show ?thesis by (simp del: set_map)
  qed
qed simp

lemma expire_pending_fields [simp]:
  "addresses (expire_pending now s) = addresses s"
  "max_pending (expire_pending now s) = max_pending s"
  "max_names_per_address (expire_pending now s) = max_names_per_address s"
  "transaction_timeout (expire_pending now s) = transaction_timeout s"
  "max_ttl (expire_pending now s) = max_ttl s"
  by (simp_all add: expire_pending_def split: prod.splits)

lemma expire_pending_keeps:
  "map_of (pending s) key = Some p \<Longrightarrow> now - created_at p < transaction_timeout s \<Longrightarrow>
     map_of (pending (expire_pending now s)) key = Some p"
  using expire_loop_keeps [of "pending s" key p now "transaction_timeout s" "pending_order s"]
  by (simp add: expire_pending_def case_prod_beta)

lemma fold_cache_fields [simp]:
  "pending (fold (cache_answer key obs) as s) = pending s"
  "pending_order (fold (cache_answer key obs) as s) = pending_order s"
  "max_pending (fold (cache_answer key obs) as s) = max_pending s"
  "max_names_per_address (fold (cache_answer key obs) as s) = max_names_per_address s"
  "transaction_timeout (fold (cache_answer key obs) as s) = transaction_timeout s"
  "max_ttl (fold (cache_answer key obs) as s) = max_ttl s"
  by (induction as arbitrary: s) (auto simp: cache_answer_def Let_def)

section \<open>Table invariant\<close>

definition entry_ok :: "dns_state \<Rightarrow> cached_name list \<Rightarrow> bool" where
  "entry_ok s es \<longleftrightarrow>
     length es \<le> max_names_per_address s \<and> distinct (map cached es) \<and>
     (\<forall>c \<in> set es. observed_at c \<le> expires_at c \<and> expires_at c \<le> observed_at c + int (max_ttl s))"

definition dns_inv :: "dns_state \<Rightarrow> bool" where
  "dns_inv s \<longleftrightarrow>
     distinct (keys (pending s)) \<and> length (pending s) \<le> max_pending s \<and>
     set (keys (pending s)) \<subseteq> set (pending_order s) \<and> distinct (keys (addresses s)) \<and>
     (\<forall>slot es. map_of (addresses s) slot = Some es \<longrightarrow> entry_ok s es)"

lemma dns_inv_new: "dns_inv (dns_state_new max_p max_n timeout ttl)"
  by (simp add: dns_inv_def dns_state_new_def)

lemma entry_ok_filter: "entry_ok s es \<Longrightarrow> entry_ok s (filter P es)"
  by (auto simp: entry_ok_def distinct_map_filter intro: order_trans [OF length_filter_le])

lemma expire_pending_inv: "dns_inv s \<Longrightarrow> dns_inv (expire_pending now s)"
  using expire_loop_sub [of now "transaction_timeout s" "pending_order s" "pending s"]
    expire_loop_covered [of "pending s" "pending_order s" now "transaction_timeout s"]
  by (auto simp: dns_inv_def expire_pending_def entry_ok_def simp del: set_map split: prod.splits)

lemma register_query_inv: "dns_inv s \<Longrightarrow> dns_inv (fst (register_query key process now s))"
  using expire_pending_inv [of s now]
  by (auto simp: register_query_def Let_def dns_inv_def entry_ok_def length_update
      set_keys_update simp del: set_map)

lemma dns_inv_update_address:
  "dns_inv s \<Longrightarrow> entry_ok s es \<Longrightarrow> dns_inv (s\<lparr>addresses := AList.update slot es (addresses s)\<rparr>)"
  by (simp add: dns_inv_def entry_ok_def del: set_map)

lemma cache_answer_inv:
  assumes "dns_inv s"
  shows "dns_inv (cache_answer key obs answer s)"
proof -
  define kept where "kept = filter (\<lambda>c. expires_at c > obs \<and> cached c \<noteq> pk_name key)
    (case map_of (addresses s) (pk_cgroup key, ans_address answer) of None \<Rightarrow> [] | Some es \<Rightarrow> es)"
  have "entry_ok s (case map_of (addresses s) (pk_cgroup key, ans_address answer) of
      None \<Rightarrow> [] | Some es \<Rightarrow> es)"
    using assms by (auto simp: dns_inv_def entry_ok_def split: option.splits)
  then have kept: "entry_ok s kept" "pk_name key \<notin> cached ` set kept"
    unfolding kept_def by (rule entry_ok_filter, auto)
  then have "length kept < max_names_per_address s \<Longrightarrow>
      entry_ok s (kept @ [\<lparr>cached = pk_name key, observed_at = obs,
        expires_at = obs + int (min (nanos (ans_ttl answer)) (max_ttl s))\<rparr>])"
    by (auto simp: entry_ok_def)
  with assms kept(1) show ?thesis
    unfolding cache_answer_def Let_def kept_def [symmetric]
    by (intro dns_inv_update_address) simp_all
qed

lemma fold_cache_inv: "dns_inv s \<Longrightarrow> dns_inv (fold (cache_answer key obs) as s)"
  by (induction as arbitrary: s) (auto intro: cache_answer_inv)

lemma correlate_response_inv:
  assumes "dns_inv s"
  shows "dns_inv (fst (correlate_response key response now obs s))"
proof -
  let ?e = "expire_pending now s"
  have e: "dns_inv ?e" using assms by (rule expire_pending_inv)
  then have "dns_inv (?e\<lparr>pending := AList.delete key (pending ?e)\<rparr>)"
    using length_delete_le [of key "pending ?e"]
    by (auto simp: dns_inv_def entry_ok_def set_keys_delete simp del: set_map)
  with e show ?thesis
    by (auto simp: correlate_response_def Let_def intro: fold_cache_inv split: option.splits)
qed

lemma dedup_names_distinct: "distinct (map cached cs) \<Longrightarrow> dedup_names cs = cs"
  by (induction cs rule: dedup_names.induct) auto

lemma context_for_values:
  assumes "entry_ok s es"
  shows "entry_ok s (dedup_names (sort_key (\<lambda>c. dns_str (cached c)) (filter P es)))"
    and "dedup_names (sort_key (\<lambda>c. dns_str (cached c)) (filter P es))
           = sort_key (\<lambda>c. dns_str (cached c)) (filter P es)"
proof -
  have ok: "entry_ok s (filter P es)" using assms by (rule entry_ok_filter)
  then have "distinct (map cached (sort_key (\<lambda>c. dns_str (cached c)) (filter P es)))"
    by (simp add: entry_ok_def distinct_map)
  then show eq: "dedup_names (sort_key (\<lambda>c. dns_str (cached c)) (filter P es))
           = sort_key (\<lambda>c. dns_str (cached c)) (filter P es)" by (rule dedup_names_distinct)
  show "entry_ok s (dedup_names (sort_key (\<lambda>c. dns_str (cached c)) (filter P es)))"
    using ok by (simp add: eq entry_ok_def distinct_map)
qed

lemma context_for_inv:
  assumes inv: "dns_inv s"
  shows "dns_inv (fst (context_for cgroup address now s))"
proof (cases "map_of (addresses s) (cgroup, address)")
  case None
  with inv show ?thesis by (simp add: context_for_def)
next
  case (Some es)
  with inv have "entry_ok s es" by (simp add: dns_inv_def)
  then have "entry_ok s (dedup_names (sort_key (\<lambda>c. dns_str (cached c))
      (filter (\<lambda>c. now < expires_at c) es)))"
    by (rule context_for_values)
  with inv have "dns_inv (s\<lparr>addresses := AList.update (cgroup, address)
      (dedup_names (sort_key (\<lambda>c. dns_str (cached c)) (filter (\<lambda>c. now < expires_at c) es)))
      (addresses s)\<rparr>)" by (rule dns_inv_update_address)
  moreover have "dns_inv (s\<lparr>addresses := AList.delete (cgroup, address) (addresses s)\<rparr>)"
    using inv by (simp add: dns_inv_def entry_ok_def del: set_map)
  ultimately show ?thesis using Some by (simp add: context_for_def Let_def)
qed

interpretation dns: machine dns_step dns_inv
proof (unfold_locales)
  fix s op
  assume "dns_inv s"
  then show "dns_inv (fst (dns_step s op))"
    by (cases op) (simp_all add: register_query_inv correlate_response_inv context_for_inv)
qed

lemma dns_step_fields [simp]:
  "max_pending (fst (dns_step s op)) = max_pending s"
  "max_names_per_address (fst (dns_step s op)) = max_names_per_address s"
  "transaction_timeout (fst (dns_step s op)) = transaction_timeout s"
  "max_ttl (fst (dns_step s op)) = max_ttl s"
  by (cases op; auto simp: register_query_def correlate_response_def context_for_def Let_def
      split: option.splits)+

lemma dns_run_fields [simp]:
  "max_pending (fst (run dns_step s ops)) = max_pending s"
  "max_names_per_address (fst (run dns_step s ops)) = max_names_per_address s"
  "transaction_timeout (fst (run dns_step s ops)) = transaction_timeout s"
  "max_ttl (fst (run dns_step s ops)) = max_ttl s"
  by (induction ops arbitrary: s) simp_all

section \<open>Correlation\<close>

text \<open>Traffic that leaves a query alone: other keys, at instants within the timeout.\<close>

fun leaves_alone :: "pending_query_key \<Rightarrow> instant \<Rightarrow> duration \<Rightarrow> dns_op \<Rightarrow> bool" where
  "leaves_alone key t timeout (Register k _ now) \<longleftrightarrow> k \<noteq> key \<and> now - t < timeout"
| "leaves_alone key t timeout (Correlate k _ now _) \<longleftrightarrow> k \<noteq> key \<and> now - t < timeout"
| "leaves_alone key t timeout (ContextFor _ _ _) \<longleftrightarrow> True"

fun registers :: "pending_query_key \<Rightarrow> dns_op \<Rightarrow> bool" where
  "registers key (Register k _ _) \<longleftrightarrow> k = key"
| "registers key _ \<longleftrightarrow> False"

lemma pending_context_for [simp]:
  "pending (fst (context_for cgroup address now s)) = pending s"
  "pending_order (fst (context_for cgroup address now s)) = pending_order s"
  by (auto simp: context_for_def Let_def split: option.splits)

lemma leaves_alone_keeps:
  assumes "map_of (pending s) key = Some p"
    and "leaves_alone key (created_at p) (transaction_timeout s) op"
  shows "map_of (pending (fst (dns_step s op))) key = Some p"
  using assms expire_pending_keeps [of s key p]
  by (cases op) (auto simp: register_query_def correlate_response_def Let_def split: option.splits)

lemma leaves_alone_run:
  assumes "map_of (pending s) key = Some p"
    and "list_all (leaves_alone key (created_at p) (transaction_timeout s)) ops"
  shows "map_of (pending (fst (run dns_step s ops))) key = Some p"
  using assms by (induction ops arbitrary: s) (simp_all add: leaves_alone_keeps)

lemma pending_expire_le: "map_of (pending (expire_pending now s)) \<subseteq>\<^sub>m map_of (pending s)"
  using expire_loop_sub [of now "transaction_timeout s" "pending_order s" "pending s"]
  by (simp add: expire_pending_def split: prod.splits)

lemma map_le_SomeD: "f \<subseteq>\<^sub>m g \<Longrightarrow> f x = Some y \<Longrightarrow> g x = Some y"
  by (metis domI map_le_def)

lemma pending_expire_None:
  "map_of (pending s) key = None \<Longrightarrow> map_of (pending (expire_pending now s)) key = None"
  using pending_expire_le [of now s] by (metis domIff map_le_def not_None_eq)

lemma unregistered_step:
  "map_of (pending s) key = None \<Longrightarrow> \<not> registers key op \<Longrightarrow>
     map_of (pending (fst (dns_step s op))) key = None"
  using pending_expire_None [of s key]
  by (cases op) (auto simp: register_query_def correlate_response_def Let_def split: option.splits)

lemma unregistered_run:
  "map_of (pending s) key = None \<Longrightarrow> list_all (\<lambda>op. \<not> registers key op) ops \<Longrightarrow>
     map_of (pending (fst (run dns_step s ops))) key = None"
  by (induction ops arbitrary: s) (simp_all add: unregistered_step)

lemma response_finds_query:
  assumes reg: "register_query key process t s = (s1, True)"
    and ops: "list_all (leaves_alone key t (transaction_timeout s)) ops"
    and now: "now - t < transaction_timeout s"
    and ops2: "list_all (\<lambda>op. \<not> registers key op) ops2"
    and s2: "s2 = fst (run dns_step s1 ops)"
    and s3: "s3 = fst (correlate_response key response now obs s2)"
  shows "snd (correlate_response key response now obs s2) = Ok process
    \<and> snd (correlate_response key response' now' obs' (fst (run dns_step s3 ops2))) = Err Miss"
proof -
  let ?p = "\<lparr>created_at = t, query_process = process\<rparr>"
  have s1: "map_of (pending s1) key = Some ?p" "transaction_timeout s1 = transaction_timeout s"
    using reg by (auto simp: register_query_def Let_def split: if_splits)
  then have s2k: "map_of (pending s2) key = Some ?p" "transaction_timeout s2 = transaction_timeout s"
    using ops by (simp_all add: s2 leaves_alone_run)
  then have hit: "map_of (pending (expire_pending now s2)) key = Some ?p"
    using now by (simp add: expire_pending_keeps)
  then have "map_of (pending s3) key = None"
    by (simp add: s3 correlate_response_def Let_def)
  with ops2 have "map_of (pending (fst (run dns_step s3 ops2))) key = None"
    by (rule unregistered_run [rotated])
  then have "map_of (pending (expire_pending now' (fst (run dns_step s3 ops2)))) key = None"
    by (rule pending_expire_None)
  with hit show ?thesis by (simp add: correlate_response_def Let_def)
qed

text \<open>C24: A response is attributed to the process that asked. After \<open>register_query\<close> accepts a query
  at instant \<open>t\<close>, and after any interleaving of other queries, responses and look-ups within the
  transaction timeout, the response with the same key yields that process. A second response with
  that key, after any further traffic that does not register the key again, is a miss.
\<close>

theorem dns_response_finds_query:
  assumes reg: "register_query key process t s = (s1, True)"
    and ops: "list_all (leaves_alone key t (transaction_timeout s)) ops"
    and now: "now - t < transaction_timeout s"
    and ops2: "list_all (\<lambda>op. \<not> registers key op) ops2"
    and s2: "s2 = fst (run dns_step s1 ops)"
    and s3: "s3 = fst (correlate_response key response now obs s2)"
  shows "snd (correlate_response key response now obs s2) = Ok process
    \<and> snd (correlate_response key response' now' obs' (fst (run dns_step s3 ops2))) = Err Miss"
  using assms by (rule response_finds_query)

section \<open>Expiry in registration order\<close>

fun registered_keys :: "dns_op list \<Rightarrow> pending_query_key list" where
  "registered_keys [] = []"
| "registered_keys (Register k _ _ # ops) = k # registered_keys ops"
| "registered_keys (_ # ops) = registered_keys ops"

fun instants :: "dns_op list \<Rightarrow> instant list" where
  "instants [] = []"
| "instants (Register _ _ now # ops) = now # instants ops"
| "instants (Correlate _ _ now _ # ops) = now # instants ops"
| "instants (ContextFor _ _ _ # ops) = instants ops"

definition created_before ::
    "(pending_query_key \<times> pending_query) list \<Rightarrow> pending_query_key \<Rightarrow> pending_query_key \<Rightarrow> bool" where
  "created_before m k k' \<longleftrightarrow>
     (\<forall>p p'. map_of m k = Some p \<longrightarrow> map_of m k' = Some p' \<longrightarrow> created_at p \<le> created_at p')"

definition in_order :: "(pending_query_key \<times> pending_query) list \<Rightarrow> pending_query_key list \<Rightarrow> bool" where
  "in_order m ord \<longleftrightarrow> sorted_wrt (created_before m) ord \<and> set (keys m) \<subseteq> set ord"

lemma created_before_mono: "map_of m' \<subseteq>\<^sub>m map_of m \<Longrightarrow> created_before m k k' \<Longrightarrow> created_before m' k k'"
  unfolding created_before_def by (metis domI map_le_def)

lemma sorted_before_mono:
  "map_of m' \<subseteq>\<^sub>m map_of m \<Longrightarrow> sorted_wrt (created_before m) ord \<Longrightarrow> sorted_wrt (created_before m') ord"
  by (erule sorted_wrt_mono_rel [rotated]) (rule created_before_mono)

lemma expire_loop_in_order:
  "sorted_wrt (created_before m) ord \<Longrightarrow> set (keys m) \<subseteq> set ord \<Longrightarrow>
   expire_loop now timeout ord m = (ord', m') \<Longrightarrow>
     sorted_wrt (created_before m') ord' \<and>
     (\<forall>k p. map_of m' k = Some p \<longrightarrow> now - created_at p < timeout)"
proof (induction now timeout ord m rule: expire_loop.induct)
  case (1 now timeout m)
  then show ?case by auto
next
  case (2 now timeout key rest m)
  show ?case
  proof (cases "map_of m key")
    case None
    then have "set (keys m) \<subseteq> set rest" using "2.prems" by (auto simp: map_of_eq_None_iff)
    then show ?thesis using "2.IH"(1) [OF None] "2.prems" None by simp
  next
    case (Some p)
    show ?thesis
    proof (cases "now - created_at p < timeout")
      case False
      have "set (keys (AList.delete key m)) \<subseteq> set rest"
        using "2.prems"(2) set_keys_delete [of key m] by auto
      moreover have sub: "map_of (AList.delete key m) \<subseteq>\<^sub>m map_of m" by (simp add: map_le_def)
      have "sorted_wrt (created_before m) rest" using "2.prems"(1) by simp
      note sorted_before_mono [OF sub this]
      ultimately show ?thesis
        using "2.IH"(2) [OF Some False] "2.prems" Some False by simp
    next
      case True
      have "now - created_at q < timeout" if "map_of m k = Some q" for k q
      proof -
        have "k \<in> set (keys m)" using that by (metis map_of_eq_None_iff option.distinct(1) set_map)
        then have "k = key \<or> k \<in> set rest" using "2.prems"(2) by auto
        then have "created_at p \<le> created_at q"
          using "2.prems"(1) Some that by (auto simp: created_before_def)
        with True show ?thesis by linarith
      qed
      with True Some "2.prems" show ?thesis by auto
    qed
  qed
qed

lemma expire_pending_in_order:
  assumes "in_order (pending s) (pending_order s)"
  shows "in_order (pending (expire_pending now s)) (pending_order (expire_pending now s))"
    and "map_of (pending (expire_pending now s)) k = Some p \<Longrightarrow> now - created_at p < transaction_timeout s"
  using assms expire_loop_in_order [of "pending s" "pending_order s" now "transaction_timeout s"]
    expire_loop_covered [of "pending s" "pending_order s" now "transaction_timeout s"]
  by (auto simp: in_order_def expire_pending_def simp del: set_map split: prod.splits)

lemma expire_pending_order_sub: "set (pending_order (expire_pending now s)) \<subseteq> set (pending_order s)"
  using expire_loop_sub [of now "transaction_timeout s" "pending_order s" "pending s"]
  by (auto simp: expire_pending_def split: prod.splits)

text \<open>What the state knows of the registrations so far: each entry is the accepted query.\<close>

definition order_inv :: "instant \<Rightarrow> (pending_query_key \<times> process_identity \<times> instant) set \<Rightarrow> dns_state \<Rightarrow> bool" where
  "order_inv t log s \<longleftrightarrow> in_order (pending s) (pending_order s) \<and>
     set (pending_order s) \<subseteq> fst ` log \<and>
     (\<forall>k p. map_of (pending s) k = Some p \<longrightarrow>
        created_at p \<le> t \<and> (k, query_process p, created_at p) \<in> log)"

lemma order_inv_expire: "order_inv t log s \<Longrightarrow> order_inv t log (expire_pending now s)"
  using expire_pending_order_sub [of now s] map_le_SomeD [OF pending_expire_le [of now s]]
    expire_pending_in_order(1) [of s now]
  unfolding order_inv_def by (blast intro: order_trans)

lemma order_inv_mono: "order_inv t log s \<Longrightarrow> t \<le> t' \<Longrightarrow> log \<subseteq> log' \<Longrightarrow> order_inv t' log' s"
  unfolding order_inv_def by (blast intro: order_trans)

lemma in_order_register:
  assumes "in_order m ord" and fresh: "key \<notin> set ord"
    and "\<And>k p. map_of m k = Some p \<Longrightarrow> created_at p \<le> created_at q"
  shows "in_order (AList.update key q m) (ord @ [key])"
proof -
  have "sorted_wrt (created_before m) ord" using assms(1) by (simp add: in_order_def)
  then have "sorted_wrt (created_before (AList.update key q m)) ord"
    by (rule sorted_wrt_mono_rel [rotated]) (use fresh in \<open>auto simp: created_before_def\<close>)
  then show ?thesis
    using assms by (auto simp: in_order_def sorted_wrt_append created_before_def set_keys_update
        simp del: set_map)
qed

lemma order_inv_register:
  assumes "order_inv t log s" and "t \<le> now" and fresh: "key \<notin> fst ` log"
  shows "order_inv now (insert (key, process, now) log) (fst (register_query key process now s))"
proof -
  let ?s = "expire_pending now s"
  have e: "order_inv now log ?s"
    using assms(1,2) by (blast intro: order_inv_expire order_inv_mono)
  then have "in_order (AList.update key \<lparr>created_at = now, query_process = process\<rparr> (pending ?s))
      (pending_order ?s @ [key])"
    using fresh by (intro in_order_register) (auto simp: order_inv_def)
  with e show ?thesis
    by (auto simp: register_query_def Let_def order_inv_def)
qed

lemma order_inv_correlate:
  assumes "order_inv t log s" and "t \<le> now"
  shows "order_inv now log (fst (correlate_response key response now obs s))"
proof -
  let ?s = "expire_pending now s"
  have e: "order_inv now log ?s"
    using assms by (blast intro: order_inv_expire order_inv_mono)
  have sub: "map_of (AList.delete key (pending ?s)) \<subseteq>\<^sub>m map_of (pending ?s)" by (simp add: map_le_def)
  have "in_order (AList.delete key (pending ?s)) (pending_order ?s)"
    using e sorted_before_mono [OF sub] set_keys_delete [of key "pending ?s"]
    by (auto simp: order_inv_def in_order_def simp del: set_map)
  with e show ?thesis
    by (auto simp: correlate_response_def Let_def order_inv_def split: option.splits if_splits)
qed

fun registrations :: "dns_op list \<Rightarrow> (pending_query_key \<times> process_identity \<times> instant) set" where
  "registrations [] = {}"
| "registrations (Register k process now # ops) = insert (k, process, now) (registrations ops)"
| "registrations (_ # ops) = registrations ops"

lemma order_inv_run:
  assumes "order_inv t log s" and "distinct (registered_keys ops)"
    and "set (registered_keys ops) \<inter> fst ` log = {}" and "sorted (t # instants ops)"
  shows "order_inv (last (t # instants ops)) (log \<union> registrations ops) (fst (run dns_step s ops))"
  using assms
proof (induction ops arbitrary: t log s)
  case (Cons op ops)
  show ?case
  proof (cases op)
    case (Register k process now)
    have "order_inv now (insert (k, process, now) log) (fst (register_query k process now s))"
      using Cons.prems Register by (intro order_inv_register) auto
    from Cons.IH [OF this] show ?thesis using Cons.prems Register by auto
  next
    case (Correlate k response now obs)
    have "order_inv now log (fst (correlate_response k response now obs s))"
      using Cons.prems Correlate by (intro order_inv_correlate) auto
    from Cons.IH [OF this] show ?thesis using Cons.prems Correlate by auto
  next
    case (ContextFor cgroup address now)
    have "order_inv t log (fst (context_for cgroup address now s))"
      using Cons.prems(1) by (simp add: order_inv_def)
    from Cons.IH [OF this] show ?thesis using Cons.prems ContextFor by auto
  qed
qed simp

text \<open>C26: The transaction timeout is enforced when no query key is used twice. In a history whose
  instants do not decrease and that registers each key at most once, a response that matches is
  one whose query was registered, by the process it is attributed to, less than the timeout ago.
\<close>

theorem dns_timeout_enforced:
  assumes "distinct (registered_keys ops)" and "sorted (instants ops @ [now])"
    and "s = fst (run dns_step (dns_state_new max_p max_n timeout ttl) ops)"
    and "snd (correlate_response key response now obs s) = Ok process"
  shows "\<exists>t. (key, process, t) \<in> registrations ops \<and> now - t < timeout"
proof -
  have "order_inv 0 {} (dns_state_new max_p max_n timeout ttl)"
    by (simp add: order_inv_def in_order_def dns_state_new_def)
  then have inv: "order_inv (last (0 # instants ops)) (registrations ops) s"
    using order_inv_run [of 0 "{}" "dns_state_new max_p max_n timeout ttl" ops] assms(1-3)
    by (simp add: sorted_append)
  have "transaction_timeout s = timeout" using assms(3) by (simp add: dns_state_new_def)
  moreover obtain p where p: "map_of (pending (expire_pending now s)) key = Some p"
      "process = query_process p"
    using assms(4) by (auto simp: correlate_response_def Let_def split: option.splits)
  ultimately have "now - created_at p < timeout"
    using expire_pending_in_order(2) [of s now key p] inv by (simp add: order_inv_def)
  moreover have "(key, query_process p, created_at p) \<in> registrations ops"
    using order_inv_expire [OF inv, of now] p(1) by (simp add: order_inv_def)
  ultimately show ?thesis using p(2) by blast
qed

section \<open>Observed names\<close>

text \<open>What the cache keeps of other names for an address when a response for \<open>key\<close> arrives.\<close>

definition others :: "pending_query_key \<Rightarrow> ip_addr \<Rightarrow> datetime \<Rightarrow> dns_state \<Rightarrow> cached_name list" where
  "others key a obs s =
     filter (\<lambda>c. expires_at c > obs \<and> cached c \<noteq> pk_name key)
       (case map_of (addresses s) (pk_cgroup key, a) of None \<Rightarrow> [] | Some es \<Rightarrow> es)"

definition fresh_name :: "pending_query_key \<Rightarrow> datetime \<Rightarrow> u32 \<Rightarrow> duration \<Rightarrow> cached_name" where
  "fresh_name key obs ttl limit =
     \<lparr>cached = pk_name key, observed_at = obs, expires_at = obs + int (min (nanos ttl) limit)\<rparr>"

lemma cache_answer_lookup:
  assumes "length (others key a obs s) < max_names_per_address s"
  shows "map_of (addresses (cache_answer key obs answer s)) (pk_cgroup key, a) =
      (if ans_address answer = a
       then Some (others key a obs s @ [fresh_name key obs (ans_ttl answer) (max_ttl s)])
       else map_of (addresses s) (pk_cgroup key, a))"
    and "others key a obs (cache_answer key obs answer s) = others key a obs s"
  using assms by (auto simp: cache_answer_def Let_def others_def fresh_name_def)

lemma cache_answer_fields [simp]:
  "max_names_per_address (cache_answer key obs x s) = max_names_per_address s"
  "max_ttl (cache_answer key obs x s) = max_ttl s"
  by (simp_all add: cache_answer_def Let_def)

lemma fold_cache_others:
  "length (others key a obs s) < max_names_per_address s \<Longrightarrow>
     others key a obs (fold (cache_answer key obs) as s) = others key a obs s"
  by (induction as arbitrary: s) (simp_all add: cache_answer_lookup(2))

lemma fold_cache_last:
  assumes "length (others key a obs s) < max_names_per_address s"
    and "ans_address answer = a" and "a \<notin> ans_address ` set post"
  shows "map_of (addresses (fold (cache_answer key obs) (pre @ answer # post) s)) (pk_cgroup key, a)
      = Some (others key a obs s @ [fresh_name key obs (ans_ttl answer) (max_ttl s)])"
  using assms(3)
proof (induction post rule: rev_induct)
  case Nil
  then show ?case
    using assms cache_answer_lookup(1) [of key a obs "fold (cache_answer key obs) pre s" answer]
    by (simp add: fold_cache_others)
next
  case (snoc x post)
  then show ?case
    using assms cache_answer_lookup(1)
      [of key a obs "fold (cache_answer key obs) (pre @ answer # post) s" x]
      fold_cache_others [of key a obs s "pre @ answer # post"]
    by auto
qed

lemma context_for_live:
  assumes inv: "dns_inv s" and es: "map_of (addresses s) (cgroup, a) = Some es"
    and live: "live = filter (\<lambda>c. expires_at c > now) es" "live \<noteq> []"
    and few: "length live \<le> MAX_DNS_CONTEXT_NAMES"
    and past: "\<forall>c \<in> set live. observed_at c \<le> now"
  shows "\<exists>ctx. snd (context_for cgroup a now s) = Some ctx
    \<and> set (ctx_names ctx) = cached ` set live \<and> sorted (map dns_str (ctx_names ctx))
    \<and> distinct (ctx_names ctx) \<and> ctx_ambiguous ctx = (length live > 1)
    \<and> ctx_expires_at ctx = Min (expires_at ` set live) \<and> now < ctx_expires_at ctx
    \<and> validate_context ctx = Ok ()"
proof -
  let ?vs = "sort_key (\<lambda>c. dns_str (cached c)) live"
  let ?obs = "Max (observed_at ` set live)" and ?ex = "Min (expires_at ` set live)"
  have ok: "entry_ok s es" using inv es by (simp add: dns_inv_def)
  have vs: "dedup_names ?vs = ?vs" unfolding live(1) using ok by (rule context_for_values)
  have dist: "distinct (map cached ?vs)"
    using entry_ok_filter [OF ok, of "\<lambda>c. expires_at c > now"] live(1)
    by (simp add: entry_ok_def distinct_map)
  have "?obs \<in> observed_at ` set live" "?ex \<in> expires_at ` set live"
    using live(2) by (auto intro!: Max_in Min_in)
  then have ord: "?obs \<le> now" "now < ?ex" using past live(1) by auto
  then have gap: "\<not> ?ex \<le> ?obs" by linarith
  have ne: "?vs \<noteq> []" using live(2) by (metis length_0_conv length_sort)
  have ctx: "snd (context_for cgroup a now s) = res_ok (dns_context_new (map cached ?vs) ?obs ?ex)"
    using es live(2) by (simp add: context_for_def Let_def live(1) [symmetric] vs)
  moreover have "dns_context_new (map cached ?vs) ?obs ?ex = Ok \<lparr>ctx_names = map cached ?vs,
      ctx_observed_at = ?obs, ctx_expires_at = ?ex, ctx_confidence = ObservedRecently,
      ctx_ambiguous = (length live > 1)\<rparr>"
    using gap few ne by (simp add: dns_context_new_def)
  ultimately show ?thesis
    using ord(2) gap few ne dist sorted_sort_key [of "\<lambda>c. dns_str (cached c)" live]
    by (simp add: validate_context_def comp_def)
qed

lemma context_after_response:
  assumes inv: "dns_inv s" and room: "length (others key a obs s) < max_names_per_address s"
    and limit: "max_names_per_address s \<le> MAX_DNS_CONTEXT_NAMES"
    and past: "\<forall>c \<in> set (others key a obs s). observed_at c \<le> obs"
    and hit: "correlate_response key response now obs s = (s', Ok process)"
    and ans: "r_answers response = pre @ answer # post" "ans_address answer = a"
      "a \<notin> ans_address ` set post"
    and time: "obs \<le> later" "later < obs + int (min (nanos (ans_ttl answer)) (max_ttl s))"
  shows "\<exists>ctx. snd (context_for (pk_cgroup key) a later s') = Some ctx
    \<and> set (ctx_names ctx) = insert (pk_name key)
        (cached ` {c \<in> set (others key a obs s). later < expires_at c})
    \<and> sorted (map dns_str (ctx_names ctx)) \<and> distinct (ctx_names ctx)
    \<and> later < ctx_expires_at ctx \<and> validate_context ctx = Ok ()"
proof -
  let ?new = "fresh_name key obs (ans_ttl answer) (max_ttl s)"
  let ?es = "others key a obs s @ [?new]"
  let ?live = "filter (\<lambda>c. expires_at c > later) ?es"
  have inv': "dns_inv s'" using correlate_response_inv [OF inv, of key response now obs] hit by simp
  obtain m where s': "s' = fold (cache_answer key obs) (pre @ answer # post)
      ((expire_pending now s)\<lparr>pending := m\<rparr>)"
    using hit ans(1) by (auto simp: correlate_response_def Let_def split: option.splits)
  have "others key a obs ((expire_pending now s)\<lparr>pending := m\<rparr>) = others key a obs s"
    by (simp add: others_def)
  then have es: "map_of (addresses s') (pk_cgroup key, a) = Some ?es"
    using fold_cache_last [of key a obs "(expire_pending now s)\<lparr>pending := m\<rparr>" answer post pre]
      room ans s' by simp
  have new: "later < expires_at ?new" using time by (simp add: fresh_name_def)
  have "length ?live \<le> length ?es" by (rule length_filter_le)
  then have few: "length ?live \<le> MAX_DNS_CONTEXT_NAMES" using room limit by simp
  have ne: "?live \<noteq> []" using new by simp
  have old: "\<forall>c \<in> set ?live. observed_at c \<le> later"
    using past time(1) by (auto simp: fresh_name_def)
  have "cached ` set ?live = insert (pk_name key)
      (cached ` {c \<in> set (others key a obs s). later < expires_at c})"
    using new by (auto simp: fresh_name_def)
  then show ?thesis using context_for_live [OF inv' es refl ne few old] by auto
qed

text \<open>C25: A resolved name explains later connections. When a response for \<open>key\<close> is matched at wall
  time \<open>obs\<close>, then at every later time before the capped time-to-live of the last answer with
  address \<open>a\<close> runs out, \<open>context_for\<close> on that control group and address yields a valid context
  whose names are, without repetition and in order, \<open>key\<close>'s name and the other names cached for
  the address that have not expired, and which has not expired itself.
\<close>

theorem dns_context_reports_names:
  assumes inv: "dns_inv s" and room: "length (others key a obs s) < max_names_per_address s"
    and limit: "max_names_per_address s \<le> MAX_DNS_CONTEXT_NAMES"
    and past: "\<forall>c \<in> set (others key a obs s). observed_at c \<le> obs"
    and hit: "correlate_response key response now obs s = (s', Ok process)"
    and ans: "r_answers response = pre @ answer # post" "ans_address answer = a"
      "a \<notin> ans_address ` set post"
    and time: "obs \<le> later" "later < obs + int (min (nanos (ans_ttl answer)) (max_ttl s))"
  shows "\<exists>ctx. snd (context_for (pk_cgroup key) a later s') = Some ctx
    \<and> set (ctx_names ctx) = insert (pk_name key)
        (cached ` {c \<in> set (others key a obs s). later < expires_at c})
    \<and> sorted (map dns_str (ctx_names ctx)) \<and> distinct (ctx_names ctx)
    \<and> later < ctx_expires_at ctx \<and> validate_context ctx = Ok ()"
  using assms by (rule context_after_response)

text \<open>The tables stay within their limits in every history of operations: at most \<open>max_pending\<close>
  open queries, at most \<open>max_names_per_address\<close> distinct names per address, and no name kept
  longer than the configured maximal time-to-live.
\<close>

theorem dns_tables_bounded:
  assumes "s = fst (run dns_step (dns_state_new max_p max_n timeout ttl) ops)"
  shows "length (pending s) \<le> max_p \<and>
    (\<forall>slot es. map_of (addresses s) slot = Some es \<longrightarrow>
       length es \<le> max_n \<and> distinct (map cached es) \<and>
       (\<forall>c \<in> set es. expires_at c \<le> observed_at c + int ttl))"
  using dns.run_inv [OF dns_inv_new, of max_p max_n timeout ttl ops] assms
  unfolding dns_inv_def entry_ok_def by (simp add: dns_state_new_def)

section \<open>Repeated registration\<close>

text \<open>
  The order queue is not bounded by \<open>max_pending\<close>: registering one key again and again within
  the timeout adds an element each time while the table holds one entry.
\<close>

lemma register_again:
  assumes "pending s = [(key, \<lparr>created_at = t, query_process = process\<rparr>)]"
    and "1 < max_pending s" and "0 < transaction_timeout s" and "pending_order s = replicate n key"
    and "0 < n"
  shows "register_query key process t s = (s\<lparr>pending_order := replicate (Suc n) key\<rparr>, True)"
proof -
  obtain k where n: "n = Suc k" using \<open>0 < n\<close> by (cases n) auto
  then have "expire_pending t s = s"
    using assms by (simp add: expire_pending_def)
  then show ?thesis using assms
    by (simp add: register_query_def Let_def replicate_append_same [symmetric])
qed

theorem pending_order_grows:
  assumes "0 < timeout"
  shows "\<exists>ops s. s = fst (run dns_step (dns_state_new 2 8 timeout ttl) ops)
    \<and> length (pending s) = 1 \<and> length (pending_order s) = Suc n"
proof -
  let ?reg = "Register key process t"
  let ?p = "\<lparr>created_at = t, query_process = process\<rparr>"
  let ?s = "fst (register_query key process t (dns_state_new 2 8 timeout ttl))"
  have first: "pending ?s = [(key, ?p)]" "pending_order ?s = [key]" "max_pending ?s = 2"
      "transaction_timeout ?s = timeout"
    by (simp_all add: register_query_def Let_def dns_state_new_def expire_pending_def)
  have "fst (run dns_step ?s (replicate n ?reg)) = ?s\<lparr>pending_order := replicate (Suc n) key\<rparr>"
  proof (induction n)
    case 0
    show ?case using first(2) by simp
  next
    case (Suc n)
    have "replicate (Suc n) ?reg = replicate n ?reg @ [?reg]" by (simp add: replicate_append_same)
    then have "fst (run dns_step ?s (replicate (Suc n) ?reg))
        = fst (dns_step (fst (run dns_step ?s (replicate n ?reg))) ?reg)"
      by (simp only: run_append) (simp add: case_prod_beta)
    also have "\<dots> = ?s\<lparr>pending_order := replicate (Suc (Suc n)) key\<rparr>"
      using register_again [of "?s\<lparr>pending_order := replicate (Suc n) key\<rparr>" key t process "Suc n"]
        first assms Suc by simp
    finally show ?case .
  qed
  then have fin: "fst (run dns_step (dns_state_new 2 8 timeout ttl) (?reg # replicate n ?reg))
      = ?s\<lparr>pending_order := replicate (Suc n) key\<rparr>" by simp
  show ?thesis
    by (intro exI [of _ "?reg # replicate n ?reg"] exI conjI, rule refl)
      (unfold fin, simp_all add: first(1))
qed

text \<open>Two concrete queries of one process.\<close>

definition sample_key :: "u16 \<Rightarrow> pending_query_key" where
  "sample_key n = \<lparr>pk_cgroup = 1, pk_transport = Udp, pk_resolver = V4 10, pk_transaction_id = n,
     pk_name = DnsName ''a.b'', pk_query_type = A\<rparr>"

definition sample_process :: process_identity where
  "sample_process = \<lparr>cgroup_id = 1, pid = 7, tgid = 7, command = ''sh''\<rparr>"

definition sample_response :: network_dns_response where
  "sample_response = \<lparr>r_transaction_id = 1, r_direction = Ingress, r_transport = Udp,
     r_resolver = V4 10, r_name = DnsName ''a.b'', r_type = A, r_code = NoError, r_truncated = False,
     r_answers = [\<lparr>ans_name = DnsName ''a.b'', ans_address = V4 20, ans_ttl = 60\<rparr>],
     r_cname_chain = [], r_effective_ttl = Some 60\<rparr>"

lemmas dns_eval = sample_key_def sample_process_def sample_response_def dns_state_new_def
  register_query_def correlate_response_def expire_pending_def Let_def run.simps(2)
  cache_answer_def nanos_def

text \<open>
  With a key registered twice the timeout is not enforced for the queries between the two: the
  first occurrence of the key at the front of the order queue stands for the newer registration
  and stops the expiry. Here the timeout is 5, the second query is registered at 1 and its
  response is still matched at 7.
\<close>

theorem stale_query_matched:
  "snd (correlate_response (sample_key 2) sample_response 7 0
      (fst (run dns_step (dns_state_new 8 8 5 1000)
        [Register (sample_key 1) sample_process 0, Register (sample_key 2) sample_process 1,
         Register (sample_key 1) sample_process 4]))) = Ok sample_process"
  by (simp add: dns_eval del: run_Cons)

theorem dns_response_finds_query_witness:
  "snd (correlate_response (sample_key 1) sample_response 4 0
      (fst (run dns_step (fst (register_query (sample_key 1) sample_process 0
        (dns_state_new 8 8 5 1000))) [Register (sample_key 2) sample_process 1]))) = Ok sample_process"
proof -
  let ?s = "dns_state_new 8 8 5 1000"
  have reg: "register_query (sample_key 1) sample_process 0 ?s
      = (fst (register_query (sample_key 1) sample_process 0 ?s), True)"
    by (simp add: dns_eval)
  have alone: "list_all (leaves_alone (sample_key 1) 0 (transaction_timeout ?s))
      [Register (sample_key 2) sample_process 1]"
    by (simp add: dns_eval)
  have "(4 :: nat) - 0 < transaction_timeout ?s" by (simp add: dns_eval)
  from dns_response_finds_query [OF reg alone this, of "[]", OF _ refl refl] show ?thesis by simp
qed

theorem dns_timeout_enforced_witness:
  "\<exists>t. (sample_key 1, sample_process, t) \<in> registrations [Register (sample_key 1) sample_process 0]
     \<and> 4 - t < 5"
proof (rule dns_timeout_enforced [OF _ _ refl])
  show "snd (correlate_response (sample_key 1) sample_response 4 0 (fst (run dns_step
      (dns_state_new 8 8 5 1000) [Register (sample_key 1) sample_process 0]))) = Ok sample_process"
    by (simp add: dns_eval del: run_Cons)
qed simp_all

theorem dns_context_reports_names_witness:
  "\<exists>ctx. snd (context_for 1 (V4 20) 7 (fst (correlate_response (sample_key 1) sample_response 4 0
      (fst (register_query (sample_key 1) sample_process 0 (dns_state_new 8 8 5 1000)))))) = Some ctx
    \<and> set (ctx_names ctx) = {DnsName ''a.b''} \<and> 7 < ctx_expires_at ctx"
proof -
  let ?s = "fst (register_query (sample_key 1) sample_process 0 (dns_state_new 8 8 5 1000))"
  let ?c = "correlate_response (sample_key 1) sample_response 4 0 ?s"
  have inv: "dns_inv ?s" by (intro register_query_inv dns_inv_new)
  have none: "others (sample_key 1) (V4 20) 0 ?s = []" by (simp add: others_def dns_eval)
  have hit: "?c = (fst ?c, Ok sample_process)" by (simp add: dns_eval)
  have "\<exists>ctx. snd (context_for (pk_cgroup (sample_key 1)) (V4 20) 7 (fst ?c)) = Some ctx
      \<and> set (ctx_names ctx) = insert (pk_name (sample_key 1))
          (cached ` {c \<in> set (others (sample_key 1) (V4 20) 0 ?s). 7 < expires_at c})
      \<and> sorted (map dns_str (ctx_names ctx)) \<and> distinct (ctx_names ctx)
      \<and> 7 < ctx_expires_at ctx \<and> validate_context ctx = Ok ()"
    by (rule dns_context_reports_names [where pre = "[]" and post = "[]"
        and answer = "hd (r_answers sample_response)", OF inv _ _ _ hit])
      (simp_all add: none, simp_all add: dns_eval MAX_DNS_CONTEXT_NAMES_def)
  moreover have "pk_cgroup (sample_key 1) = 1" "pk_name (sample_key 1) = DnsName ''a.b''"
    by (simp_all add: sample_key_def)
  ultimately show ?thesis by (auto simp: none)
qed

theorem dns_tables_bounded_witness:
  "length (pending (fst (run dns_step (dns_state_new 1 8 5 1000)
     [Register (sample_key 1) sample_process 0, Register (sample_key 2) sample_process 1]))) \<le> 1"
  using dns_tables_bounded [OF refl, of 1 8 5 1000 "[Register (sample_key 1) sample_process 0,
    Register (sample_key 2) sample_process 1]"] by blast

end
