(* ===== verification/Thread_Window.thy ===== *)
theory Thread_Window
  imports Event_Base
begin

text \<open>
  Process-start and thread-activity evidence (\<open>crates/event-model/src/lifecycle.rs\<close>): the data
  types, the validation of a process start and of a one-minute thread window. Counters are 64-bit
  words and every sum is checked, as in the source. \<open>window_spec\<close> restates the contract of a
  window over natural numbers, and the main lemma shows that \<open>validate\<close> decides it.
\<close>

definition MAX_THREAD_NAME_BYTES :: nat where "MAX_THREAD_NAME_BYTES = 15"
definition MAX_THREAD_NAMES :: nat where "MAX_THREAD_NAMES = 64"
definition THREAD_WINDOW_SECONDS :: int where "THREAD_WINDOW_SECONDS = 60"

datatype baseline_provenance = Observed | Snapshot | Unavailable

datatype thread_gap_reason =
    KernelLoss | DecodeFailure | AttributionFailure | StateCapacity | SnapshotRace
  | SnapshotPermission | SnapshotTruncated | DeliveryGap

record process_generation_identity =
  generation :: u64
  observation_epoch :: uuid
  start_observed :: bool

record process_start =
  ps_generation :: process_generation_identity
  parent_pid :: u32
  parent_tgid :: u32
  parent_command :: string

record thread_name_aggregate =
  tn_name :: string
  tn_created :: u64
  tn_exited :: u64
  tn_active :: u64

record thread_activity_window =
  tw_id :: uuid
  tw_process :: process_identity
  tw_generation :: process_generation_identity
  window_started_at :: datetime
  window_ended_at :: datetime
  tw_created :: u64
  tw_exited :: u64
  tw_active_at_start :: u64
  tw_active_at_end :: u64
  tw_peak_active :: u64
  tw_names :: "thread_name_aggregate list"
  tw_baseline_provenance :: baseline_provenance
  tw_baseline_complete :: bool
  name_overflow :: u64
  tw_gaps :: "thread_gap_reason list"

datatype lifecycle_validation_error =
  InvalidIdentifier | InvalidBounds | InvalidCounters | InvalidThreadName | NameCapacity | DuplicateGap

definition valid_name :: "string \<Rightarrow> bool" where
  "valid_name s \<longleftrightarrow>
     s \<noteq> [] \<and> length s \<le> MAX_THREAD_NAME_BYTES \<and> CHR 0x00 \<notin> set s \<and> \<not> has_control s"

definition validate_generation ::
    "process_generation_identity \<Rightarrow> (unit, lifecycle_validation_error) result" where
  "validate_generation g =
     (if generation g = 0 \<or> observation_epoch g = 0 then Err InvalidIdentifier else Ok ())"

definition validate_start :: "process_start \<Rightarrow> (unit, lifecycle_validation_error) result" where
  "validate_start p =
     res_bind (validate_generation (ps_generation p)) (\<lambda>_.
       if \<not> start_observed (ps_generation p) \<or> parent_pid p = 0 \<or> parent_tgid p = 0
          \<or> \<not> valid_name (parent_command p)
       then Err InvalidIdentifier else Ok ())"

fun checked_sum_from :: "u64 \<Rightarrow> u64 list \<Rightarrow> (u64, lifecycle_validation_error) result" where
  "checked_sum_from acc [] = Ok acc"
| "checked_sum_from acc (v # vs) =
     res_bind (ok_or InvalidCounters (checked_add acc v)) (\<lambda>s. checked_sum_from s vs)"

definition checked_sum :: "u64 list \<Rightarrow> (u64, lifecycle_validation_error) result" where
  "checked_sum = checked_sum_from 0"

text \<open>The loop over the names with the set of names seen so far.\<close>

fun validate_name_entries ::
    "string list \<Rightarrow> thread_name_aggregate list \<Rightarrow> (unit, lifecycle_validation_error) result" where
  "validate_name_entries seen [] = Ok ()"
| "validate_name_entries seen (e # es) =
     (if \<not> valid_name (tn_name e) \<or> tn_name e \<in> set seen then Err InvalidThreadName
      else validate_name_entries (tn_name e # seen) es)"

definition validate_names :: "thread_name_aggregate list \<Rightarrow> (unit, lifecycle_validation_error) result" where
  "validate_names ns =
     (if length ns > MAX_THREAD_NAMES + 2 then Err NameCapacity else validate_name_entries [] ns)"

text \<open>\<open>sort_by_key\<close> on the discriminant, then \<open>dedup\<close> of neighbours.\<close>

fun gap_index :: "thread_gap_reason \<Rightarrow> nat" where
  "gap_index KernelLoss = 0"
| "gap_index DecodeFailure = 1"
| "gap_index AttributionFailure = 2"
| "gap_index StateCapacity = 3"
| "gap_index SnapshotRace = 4"
| "gap_index SnapshotPermission = 5"
| "gap_index SnapshotTruncated = 6"
| "gap_index DeliveryGap = 7"

definition dedup_gaps :: "thread_gap_reason list \<Rightarrow> thread_gap_reason list" where
  "dedup_gaps gs = remdups_adj (sort_key gap_index gs)"

definition validate_window :: "thread_activity_window \<Rightarrow> (unit, lifecycle_validation_error) result" where
  "validate_window w =
     res_bind (validate_generation (tw_generation w)) (\<lambda>_.
     if tw_id w = 0 \<or> cgroup_id (tw_process w) = 0 \<or> pid (tw_process w) = 0
        \<or> pid (tw_process w) \<noteq> tgid (tw_process w)
     then Err InvalidIdentifier
     else if window_ended_at w - window_started_at w \<noteq> THREAD_WINDOW_SECONDS * 1000000000
     then Err InvalidBounds
     else
       res_bind (ok_or InvalidCounters (checked_add (tw_active_at_start w) (tw_created w))) (\<lambda>expected_end.
       if expected_end < tw_exited w
          \<or> expected_end - tw_exited w \<noteq> tw_active_at_end w
          \<or> tw_peak_active w < max (tw_active_at_start w) (tw_active_at_end w)
          \<or> tw_peak_active w > expected_end
       then Err InvalidCounters
       else
         res_bind (validate_names (tw_names w)) (\<lambda>_.
         res_bind (checked_sum (map tn_created (tw_names w))) (\<lambda>name_created.
         res_bind (checked_sum (map tn_exited (tw_names w))) (\<lambda>name_exited.
         res_bind (checked_sum (map tn_active (tw_names w))) (\<lambda>name_active.
         if name_created \<noteq> tw_created w \<or> name_exited \<noteq> tw_exited w
            \<or> name_active \<noteq> tw_active_at_end w
            \<or> (tw_baseline_complete w
                \<and> (tw_baseline_provenance w = Unavailable \<or> tw_gaps w \<noteq> []))
         then Err InvalidCounters
         else if length (dedup_gaps (tw_gaps w)) \<noteq> length (tw_gaps w) then Err DuplicateGap
         else Ok ()))))))"

section \<open>The contract of a window\<close>

definition usum :: "u64 list \<Rightarrow> nat" where
  "usum vs = sum_list (map unat vs)"

definition window_spec :: "thread_activity_window \<Rightarrow> bool" where
  "window_spec w \<longleftrightarrow>
     (generation (tw_generation w) \<noteq> 0 \<and> observation_epoch (tw_generation w) \<noteq> 0
      \<and> tw_id w \<noteq> 0 \<and> cgroup_id (tw_process w) \<noteq> 0
      \<and> pid (tw_process w) \<noteq> 0 \<and> pid (tw_process w) = tgid (tw_process w))
     \<and> window_ended_at w = window_started_at w + 60000000000
     \<and> unat (tw_active_at_start w) + unat (tw_created w) < 2 ^ 64
     \<and> unat (tw_active_at_start w) + unat (tw_created w)
         = unat (tw_exited w) + unat (tw_active_at_end w)
     \<and> unat (tw_active_at_start w) \<le> unat (tw_peak_active w)
     \<and> unat (tw_active_at_end w) \<le> unat (tw_peak_active w)
     \<and> unat (tw_peak_active w) \<le> unat (tw_active_at_start w) + unat (tw_created w)
     \<and> length (tw_names w) \<le> 66 \<and> distinct (map tn_name (tw_names w))
     \<and> list_all valid_name (map tn_name (tw_names w))
     \<and> usum (map tn_created (tw_names w)) = unat (tw_created w)
     \<and> usum (map tn_exited (tw_names w)) = unat (tw_exited w)
     \<and> usum (map tn_active (tw_names w)) = unat (tw_active_at_end w)
     \<and> \<not> (tw_baseline_complete w \<and> (tw_baseline_provenance w = Unavailable \<or> tw_gaps w \<noteq> []))
     \<and> distinct (tw_gaps w)"

lemma checked_sum_from_Ok:
  "checked_sum_from acc vs = Ok s \<longleftrightarrow> unat acc + usum vs = unat s"
proof (induction vs arbitrary: acc)
  case Nil
  then show ?case by (auto simp: usum_def word_unat_eq_iff)
next
  case (Cons v vs)
  have bound: "unat s < 2 ^ LENGTH(64)" by (rule unsigned_less)
  show ?case
  proof (cases "checked_add acc v")
    case None
    then have "2 ^ LENGTH(64) \<le> unat acc + unat v" by (simp add: checked_add_None_iff)
    with bound None show ?thesis by (auto simp: usum_def)
  next
    case (Some a)
    then have "unat a = unat acc + unat v" by (simp add: unat_checked_add)
    with Some Cons show ?thesis by (simp add: usum_def add.assoc)
  qed
qed

lemma checked_sum_Ok: "checked_sum vs = Ok s \<longleftrightarrow> usum vs = unat s"
  by (simp add: checked_sum_def checked_sum_from_Ok)

lemma validate_name_entries_Ok:
  "validate_name_entries seen es = Ok () \<longleftrightarrow>
     list_all valid_name (map tn_name es) \<and> distinct (map tn_name es)
     \<and> set (map tn_name es) \<inter> set seen = {}"
  by (induction seen es rule: validate_name_entries.induct) auto

lemma gap_index_inj: "gap_index a = gap_index b \<longleftrightarrow> a = b"
  by (cases a; cases b) simp_all

lemma distinct_remdups_adj_sorted:
  "sorted (map gap_index gs) \<Longrightarrow> distinct (remdups_adj gs)"
proof (induction gs rule: remdups_adj.induct)
  case (3 a b gs)
  show ?case
  proof (cases "a = b")
    case False
    have "gap_index a < gap_index c" if "c \<in> set (b # gs)" for c
    proof -
      have "gap_index a \<le> gap_index b" "gap_index b \<le> gap_index c" using "3.prems" that by auto
      moreover have "gap_index a \<noteq> gap_index b" using False by (simp add: gap_index_inj)
      ultimately show ?thesis by linarith
    qed
    then have "a \<notin> set (b # gs)" by blast
    with 3 False show ?thesis by simp
  qed (use 3 in auto)
qed auto

lemma dedup_gaps_length: "length (dedup_gaps gs) = length gs \<longleftrightarrow> distinct gs"
proof -
  have "distinct (dedup_gaps gs)"
    unfolding dedup_gaps_def by (rule distinct_remdups_adj_sorted) simp
  then have "length (dedup_gaps gs) = card (set gs)"
    by (metis dedup_gaps_def distinct_card remdups_adj_set set_sort)
  then show ?thesis by (metis card_distinct distinct_card)
qed

lemma validate_window_spec: "validate_window w = Ok () \<longleftrightarrow> window_spec w"
proof (cases "checked_add (tw_active_at_start w) (tw_created w)")
  case None
  then have "2 ^ 64 \<le> unat (tw_active_at_start w) + unat (tw_created w)"
    by (simp add: checked_add_None_iff)
  with None show ?thesis by (auto simp: validate_window_def window_spec_def result_laws)
next
  case (Some e)
  then have e: "unat e = unat (tw_active_at_start w) + unat (tw_created w)"
    by (rule unat_checked_add)
  have fits: "unat (tw_active_at_start w) + unat (tw_created w) < 2 ^ 64"
    using unsigned_less [of e] by (simp add: e [symmetric])
  have ends: "\<not> e < tw_exited w \<and> e - tw_exited w = tw_active_at_end w \<longleftrightarrow>
      unat (tw_active_at_start w) + unat (tw_created w) = unat (tw_exited w) + unat (tw_active_at_end w)"
    by (auto simp: word_less_nat_alt word_unat_eq_iff unat_sub word_le_nat_alt e)
  have peak: "\<not> tw_peak_active w < max (tw_active_at_start w) (tw_active_at_end w)
        \<and> \<not> tw_peak_active w > e \<longleftrightarrow>
      unat (tw_active_at_start w) \<le> unat (tw_peak_active w)
      \<and> unat (tw_active_at_end w) \<le> unat (tw_peak_active w)
      \<and> unat (tw_peak_active w) \<le> unat (tw_active_at_start w) + unat (tw_created w)"
    by (auto simp: word_less_nat_alt word_le_nat_alt e max_def)
  show ?thesis
    using Some ends peak fits
    by (auto simp: validate_window_def window_spec_def result_laws validate_generation_def
        validate_names_def validate_name_entries_Ok checked_sum_Ok dedup_gaps_length
        THREAD_WINDOW_SECONDS_def MAX_THREAD_NAMES_def)
qed

text \<open>A window is accepted exactly when it keeps its contract. \<open>ThreadActivityWindow::validate\<close>
  succeeds if and only if the identifiers are set and name a process leader, the window is one
  minute long, and, over unbounded numbers, the tasks at the start and the created ones are the
  exited ones and those at the end, the peak lies between, the at most 66 valid distinct names
  account for all of created, exited and active tasks, completeness is claimed only with a
  baseline and without gaps, and no gap is named twice. No overflow of the 64-bit sums can make
  the check accept a window that does not keep it.\<close>

theorem thread_window_validate_iff: "validate_window w = Ok () \<longleftrightarrow> window_spec w"
  by (rule validate_window_spec)

end
