(* ===== verification/Termination.thy ===== *)
theory Termination
  imports Thread_Window
begin

text \<open>
  Process-termination and container-lifecycle evidence
  (\<open>crates/event-model/src/termination.rs\<close>): the closed data types and the constructors that
  validate them. \<open>i32\<close> values are integers, text is bounded by 256 bytes.
\<close>

definition MAX_TERMINATION_TEXT_BYTES :: nat where "MAX_TERMINATION_TEXT_BYTES = 256"
definition MAX_LINUX_SIGNAL :: u8 where "MAX_LINUX_SIGNAL = 64"

datatype evidence_source = Kernel | Kubernetes | Derived

datatype process_termination =
    Exited u8
  | Signaled u8 string bool

datatype unresolved_generation_reason =
  BeforeObservation | Evicted | GenerationMismatch | ContainerLifetimeMismatch

datatype generation_correlation =
    ObservedGeneration u64 uuid string
  | Unresolved unresolved_generation_reason

datatype process_exit_classification = Leader | LegacyUnclassified

record process_exit =
  pe_source :: evidence_source
  classification :: process_exit_classification
  raw_wait_status :: i32
  exit_termination :: process_termination
  correlation :: generation_correlation
  pe_generation :: "process_generation_identity option"

record container_termination =
  ct_source :: evidence_source
  ct_container_id :: string
  ct_reason :: string
  exit_code :: i32
  started_at :: "datetime option"
  finished_at :: "datetime option"

record container_restart =
  cr_source :: evidence_source
  cr_container_id :: string
  restart_count :: u32
  restart_delta :: u32
  observation_gap :: bool
  previous_termination :: "container_termination option"
  waiting_reason :: "string option"

record restart_loop_summary =
  rl_source :: evidence_source
  projection_version :: u16
  rl_threshold :: u32
  rl_window_started_at :: datetime
  rl_window_ended_at :: datetime
  observed_restart_count :: u32
  rl_container_name :: string
  latest_termination :: "container_termination option"
  rl_waiting_reason :: "string option"

datatype termination_validation_error =
    InvalidSource | InvalidSignal | InvalidText | InvalidContainerExitCode | InvalidTimestamps
  | InvalidRestartDelta | InvalidRestartLoop

definition valid_text :: "string \<Rightarrow> bool" where
  "valid_text s \<longleftrightarrow> s \<noteq> [] \<and> length s \<le> MAX_TERMINATION_TEXT_BYTES \<and> CHR 0x00 \<notin> set s"

definition valid_signal_name :: "string \<Rightarrow> bool" where
  "valid_signal_name s \<longleftrightarrow>
     valid_text s \<and> starts_with s ''SIG''
     \<and> list_all (\<lambda>b. is_ascii_uppercase b \<or> is_ascii_digit b \<or> b = CHR ''+'') (drop 3 s)"

definition exited :: "u8 \<Rightarrow> process_termination" where
  "exited status = Exited status"

definition signaled ::
    "u8 \<Rightarrow> string \<Rightarrow> bool \<Rightarrow> (process_termination, termination_validation_error) result" where
  "signaled signal name core =
     (if \<not> (1 \<le> signal \<and> signal \<le> MAX_LINUX_SIGNAL) \<or> \<not> valid_signal_name name
      then Err InvalidSignal else Ok (Signaled signal name core))"

fun conventional_exit_code :: "process_termination \<Rightarrow> u16 option" where
  "conventional_exit_code (Exited _) = None"
| "conventional_exit_code (Signaled signal _ _) = Some (128 + ucast signal)"

definition observed_generation ::
    "u64 \<Rightarrow> uuid \<Rightarrow> string \<Rightarrow> (generation_correlation, termination_validation_error) result" where
  "observed_generation gen event executable =
     (if gen = 0 \<or> \<not> valid_text executable then Err InvalidText
      else Ok (ObservedGeneration gen event executable))"

definition process_exit_new ::
    "i32 \<Rightarrow> process_termination \<Rightarrow> generation_correlation \<Rightarrow> process_exit" where
  "process_exit_new raw term cor =
     \<lparr>pe_source = Kernel, classification = LegacyUnclassified, raw_wait_status = raw,
      exit_termination = term, correlation = cor, pe_generation = None\<rparr>"

definition classified_leader ::
    "i32 \<Rightarrow> process_termination \<Rightarrow> generation_correlation \<Rightarrow> process_exit" where
  "classified_leader raw term cor = (process_exit_new raw term cor)\<lparr>classification := Leader\<rparr>"

definition with_generation :: "process_exit \<Rightarrow> process_generation_identity \<Rightarrow> process_exit" where
  "with_generation e g = e\<lparr>pe_generation := Some g\<rparr>"

definition container_termination_new ::
    "string \<Rightarrow> string \<Rightarrow> i32 \<Rightarrow> datetime option \<Rightarrow> datetime option \<Rightarrow>
       (container_termination, termination_validation_error) result" where
  "container_termination_new container reason code start finish =
     (if \<not> valid_text container \<or> \<not> valid_text reason then Err InvalidText
      else if code < 0 then Err InvalidContainerExitCode
      else if (case (start, finish) of (Some s, Some f) \<Rightarrow> f < s | _ \<Rightarrow> False)
      then Err InvalidTimestamps
      else Ok \<lparr>ct_source = Kubernetes, ct_container_id = container, ct_reason = reason,
               exit_code = code, started_at = start, finished_at = finish\<rparr>)"

definition container_restart_new ::
    "string \<Rightarrow> u32 \<Rightarrow> u32 \<Rightarrow> container_termination option \<Rightarrow> string option \<Rightarrow>
       (container_restart, termination_validation_error) result" where
  "container_restart_new container restarts delta prev waiting =
     (if \<not> valid_text container \<or> (case waiting of None \<Rightarrow> False | Some v \<Rightarrow> \<not> valid_text v)
      then Err InvalidText
      else if delta = 0 \<or> delta > restarts then Err InvalidRestartDelta
      else if (case prev of None \<Rightarrow> False | Some t \<Rightarrow> ct_source t \<noteq> Kubernetes) then Err InvalidSource
      else Ok \<lparr>cr_source = Kubernetes, cr_container_id = container, restart_count = restarts,
               restart_delta = delta, observation_gap = (delta > 1), previous_termination = prev,
               waiting_reason = waiting\<rparr>)"

definition restart_loop_summary_new ::
    "u16 \<Rightarrow> u32 \<Rightarrow> datetime \<Rightarrow> datetime \<Rightarrow> u32 \<Rightarrow> string \<Rightarrow> container_termination option \<Rightarrow>
       string option \<Rightarrow> (restart_loop_summary, termination_validation_error) result" where
  "restart_loop_summary_new version threshold start finish restarts name latest waiting =
     (if \<not> valid_text name \<or> (case waiting of None \<Rightarrow> False | Some v \<Rightarrow> \<not> valid_text v)
      then Err InvalidText
      else if version = 0 \<or> threshold = 0 \<or> restarts < threshold \<or> finish \<le> start
      then Err InvalidRestartLoop
      else Ok \<lparr>rl_source = Derived, projection_version = version, rl_threshold = threshold,
               rl_window_started_at = start, rl_window_ended_at = finish,
               observed_restart_count = restarts, rl_container_name = name,
               latest_termination = latest, rl_waiting_reason = waiting\<rparr>)"

lemma valid_signal_name_text: "valid_signal_name s \<Longrightarrow> valid_text s"
  by (simp add: valid_signal_name_def)

lemma conventional_exit_code_range:
  assumes "signaled signal name core = Ok t"
  shows "\<exists>code. conventional_exit_code t = Some code \<and> 129 \<le> unat code \<and> unat code \<le> 192
    \<and> unat code = 128 + unat signal"
proof -
  have s: "1 \<le> unat signal" "unat signal \<le> 64" "t = Signaled signal name core"
    using assms by (auto simp: signaled_def MAX_LINUX_SIGNAL_def word_le_nat_alt split: if_splits)
  have "unat (ucast signal :: u16) = unat signal" by (simp add: unat_ucast_up)
  then have "unat (128 + ucast signal :: u16) = 128 + unat signal"
    using s(2) by (subst unat_plus_no_wrap) simp_all
  with s show ?thesis by simp
qed

lemma container_restart_new_Ok:
  "container_restart_new container restarts delta prev waiting = Ok r \<longleftrightarrow>
     valid_text container \<and> (\<forall>v. waiting = Some v \<longrightarrow> valid_text v)
     \<and> 1 \<le> unat delta \<and> unat delta \<le> unat restarts
     \<and> (\<forall>t. prev = Some t \<longrightarrow> ct_source t = Kubernetes)
     \<and> r = \<lparr>cr_source = Kubernetes, cr_container_id = container, restart_count = restarts,
            restart_delta = delta, observation_gap = (2 \<le> unat delta),
            previous_termination = prev, waiting_reason = waiting\<rparr>"
proof -
  have "delta = 0 \<longleftrightarrow> unat delta = 0" by (simp add: unat_eq_zero)
  moreover have "delta > 1 \<longleftrightarrow> 2 \<le> unat delta" by (auto simp: word_less_nat_alt)
  ultimately show ?thesis
    by (auto simp: container_restart_new_def word_less_nat_alt split: option.splits if_splits)
qed

end
