(* ===== verification/Release.thy ===== *)
theory Release
  imports Thread_Window "HOL-Library.List_Lexorder" "HOL-Library.Char_ord" "HOL-Library.Option_ord"
    "HOL-Library.Product_Lexorder" "HOL-Library.Multiset"
begin

text \<open>
  Release identities (\<open>crates/event-model/src/release.rs\<close>): the images of a pod's containers,
  sorted and hashed. SHA-256 is third-party code and a parameter \<open>sha\<close> of the definitions, from
  the bytes that are fed to the hasher to its digest. \<open>usize\<close> has eight bytes, as on the
  64-bit targets the images are built for.

  The lemmas show that the identity does not depend on the order of the containers, that what
  the constructors return passes \<open>validate\<close>, and that the bytes fed to the hasher determine the
  containers, so that two identities can share a digest only by a collision of the hash.
\<close>

definition RELEASE_IDENTITY_VERSION :: u16 where "RELEASE_IDENTITY_VERSION = 1"
definition MAX_RELEASE_CONTAINERS :: nat where "MAX_RELEASE_CONTAINERS = 64"
definition MAX_CONTAINER_NAME_BYTES :: nat where "MAX_CONTAINER_NAME_BYTES = 253"
definition MAX_IMAGE_REFERENCE_BYTES :: nat where "MAX_IMAGE_REFERENCE_BYTES = 512"

datatype container_category = Init | Application

datatype container_image_identity =
  ContainerImage (ci_category: container_category) (ci_name: string) (ci_image: "string option")
    (ci_digest: "u8 list")

text \<open>The derived orders: enums by position, structs field by field.\<close>

instantiation container_category :: linorder
begin

definition less_eq_container_category :: "container_category \<Rightarrow> container_category \<Rightarrow> bool" where
  "a \<le> b \<longleftrightarrow> a = Init \<or> b = Application"

definition less_container_category :: "container_category \<Rightarrow> container_category \<Rightarrow> bool" where
  "a < b \<longleftrightarrow> a = Init \<and> b = Application"

instance
proof
  fix x y z :: container_category
  show "x < y \<longleftrightarrow> x \<le> y \<and> \<not> y \<le> x"
    by (cases x; cases y) (simp_all add: less_eq_container_category_def less_container_category_def)
  show "x \<le> x" "x \<le> y \<Longrightarrow> y \<le> z \<Longrightarrow> x \<le> z" "x \<le> y \<Longrightarrow> y \<le> x \<Longrightarrow> x = y" "x \<le> y \<or> y \<le> x"
    by (cases x; cases y; cases z; simp add: less_eq_container_category_def)+
qed

end

definition ci_fields ::
    "container_image_identity \<Rightarrow> container_category \<times> string \<times> string option \<times> u8 list" where
  "ci_fields c = (ci_category c, ci_name c, ci_image c, ci_digest c)"

lemma ci_fields_inj: "ci_fields a = ci_fields b \<longleftrightarrow> a = b"
  by (cases a; cases b) (simp add: ci_fields_def)

instantiation container_image_identity :: linorder
begin

definition less_eq_container_image_identity ::
    "container_image_identity \<Rightarrow> container_image_identity \<Rightarrow> bool" where
  "a \<le> b \<longleftrightarrow> ci_fields a \<le> ci_fields b"

definition less_container_image_identity ::
    "container_image_identity \<Rightarrow> container_image_identity \<Rightarrow> bool" where
  "a < b \<longleftrightarrow> ci_fields a < ci_fields b"

instance
proof
  fix x y z :: container_image_identity
  show "x < y \<longleftrightarrow> x \<le> y \<and> \<not> y \<le> x"
    by (simp add: less_eq_container_image_identity_def less_container_image_identity_def less_le_not_le)
  show "x \<le> x" "x \<le> y \<or> y \<le> x"
    by (simp_all add: less_eq_container_image_identity_def linear)
  show "x \<le> y \<Longrightarrow> y \<le> z \<Longrightarrow> x \<le> z"
    unfolding less_eq_container_image_identity_def by (rule order_trans)
  show "x \<le> y \<Longrightarrow> y \<le> x \<Longrightarrow> x = y"
    by (simp add: less_eq_container_image_identity_def ci_fields_inj [symmetric])
qed

end

record release_identity =
  ri_version :: u16
  ri_digest :: "u8 list"
  ri_containers :: "container_image_identity list"

datatype release_identity_error =
    InvalidContainerCount | InvalidContainerName | InvalidImageReference | DuplicateContainer
  | InvalidImageId | UnsupportedVersion | DigestMismatch

definition same_container :: "container_image_identity \<Rightarrow> container_image_identity \<Rightarrow> bool" where
  "same_container a b \<longleftrightarrow> ci_category a = ci_category b \<and> ci_name a = ci_name b"

fun any_window :: "('a \<Rightarrow> 'a \<Rightarrow> bool) \<Rightarrow> 'a list \<Rightarrow> bool" where
  "any_window P (a # b # xs) \<longleftrightarrow> P a b \<or> any_window P (b # xs)"
| "any_window P _ \<longleftrightarrow> False"

text \<open>The slice is sorted in place: the sorted list is the result.\<close>

definition validate_components ::
    "container_image_identity list \<Rightarrow> (container_image_identity list, release_identity_error) result" where
  "validate_components vs =
     (if vs = [] \<or> length vs > MAX_RELEASE_CONTAINERS then Err InvalidContainerCount
      else if list_ex (\<lambda>v. ci_name v = [] \<or> length (ci_name v) > MAX_CONTAINER_NAME_BYTES) vs
      then Err InvalidContainerName
      else if list_ex (\<lambda>v. case ci_image v of None \<Rightarrow> False
             | Some i \<Rightarrow> i = [] \<or> length i > MAX_IMAGE_REFERENCE_BYTES \<or> \<not> trimmed i) vs
      then Err InvalidImageReference
      else if any_window same_container (sort vs) then Err DuplicateContainer
      else Ok (sort vs))"

fun rsplit_once :: "string \<Rightarrow> string \<Rightarrow> (string \<times> string) option" where
  "rsplit_once [] p = (if p = [] then Some ([], []) else None)"
| "rsplit_once (c # s) p =
     (case rsplit_once s p of
        Some (a, b) \<Rightarrow> Some (c # a, b)
      | None \<Rightarrow> if prefix p (c # s) then Some ([], drop (length p) (c # s)) else None)"

definition hex_value :: "char \<Rightarrow> nat" where
  "hex_value c = (if is_ascii_digit c then byte c - 48
     else if 97 \<le> byte c then byte c - 87 else byte c - 55)"

fun hex_pairs :: "string \<Rightarrow> u8 list" where
  "hex_pairs (a # b # s) = of_nat (16 * hex_value a + hex_value b) # hex_pairs s"
| "hex_pairs _ = []"

definition parse_image_id :: "string \<Rightarrow> (u8 list, release_identity_error) result" where
  "parse_image_id s =
     (case rsplit_once s ''sha256:'' of
        None \<Rightarrow> Err InvalidImageId
      | Some (_, encoded) \<Rightarrow>
          if length encoded \<noteq> 64 \<or> \<not> list_all is_ascii_hexdigit encoded then Err InvalidImageId
          else Ok (hex_pairs encoded))"

definition bytes_of :: "string \<Rightarrow> u8 list" where
  "bytes_of s = map (\<lambda>c. of_nat (byte c)) s"

definition usize_be :: "nat \<Rightarrow> u8 list" where
  "usize_be n = be_bytes 8 n"

fun category_byte :: "container_category \<Rightarrow> u8" where
  "category_byte Init = 0"
| "category_byte Application = 1"

definition component_bytes :: "container_image_identity \<Rightarrow> u8 list" where
  "component_bytes v =
     category_byte (ci_category v) # usize_be (length (ci_name v)) @ bytes_of (ci_name v) @ ci_digest v"

definition components_preimage :: "container_image_identity list \<Rightarrow> u8 list" where
  "components_preimage vs =
     to_be_bytes 2 RELEASE_IDENTITY_VERSION @ concat (map component_bytes vs)"

definition digest_components :: "(u8 list \<Rightarrow> u8 list) \<Rightarrow> container_image_identity list \<Rightarrow> u8 list" where
  "digest_components sha vs = sha (components_preimage vs)"

definition identity_of ::
    "(u8 list \<Rightarrow> u8 list) \<Rightarrow> (container_image_identity list, release_identity_error) result \<Rightarrow>
       (release_identity, release_identity_error) result" where
  "identity_of sha cs =
     res_bind cs (\<lambda>containers. res_bind (validate_components containers) (\<lambda>sorted.
       Ok \<lparr>ri_version = RELEASE_IDENTITY_VERSION, ri_digest = digest_components sha sorted,
           ri_containers = sorted\<rparr>))"

definition from_image_ids ::
    "(u8 list \<Rightarrow> u8 list) \<Rightarrow> (container_category \<times> string \<times> string) list \<Rightarrow>
       (release_identity, release_identity_error) result" where
  "from_image_ids sha xs = identity_of sha
     (try_map (\<lambda>(category, name, image_id).
        res_bind (parse_image_id image_id) (\<lambda>d. Ok (ContainerImage category name None d))) xs)"

definition from_images ::
    "(u8 list \<Rightarrow> u8 list) \<Rightarrow> (container_category \<times> string \<times> string \<times> string) list \<Rightarrow>
       (release_identity, release_identity_error) result" where
  "from_images sha xs = identity_of sha
     (try_map (\<lambda>(category, name, image, image_id).
        res_bind (parse_image_id image_id) (\<lambda>d. Ok (ContainerImage category name (Some image) d))) xs)"

definition validate_release ::
    "(u8 list \<Rightarrow> u8 list) \<Rightarrow> release_identity \<Rightarrow> (unit, release_identity_error) result" where
  "validate_release sha r =
     (if ri_version r \<noteq> RELEASE_IDENTITY_VERSION then Err UnsupportedVersion
      else res_bind (validate_components (ri_containers r)) (\<lambda>cs.
        if cs \<noteq> ri_containers r \<or> digest_components sha cs \<noteq> ri_digest r then Err DigestMismatch
        else Ok ()))"

record workload_revision_evidence =
  evidence_id :: string
  wr_observed_at :: datetime
  wr_namespace :: string
  wr_workload_uid :: string
  wr_workload_kind :: string
  wr_workload_name :: string
  replica_set_uid :: string
  replica_set_name :: string
  wr_pod_uid :: string
  pod_template_hash :: "string option"
  wr_release_identity :: release_identity
  ready :: bool

record revision_readiness_snapshot =
  snapshot_id :: string
  rs_observed_at :: datetime
  initialized :: bool
  continuous :: bool
  rs_revision_digest :: "u8 list"
  pod_count :: u32
  ready_pod_count :: u32
  workload_ready_pod_count :: u32

definition revision_preimage :: "workload_revision_evidence \<Rightarrow> u8 list" where
  "revision_preimage e =
     to_be_bytes 2 RELEASE_IDENTITY_VERSION
     @ concat (map (\<lambda>s. usize_be (length s) @ bytes_of s) [wr_workload_uid e, replica_set_uid e])
     @ ri_digest (wr_release_identity e)"

definition revision_digest :: "(u8 list \<Rightarrow> u8 list) \<Rightarrow> workload_revision_evidence \<Rightarrow> u8 list" where
  "revision_digest sha e = sha (revision_preimage e)"

section \<open>Order independence\<close>

lemma try_map_cases:
  assumes "\<And>x e. f x = Err e \<Longrightarrow> e = e0"
  shows "try_map f xs = (if \<exists>x \<in> set xs. \<forall>y. f x \<noteq> Ok y then Err e0
                        else Ok (map (\<lambda>x. the (res_ok (f x))) xs))"
proof (induction xs)
  case (Cons x xs)
  then show ?case using assms by (cases "f x") auto
qed simp

lemma validate_components_perm:
  assumes "mset vs = mset ws"
  shows "validate_components vs = validate_components ws"
proof -
  have "sort vs = sort ws" by (rule properties_for_sort) (simp_all add: assms)
  moreover have "set vs = set ws" "length vs = length ws" "vs = [] \<longleftrightarrow> ws = []"
    using assms by (auto dest: mset_eq_setD mset_eq_length)
  ultimately show ?thesis by (simp add: validate_components_def list_ex_iff)
qed

lemma identity_of_perm:
  assumes err: "\<And>x e. f x = Err e \<Longrightarrow> e = e0" and perm: "mset xs = mset ys"
  shows "identity_of sha (try_map f xs) = identity_of sha (try_map f ys)"
proof -
  have "set xs = set ys" using perm by (rule mset_eq_setD)
  moreover have "mset (map (\<lambda>x. the (res_ok (f x))) xs) = mset (map (\<lambda>x. the (res_ok (f x))) ys)"
    using perm by (simp add: mset_map)
  then have "validate_components (map (\<lambda>x. the (res_ok (f x))) xs)
      = validate_components (map (\<lambda>x. the (res_ok (f x))) ys)" by (rule validate_components_perm)
  ultimately show ?thesis
    by (auto simp: identity_of_def try_map_cases [OF err])
qed

lemma parse_image_id_Err: "parse_image_id s = Err e \<Longrightarrow> e = InvalidImageId"
  by (auto simp: parse_image_id_def split: option.splits if_splits)

text \<open>The release identity does not depend on the order in which Kubernetes reports the
  containers: permuting the input of \<open>from_images\<close> changes neither the identity nor the error,
  and likewise for \<open>from_image_ids\<close>.\<close>

theorem release_identity_order_independent:
  assumes "mset xs = mset ys" and "mset us = mset vs"
  shows "from_images sha xs = from_images sha ys \<and> from_image_ids sha us = from_image_ids sha vs"
  unfolding from_images_def from_image_ids_def using assms
  by (auto intro!: identity_of_perm simp: result_laws dest: parse_image_id_Err)

theorem release_identity_order_independent_witness:
  "from_images id [(Init, ''a'', ''i'', ''sha256:x''), (Application, ''b'', ''j'', ''k'')]
     = from_images id [(Application, ''b'', ''j'', ''k''), (Init, ''a'', ''i'', ''sha256:x'')]"
  using release_identity_order_independent
    [of "[(Init, ''a'', ''i'', ''sha256:x''), (Application, ''b'', ''j'', ''k'')]"
        "[(Application, ''b'', ''j'', ''k''), (Init, ''a'', ''i'', ''sha256:x'')]" "[]" "[]" id]
  by simp

section \<open>What the components promise\<close>

lemma any_window_sorted:
  assumes "sorted vs"
  shows "any_window same_container vs \<longleftrightarrow> \<not> distinct (map (\<lambda>v. (ci_category v, ci_name v)) vs)"
  using assms
proof (induction same_container vs rule: any_window.induct)
  case (1 a b xs)
  let ?k = "\<lambda>v. (ci_category v, ci_name v)"
  have le: "?k u \<le> ?k v" if "u \<le> v" for u v
    using that by (auto simp: less_eq_container_image_identity_def ci_fields_def less_eq_prod_def)
  have "?k a \<in> ?k ` set (b # xs) \<longleftrightarrow> same_container a b" if "\<not> any_window same_container (b # xs)"
  proof
    assume "?k a \<in> ?k ` set (b # xs)"
    then obtain c where c: "c \<in> set (b # xs)" "?k a = ?k c" by auto
    have "a \<le> b" "b \<le> c" using "1.prems" c(1) by auto
    then have "?k a \<le> ?k b" "?k b \<le> ?k c" by (blast intro: le)+
    with c(2) have "?k a = ?k b" by (metis order_antisym)
    then show "same_container a b" by (simp add: same_container_def)
  qed (auto simp: same_container_def)
  moreover have "any_window same_container (b # xs) \<longleftrightarrow> \<not> distinct (map ?k (b # xs))"
    using 1 by simp
  ultimately show ?case by auto
qed auto

lemma any_window_sort:
  "any_window same_container (sort vs) \<longleftrightarrow> \<not> distinct (map (\<lambda>v. (ci_category v, ci_name v)) vs)"
proof -
  have "distinct (map (\<lambda>v. (ci_category v, ci_name v)) (sort vs))
      \<longleftrightarrow> distinct (map (\<lambda>v. (ci_category v, ci_name v)) vs)"
    by (simp add: distinct_map)
  then show ?thesis by (simp add: any_window_sorted)
qed

lemma validate_components_Ok:
  "validate_components vs = Ok ws \<longleftrightarrow>
     vs \<noteq> [] \<and> length vs \<le> 64
     \<and> (\<forall>v \<in> set vs. ci_name v \<noteq> [] \<and> length (ci_name v) \<le> 253)
     \<and> (\<forall>v \<in> set vs. \<forall>i. ci_image v = Some i \<longrightarrow> i \<noteq> [] \<and> length i \<le> 512 \<and> trimmed i)
     \<and> distinct (map (\<lambda>v. (ci_category v, ci_name v)) vs) \<and> ws = sort vs"
proof -
  have image: "(case ci_image v of None \<Rightarrow> False
        | Some i \<Rightarrow> i = [] \<or> length i > MAX_IMAGE_REFERENCE_BYTES \<or> \<not> trimmed i) \<longleftrightarrow>
      \<not> (\<forall>i. ci_image v = Some i \<longrightarrow> i \<noteq> [] \<and> length i \<le> 512 \<and> trimmed i)" for v
    by (auto simp: MAX_IMAGE_REFERENCE_BYTES_def split: option.splits)
  show ?thesis
    unfolding validate_components_def image list_ex_iff any_window_sort MAX_RELEASE_CONTAINERS_def
      MAX_CONTAINER_NAME_BYTES_def
    by (auto simp: not_le)
qed

lemma sorted_distinct_containers:
  assumes "distinct (map (\<lambda>v. (ci_category v, ci_name v)) vs)"
  shows "distinct (map (\<lambda>v. (ci_category v, ci_name v)) (sort vs))"
  using assms by (simp add: distinct_map)

lemma sort_Nil_iff [simp]: "sort vs = [] \<longleftrightarrow> vs = []"
  by (metis length_0_conv length_sort)

lemma validate_components_idem:
  "validate_components vs = Ok ws \<Longrightarrow> validate_components ws = Ok ws"
  by (auto simp: validate_components_Ok sorted_distinct_containers sorted_sort_id)

lemma identity_of_Ok:
  "identity_of sha cs = Ok r \<Longrightarrow>
     validate_release sha r = Ok ()
     \<and> (\<exists>vs. cs = Ok vs \<and> ri_containers r = sort vs \<and> ri_digest r = digest_components sha (sort vs))"
  by (auto simp: identity_of_def validate_release_def result_laws validate_components_idem)
    (simp_all add: validate_components_Ok)

text \<open>What the constructors build passes validation: an identity returned by \<open>from_images\<close> or by
  \<open>from_image_ids\<close> is accepted by \<open>validate\<close>, whose acceptance means one to 64 containers in
  strictly increasing order of category and name, with bounded names and image references and
  the digest of exactly these containers.\<close>

theorem release_identity_validates:
  assumes "from_images sha xs = Ok r \<or> from_image_ids sha ys = Ok r"
  shows "validate_release sha r = Ok () \<and> 1 \<le> length (ri_containers r) \<and> length (ri_containers r) \<le> 64
    \<and> sorted (ri_containers r)
    \<and> distinct (map (\<lambda>v. (ci_category v, ci_name v)) (ri_containers r))
    \<and> ri_digest r = sha (components_preimage (ri_containers r))"
proof -
  from assms have ok: "validate_release sha r = Ok ()"
    unfolding from_images_def from_image_ids_def by (auto dest: identity_of_Ok)
  then have v: "validate_components (ri_containers r) = Ok (ri_containers r)"
      "digest_components sha (ri_containers r) = ri_digest r"
    by (auto simp: validate_release_def result_laws split: if_splits)
  then have "ri_containers r \<noteq> []" "sorted (ri_containers r)"
    by (auto simp: validate_components_Ok) (metis sorted_sort)
  with v ok show ?thesis
    by (auto simp: validate_components_Ok digest_components_def Suc_le_eq)
qed

section \<open>The digest determines the containers\<close>

lemma bytes_of_inj: "bytes_of s = bytes_of t \<longleftrightarrow> s = t"
proof -
  have "inj (\<lambda>c. of_nat (byte c) :: u8)"
  proof (rule injI)
    fix c d
    assume "(of_nat (byte c) :: u8) = of_nat (byte d)"
    then have "unat (of_nat (byte c) :: u8) = unat (of_nat (byte d) :: u8)" by simp
    moreover have "byte c < 256" "byte d < 256" by (simp_all add: byte_def)
    ultimately have "byte c = byte d" by (simp add: unat_of_nat_small)
    then show "c = d" by (simp add: byte_def)
  qed
  then show ?thesis by (simp add: bytes_of_def inj_map_eq_map)
qed

lemma length_bytes_of [simp]: "length (bytes_of s) = length s"
  by (simp add: bytes_of_def)

lemma usize_be_inj:
  assumes "m < 2 ^ 64" "n < 2 ^ 64" "usize_be m = usize_be n"
  shows "m = n"
proof -
  have "be_nat (be_bytes 8 m) = be_nat (be_bytes 8 n)" using assms(3) by (simp add: usize_be_def)
  with assms(1,2) show ?thesis by (simp add: be_nat_be_bytes)
qed

text \<open>A length-prefixed text can be split off in one way only.\<close>

lemma prefixed_text_inj:
  assumes "length s < 2 ^ 64" "length t < 2 ^ 64"
    and "usize_be (length s) @ bytes_of s @ us = usize_be (length t) @ bytes_of t @ vs"
  shows "s = t \<and> us = vs"
proof -
  have "usize_be (length s) = usize_be (length t)" and rest: "bytes_of s @ us = bytes_of t @ vs"
    using assms(3) by (auto simp: usize_be_def append_eq_append_conv)
  with assms(1,2) have "length s = length t" by (blast intro: usize_be_inj)
  with rest show ?thesis by (simp add: append_eq_append_conv bytes_of_inj)
qed

lemma category_byte_inj: "category_byte a = category_byte b \<longleftrightarrow> a = b"
  by (cases a; cases b) simp_all

definition component_ok :: "container_image_identity \<Rightarrow> bool" where
  "component_ok v \<longleftrightarrow> length (ci_name v) < 2 ^ 64 \<and> length (ci_digest v) = 32"

definition component_key :: "container_image_identity \<Rightarrow> container_category \<times> string \<times> u8 list" where
  "component_key v = (ci_category v, ci_name v, ci_digest v)"

lemma component_bytes_inj:
  assumes "component_ok v" "component_ok w" "component_bytes v @ us = component_bytes w @ vs"
  shows "component_key v = component_key w \<and> us = vs"
proof -
  have "usize_be (length (ci_name v)) @ bytes_of (ci_name v) @ ci_digest v @ us
      = usize_be (length (ci_name w)) @ bytes_of (ci_name w) @ ci_digest w @ vs"
    and cat: "ci_category v = ci_category w"
    using assms(3) by (auto simp: component_bytes_def category_byte_inj)
  with assms(1,2) have "ci_name v = ci_name w \<and> ci_digest v @ us = ci_digest w @ vs"
    by (intro prefixed_text_inj) (simp_all add: component_ok_def)
  with assms(1,2) cat show ?thesis by (simp add: component_key_def component_ok_def append_eq_append_conv)
qed

lemma components_bytes_inj:
  assumes "list_all component_ok vs" "list_all component_ok ws"
    and "concat (map component_bytes vs) = concat (map component_bytes ws)"
  shows "map component_key vs = map component_key ws"
  using assms
proof (induction vs arbitrary: ws)
  case Nil
  then show ?case by (cases ws) (auto simp: component_bytes_def)
next
  case (Cons v vs)
  then obtain w ws' where ws: "ws = w # ws'" by (cases ws) (auto simp: component_bytes_def)
  with Cons.prems component_bytes_inj [of v w "concat (map component_bytes vs)" "concat (map component_bytes ws')"]
  show ?case using Cons.IH [of ws'] by simp
qed

text \<open>C27: A release digest stands for one set of images. The bytes that are hashed determine the
  category, name and image digest of every container, so if the hash has no collision between
  the two inputs, equal digests mean equal containers (the image reference, which is a mutable
  name, is left out on purpose).\<close>

theorem release_digest_injective:
  assumes "list_all component_ok vs" "list_all component_ok ws"
    and collision_free: "sha (components_preimage vs) = sha (components_preimage ws) \<Longrightarrow>
      components_preimage vs = components_preimage ws"
  shows "digest_components sha vs = digest_components sha ws \<longleftrightarrow>
    map component_key vs = map component_key ws"
proof
  assume "digest_components sha vs = digest_components sha ws"
  then have "components_preimage vs = components_preimage ws"
    by (intro collision_free) (simp add: digest_components_def)
  with assms(1,2) show "map component_key vs = map component_key ws"
    by (intro components_bytes_inj) (simp_all add: components_preimage_def)
next
  assume keys: "map component_key vs = map component_key ws"
  let ?g = "\<lambda>(c, n, d). category_byte c # usize_be (length n) @ bytes_of n @ d"
  have "component_bytes = ?g \<circ> component_key"
    by (rule ext) (simp add: component_bytes_def component_key_def)
  then have g: "map component_bytes us = map ?g (map component_key us)" for us by simp
  have "map component_bytes vs = map component_bytes ws" unfolding g keys ..
  then show "digest_components sha vs = digest_components sha ws"
    by (simp add: digest_components_def components_preimage_def)
qed

lemma hex_pairs_length: "length (hex_pairs s) = length s div 2"
  by (induction s rule: hex_pairs.induct) auto

lemma parse_image_id_length: "parse_image_id s = Ok d \<Longrightarrow> length d = 32"
  by (auto simp: parse_image_id_def hex_pairs_length split: option.splits if_splits)

lemma rsplit_once_none:
  assumes "p \<noteq> []" "hd p \<notin> set s"
  shows "rsplit_once s p = None"
  using assms(2)
proof (induction s)
  case (Cons c s)
  then show ?case using assms(1) by (cases p) auto
qed (simp add: assms(1))

lemma rsplit_once_last:
  assumes "p \<noteq> []" "hd p \<notin> set (tl p @ s)"
  shows "rsplit_once (pre @ p @ s) p = Some (pre, s)"
proof (induction pre)
  case Nil
  obtain c q where p: "p = c # q" using assms(1) by (cases p) auto
  then have "rsplit_once (q @ s) p = None" using assms by (intro rsplit_once_none) auto
  with p show ?case by simp
qed simp

definition hex_digit :: "nat \<Rightarrow> char" where
  "hex_digit n = char_of (if n < 10 then 48 + n else 87 + n)"

definition hex_encode :: "u8 list \<Rightarrow> string" where
  "hex_encode bs = concat (map (\<lambda>b. [hex_digit (unat b div 16), hex_digit (unat b mod 16)]) bs)"

lemma byte_hex_digit: "n < 16 \<Longrightarrow> byte (hex_digit n) = (if n < 10 then 48 + n else 87 + n)"
  by (simp add: hex_digit_def byte_def)

lemma hex_digit_valid:
  assumes "n < 16"
  shows "is_ascii_hexdigit (hex_digit n)" "hex_value (hex_digit n) = n" "hex_digit n \<noteq> CHR ''s''"
proof -
  show "is_ascii_hexdigit (hex_digit n)" "hex_value (hex_digit n) = n"
    using assms by (auto simp: is_ascii_hexdigit_def is_ascii_digit_def hex_value_def byte_hex_digit)
  have "byte (CHR ''s'') = 115" by (simp add: byte_def)
  then show "hex_digit n \<noteq> CHR ''s''" using byte_hex_digit [OF assms] assms by (auto split: if_splits)
qed

lemma hex_pairs_encode: "hex_pairs (hex_encode bs) = bs"
proof (induction bs)
  case (Cons b bs)
  have b: "unat b < 256" by (rule unat_byte_bound)
  then have "unat b div 16 < 16" by simp
  moreover have "(of_nat (16 * (unat b div 16) + unat b mod 16) :: u8) = b" by simp
  ultimately show ?case
    using Cons by (simp add: hex_encode_def hex_digit_valid del: of_nat_add of_nat_mult)
qed (simp add: hex_encode_def)

lemma hex_encode_digits: "c \<in> set (hex_encode bs) \<Longrightarrow> \<exists>n < 16. c = hex_digit n"
proof -
  assume "c \<in> set (hex_encode bs)"
  then obtain b :: u8 where "c = hex_digit (unat b div 16) \<or> c = hex_digit (unat b mod 16)"
    by (auto simp: hex_encode_def)
  moreover have "unat b div 16 < 16" using unat_byte_bound [of b] by simp
  moreover have "unat b mod 16 < 16" by simp
  ultimately show ?thesis by blast
qed

text \<open>Image identifiers are read back: for every prefix (such as \<open>docker-pullable://repo@\<close>) and
  every 32-byte digest, \<open>parse_image_id\<close> of the prefix, \<open>sha256:\<close> and the hexadecimal digest
  returns the digest; and whatever it accepts has 32 bytes.\<close>

theorem image_id_roundtrip:
  "(length d = 32 \<longrightarrow> parse_image_id (pre @ ''sha256:'' @ hex_encode d) = Ok d)
   \<and> (parse_image_id s = Ok d' \<longrightarrow> length d' = 32)"
proof -
  have "rsplit_once (pre @ ''sha256:'' @ hex_encode d) ''sha256:'' = Some (pre, hex_encode d)"
    by (rule rsplit_once_last) (auto dest!: hex_encode_digits hex_digit_valid(3))
  moreover have "list_all is_ascii_hexdigit (hex_encode d)"
    unfolding list_all_iff by (auto dest!: hex_encode_digits simp: hex_digit_valid)
  moreover have "length (hex_encode d) = 2 * length d"
    by (simp add: hex_encode_def length_concat comp_def sum_list_triv)
  ultimately show ?thesis
    by (auto simp: parse_image_id_def hex_pairs_encode parse_image_id_length
        simp del: append_Cons append_Nil)
qed

theorem image_id_roundtrip_witness:
  "parse_image_id (''docker://'' @ ''sha256:'' @ hex_encode (replicate 32 0xaa)) = Ok (replicate 32 0xaa)"
  using image_id_roundtrip [of "replicate 32 0xaa" "''docker://''"] by simp

definition sample_image_id :: string where
  "sample_image_id = ''sha256:'' @ replicate 64 (CHR ''a'')"

lemma sample_image_id_parses: "\<exists>d. parse_image_id sample_image_id = Ok d"
proof -
  have "rsplit_once ([] @ ''sha256:'' @ replicate 64 (CHR ''a'')) ''sha256:'' = Some ([], replicate 64 (CHR ''a''))"
    by (rule rsplit_once_last) simp_all
  then show ?thesis
    by (simp add: parse_image_id_def sample_image_id_def list_all_iff is_ascii_hexdigit_def byte_def)
qed

theorem release_identity_validates_witness:
  "\<exists>r. from_images id [(Init, ''a'', ''i'', sample_image_id)] = Ok r \<and> validate_release id r = Ok ()"
proof -
  have trim: "trimmed ''i''" by (rule lowercase_trimmed) (simp add: is_ascii_lowercase_def byte_def)
  obtain d where "parse_image_id sample_image_id = Ok d" using sample_image_id_parses by blast
  with trim obtain r where r: "from_images id [(Init, ''a'', ''i'', sample_image_id)] = Ok r"
    unfolding from_images_def by (simp add: identity_of_def
        validate_components_def MAX_RELEASE_CONTAINERS_def MAX_CONTAINER_NAME_BYTES_def
        MAX_IMAGE_REFERENCE_BYTES_def)
  with release_identity_validates [of id "[(Init, ''a'', ''i'', sample_image_id)]" r "[]"]
  show ?thesis by blast
qed

theorem release_digest_injective_witness:
  "digest_components id [ContainerImage Init ''ab'' None (replicate 32 1)]
     \<noteq> digest_components id [ContainerImage Init ''a'' None (replicate 32 1)]"
  using release_digest_injective [of "[ContainerImage Init ''ab'' None (replicate 32 1)]"
      "[ContainerImage Init ''a'' None (replicate 32 1)]" id]
  by (simp add: component_ok_def component_key_def)

end
