(* ===== verification/Event_Payload.thy ===== *)
theory Event_Payload
  imports Termination Release
begin

text \<open>
  The event envelope (\<open>crates/event-model/src/lib.rs\<close>): Kubernetes attribution, the sixteen event
  payloads and \<open>RuntimeEvent\<close> with the name of its kind.
\<close>

definition EVENT_SCHEMA_VERSION :: u32 where "EVENT_SCHEMA_VERSION = 1"
definition PROTOCOL_VERSION :: u32 where "PROTOCOL_VERSION = 2"

record kubernetes_attribution =
  project_id :: uuid
  application_id :: uuid
  node_name :: string
  namespace :: string
  pod_uid :: string
  pod_name :: string
  container_id :: string
  container_name :: string
  workload_uid :: string
  workload_kind :: string
  workload_name :: string
  release :: "string option"
  release_identity_of :: "release_identity option"

record process_exec =
  executable :: string
  exec_parent_command :: "string option"
  exec_generation :: "process_generation_identity option"

record syscall_event =
  syscall_name :: string

record file_create = create_path :: file_activity_path
record file_modify = modify_path :: file_activity_path
record file_delete = delete_path :: file_activity_path

datatype event_payload =
    ProcessStart process_start
  | ThreadActivityWindow thread_activity_window
  | ProcessExec process_exec
  | Syscall syscall_event
  | NetworkConnect network_connect
  | NetworkListen network_listen
  | NetworkAccept network_accept
  | NetworkDnsQuery network_dns_query
  | NetworkDnsResponse network_dns_response
  | FileCreate file_create
  | FileModify file_modify
  | FileDelete file_delete
  | FileRename file_rename
  | ProcessExit process_exit
  | ContainerTermination container_termination
  | ContainerRestart container_restart

record runtime_event =
  event_id :: uuid
  event_observed_at :: datetime
  schema_version :: u32
  attribution :: kubernetes_attribution
  event_process :: process_identity
  payload :: event_payload

fun payload_kind :: "event_payload \<Rightarrow> string" where
  "payload_kind (ProcessExec _) = ''process.exec''"
| "payload_kind (ProcessStart _) = ''process.start''"
| "payload_kind (ThreadActivityWindow _) = ''thread.activity.window''"
| "payload_kind (Syscall _) = ''syscall''"
| "payload_kind (NetworkConnect _) = ''network.connect''"
| "payload_kind (NetworkListen _) = ''network.listen''"
| "payload_kind (NetworkAccept _) = ''network.accept''"
| "payload_kind (NetworkDnsQuery _) = ''network.dns.query''"
| "payload_kind (NetworkDnsResponse _) = ''network.dns.response''"
| "payload_kind (FileCreate _) = ''file.create''"
| "payload_kind (FileModify _) = ''file.modify''"
| "payload_kind (FileDelete _) = ''file.delete''"
| "payload_kind (FileRename _) = ''file.rename''"
| "payload_kind (ProcessExit _) = ''process.exit''"
| "payload_kind (ContainerTermination _) = ''container.terminated''"
| "payload_kind (ContainerRestart _) = ''container.restart''"

definition kind :: "runtime_event \<Rightarrow> string" where
  "kind e = payload_kind (payload e)"

end
