(* ===== verification/Rust_Text.thy ===== *)
theory Rust_Text
  imports Rust_Strings
begin

text \<open>
  More of Rust's string library: \<open>String::from_utf8_lossy\<close>, \<open>str::trim\<close>, \<open>str::trim_end\<close> and
  \<open>str::parse::<u32>\<close>, on byte strings.
\<close>

section \<open>UTF-8\<close>

definition cont :: "char \<Rightarrow> bool" where
  "cont c \<longleftrightarrow> 128 \<le> byte c \<and> byte c < 192"

text \<open>The bytes that may follow the first byte of a three- or four-byte sequence.\<close>

definition second_of_three :: "char \<Rightarrow> char \<Rightarrow> bool" where
  "second_of_three a b \<longleftrightarrow>
     (byte a = 224 \<and> 160 \<le> byte b \<and> byte b < 192)
     \<or> (225 \<le> byte a \<and> byte a \<le> 236 \<and> cont b)
     \<or> (byte a = 237 \<and> 128 \<le> byte b \<and> byte b < 160)
     \<or> (238 \<le> byte a \<and> byte a \<le> 239 \<and> cont b)"

definition second_of_four :: "char \<Rightarrow> char \<Rightarrow> bool" where
  "second_of_four a b \<longleftrightarrow>
     (byte a = 240 \<and> 144 \<le> byte b \<and> byte b < 192)
     \<or> (241 \<le> byte a \<and> byte a \<le> 243 \<and> cont b)
     \<or> (byte a = 244 \<and> 128 \<le> byte b \<and> byte b < 144)"

text \<open>
  The longest prefix that is a character (\<open>True\<close>) or the invalid prefix that is replaced as one
  unit (\<open>False\<close>), with its length.
\<close>

fun utf8_chunk :: "string \<Rightarrow> bool \<times> nat" where
  "utf8_chunk [] = (False, 0)"
| "utf8_chunk (a # s) =
     (if byte a < 128 then (True, 1)
      else if 194 \<le> byte a \<and> byte a < 224 then
        (case s of b # _ \<Rightarrow> if cont b then (True, 2) else (False, 1) | [] \<Rightarrow> (False, 1))
      else if 224 \<le> byte a \<and> byte a < 240 then
        (case s of
           b # s' \<Rightarrow> if second_of_three a b then
              (case s' of c # _ \<Rightarrow> if cont c then (True, 3) else (False, 2) | [] \<Rightarrow> (False, 2))
            else (False, 1)
         | [] \<Rightarrow> (False, 1))
      else if 240 \<le> byte a \<and> byte a < 245 then
        (case s of
           b # s' \<Rightarrow> if second_of_four a b then
              (case s' of
                 c # s'' \<Rightarrow> if cont c then
                   (case s'' of d # _ \<Rightarrow> if cont d then (True, 4) else (False, 3) | [] \<Rightarrow> (False, 3))
                  else (False, 2)
               | [] \<Rightarrow> (False, 2))
            else (False, 1)
         | [] \<Rightarrow> (False, 1))
      else (False, 1))"

lemma utf8_chunk_pos: "0 < snd (utf8_chunk (a # s))"
  by (auto split: list.splits)

definition replacement :: string where
  "replacement = map char_of [239, 191, 189 :: nat]"

function (sequential) from_utf8_lossy :: "string \<Rightarrow> string" where
  "from_utf8_lossy [] = []"
| "from_utf8_lossy (a # s) =
     (case utf8_chunk (a # s) of (ok, n) \<Rightarrow>
        (if ok then take n (a # s) else replacement) @ from_utf8_lossy (drop n (a # s)))"
  by pat_completeness auto
termination
proof (relation "measure length")
  fix a :: char and s ok n
  assume "(ok, n) = utf8_chunk (a # s)"
  then have "0 < n" using utf8_chunk_pos [of a s] by (metis snd_conv)
  then show "(drop n (a # s), a # s) \<in> measure length" by simp
qed simp

declare utf8_chunk.simps(2) [simp del] from_utf8_lossy.simps(2) [simp del]

lemma from_utf8_lossy_ascii:
  "list_all is_ascii s \<Longrightarrow> from_utf8_lossy s = s"
proof (induction s)
  case (Cons a s)
  then show ?case by (simp add: from_utf8_lossy.simps(2) utf8_chunk.simps(2) is_ascii_def)
qed simp

text \<open>The result is empty only for empty input, and NUL bytes come from NUL bytes only.\<close>

lemma from_utf8_lossy_Nil_iff: "from_utf8_lossy s = [] \<longleftrightarrow> s = []"
proof (cases s)
  case (Cons a t)
  obtain ok n where c: "utf8_chunk (a # t) = (ok, n)" by (cases "utf8_chunk (a # t)")
  then have "0 < n" using utf8_chunk_pos [of a t] by simp
  with Cons c show ?thesis by (simp add: from_utf8_lossy.simps(2) replacement_def)
qed simp

lemma from_utf8_lossy_set: "set (from_utf8_lossy s) \<subseteq> set s \<union> set replacement"
proof (induction s rule: from_utf8_lossy.induct)
  case (2 a s)
  obtain ok n where "utf8_chunk (a # s) = (ok, n)" by (cases "utf8_chunk (a # s)")
  moreover from this have "set (from_utf8_lossy (drop n (a # s))) \<subseteq> set (drop n (a # s)) \<union> set replacement"
    using "2.IH" by simp
  moreover have "set (take n (a # s)) \<subseteq> set (a # s)" "set (drop n (a # s)) \<subseteq> set (a # s)"
    by (rule set_take_subset, rule set_drop_subset)
  ultimately show ?case by (auto simp: from_utf8_lossy.simps(2))
qed simp

section \<open>Trimming\<close>

fun strip_suffix :: "string list \<Rightarrow> string \<Rightarrow> string option" where
  "strip_suffix [] s = None"
| "strip_suffix (w # ws) s =
     (if w \<noteq> [] \<and> suffix w s then Some (take (length s - length w) s) else strip_suffix ws s)"

lemma strip_suffix_shorter: "strip_suffix ws s = Some t \<Longrightarrow> length t < length s"
  by (induction ws s rule: strip_suffix.induct) (auto simp: suffix_def split: if_splits)

function trim_end :: "string \<Rightarrow> string" where
  "trim_end s = (case strip_suffix white_space s of None \<Rightarrow> s | Some t \<Rightarrow> trim_end t)"
  by pat_completeness auto
termination
  by (relation "measure length") (auto dest: strip_suffix_shorter)

declare trim_end.simps [simp del]

fun strip_white :: "string list \<Rightarrow> string \<Rightarrow> string option" where
  "strip_white [] s = None"
| "strip_white (w # ws) s = (if w \<noteq> [] \<and> prefix w s then Some (drop (length w) s) else strip_white ws s)"

lemma strip_white_shorter: "strip_white ws s = Some t \<Longrightarrow> length t < length s"
  by (induction ws s rule: strip_white.induct) (auto simp: prefix_def split: if_splits)

function trim_start :: "string \<Rightarrow> string" where
  "trim_start s = (case strip_white white_space s of None \<Rightarrow> s | Some t \<Rightarrow> trim_start t)"
  by pat_completeness auto
termination
  by (relation "measure length") (auto dest: strip_white_shorter)

declare trim_start.simps [simp del]

definition trim :: "string \<Rightarrow> string" where
  "trim s = trim_end (trim_start s)"

lemma strip_white_None: "strip_white ws s = None \<longleftrightarrow> (\<forall>w \<in> set ws. w = [] \<or> \<not> prefix w s)"
  by (induction ws s rule: strip_white.induct) auto

lemma strip_suffix_None: "strip_suffix ws s = None \<longleftrightarrow> (\<forall>w \<in> set ws. w = [] \<or> \<not> suffix w s)"
  by (induction ws s rule: strip_suffix.induct) auto

lemma white_space_nonempty: "[] \<notin> set white_space"
  by (auto simp: white_space_def)

lemma trimmed_iff: "trimmed s \<longleftrightarrow> strip_white white_space s = None \<and> strip_suffix white_space s = None"
  using white_space_nonempty by (auto simp: trimmed_def strip_white_None strip_suffix_None)

lemma trim_trimmed: "trimmed s \<Longrightarrow> trim s = s"
  by (simp add: trimmed_iff trim_def trim_start.simps trim_end.simps)

lemma strip_white_suffix: "strip_white ws s = Some t \<Longrightarrow> suffix t s"
  by (induction ws s rule: strip_white.induct) (auto simp: suffix_drop split: if_splits)

lemma strip_suffix_prefix: "strip_suffix ws s = Some t \<Longrightarrow> prefix t s"
  by (induction ws s rule: strip_suffix.induct) (auto simp: take_is_prefix split: if_splits)

lemma trim_end_prefix: "prefix (trim_end s) s"
proof (induction s rule: trim_end.induct)
  case (1 s)
  then show ?case
    by (subst trim_end.simps)
      (auto split: option.split dest: strip_suffix_prefix intro: prefix_order.order_trans)
qed

lemma trim_start_stops: "strip_white white_space (trim_start s) = None"
proof (induction s rule: trim_start.induct)
  case (1 s)
  then show ?case by (subst trim_start.simps) (auto split: option.split)
qed

lemma trim_end_stops: "strip_suffix white_space (trim_end s) = None"
proof (induction s rule: trim_end.induct)
  case (1 s)
  then show ?case by (subst trim_end.simps) (auto split: option.split)
qed

lemma trimmed_trim: "trimmed (trim s)"
proof -
  have "prefix (trim s) (trim_start s)" by (simp add: trim_def trim_end_prefix)
  then have "strip_white white_space (trim s) = None"
    using trim_start_stops [of s] by (auto simp: strip_white_None intro: prefix_order.order_trans)
  then show ?thesis by (simp add: trimmed_iff trim_end_stops trim_def)
qed

lemma trim_eq_iff: "trim s = s \<longleftrightarrow> trimmed s"
  by (metis trim_trimmed trimmed_trim)

lemma trim_trim [simp]: "trim (trim s) = trim s"
  by (rule trim_trimmed) (rule trimmed_trim)

lemma lowercase_trim: "\<forall>c \<in> set s. is_ascii_lowercase c \<Longrightarrow> trim s = s"
  by (rule trim_trimmed) (rule lowercase_trimmed)

section \<open>Numbers\<close>

fun digits_value :: "nat \<Rightarrow> string \<Rightarrow> nat option" where
  "digits_value acc [] = Some acc"
| "digits_value acc (c # cs) =
     (if is_ascii_digit c then digits_value (10 * acc + (byte c - 48)) cs else None)"

definition parse_u32 :: "string \<Rightarrow> u32 option" where
  "parse_u32 s =
     (let ds = (case s of c # cs \<Rightarrow> if c = CHR ''+'' then cs else s | [] \<Rightarrow> []) in
      if ds = [] then None
      else case digits_value 0 ds of
        None \<Rightarrow> None
      | Some n \<Rightarrow> if n < 2 ^ 32 then Some (of_nat n) else None)"

end
