(* ===== verification/Dns_Runtime.thy ===== *)
theory Dns_Runtime
  imports Dns_Message Dns_Tcp Dns_State Event_Payload Rust_Text
begin

text \<open>
  The DNS processor of the agent (\<open>crates/agent/src/dns_runtime.rs\<close>): a captured packet is
  reassembled when it came over TCP, parsed, and turned into a query or response event through
  the correlation state. The clocks are read once per packet and are inputs. The counters are
  the ones this component increments.

  The theorems compose the parser, the reassembler and the correlation state: the events are
  valid, every discarded message is counted, and a query and its response, sent as encoded
  messages, yield the two events attributed to the process that asked.
\<close>

section \<open>Packets\<close>

text \<open>\<open>DnsPacketRecord\<close> of \<open>crates/agent-ebpf-common/src/lib.rs\<close>; the arrays are byte lists.\<close>

record dns_packet_record =
  timestamp_ns :: u64
  pkt_cgroup_id :: u64
  socket_cookie :: u64
  pid_tgid :: u64
  pkt_sequence :: u32
  payload_len :: u16
  resolver_port :: u16
  pkt_address_family :: u8
  pkt_transport :: u8
  pkt_direction :: u8
  tcp_flags :: u8
  pkt_resolver_address :: "u8 list"
  pkt_command :: "u8 list"
  pkt_payload :: "u8 list"

definition ADDRESS_FAMILY_IPV4 :: u8 where "ADDRESS_FAMILY_IPV4 = 1"
definition ADDRESS_FAMILY_IPV6 :: u8 where "ADDRESS_FAMILY_IPV6 = 2"
definition DNS_TRANSPORT_UDP :: u8 where "DNS_TRANSPORT_UDP = 1"
definition DNS_TRANSPORT_TCP :: u8 where "DNS_TRANSPORT_TCP = 2"
definition DNS_DIRECTION_EGRESS :: u8 where "DNS_DIRECTION_EGRESS = 1"
definition DNS_DIRECTION_INGRESS :: u8 where "DNS_DIRECTION_INGRESS = 2"

definition resolver_address :: "dns_packet_record \<Rightarrow> ip_addr option" where
  "resolver_address p =
     (if pkt_address_family p = ADDRESS_FAMILY_IPV4
      then Some (V4 (from_be_bytes (take 4 (pkt_resolver_address p))))
      else if pkt_address_family p = ADDRESS_FAMILY_IPV6
      then Some (V6 (from_be_bytes (pkt_resolver_address p)))
      else None)"

definition transport_of :: "u8 \<Rightarrow> dns_transport option" where
  "transport_of v = (if v = DNS_TRANSPORT_UDP then Some Udp
     else if v = DNS_TRANSPORT_TCP then Some Tcp else None)"

definition direction_of :: "u8 \<Rightarrow> dns_direction option" where
  "direction_of v = (if v = DNS_DIRECTION_EGRESS then Some Egress
     else if v = DNS_DIRECTION_INGRESS then Some Ingress else None)"

definition command_of :: "u8 list \<Rightarrow> string" where
  "command_of bytes =
     (let c = from_utf8_lossy (map chr8 (takeWhile (\<lambda>b. b \<noteq> 0) bytes)) in
      if c = [] then ''dns'' else c)"

text \<open>Both halves fit 32 bits, so \<open>u32::try_from\<close> never falls back to its default.\<close>

definition process_identity_of :: "dns_packet_record \<Rightarrow> process_identity" where
  "process_identity_of p =
     \<lparr>cgroup_id = pkt_cgroup_id p, pid = ucast (take_bit 32 (pid_tgid p)),
      tgid = ucast (drop_bit 32 (pid_tgid p)), command = command_of (pkt_command p)\<rparr>"

section \<open>The processor\<close>

record dns_counters =
  dns_packet_decode_failed :: u64
  dns_malformed_compression :: u64
  dns_truncated :: u64
  dns_unsupported_record :: u64
  dns_correlation_miss :: u64
  dns_correlation_capacity :: u64
  dns_tcp_reassembly :: u64

record dns_observation_config =
  max_pending_transactions :: nat
  cfg_max_names_per_address :: nat
  cfg_max_ttl_seconds :: u32
  max_tcp_streams :: nat
  max_captured_bytes :: nat

record dns_processor =
  proc_state :: dns_state
  proc_tcp :: tcp_dns_reassembler
  max_ttl_seconds :: u32

record packet_context =
  ctx_direction :: dns_direction
  ctx_transport :: dns_transport
  ctx_resolver :: ip_addr
  ctx_now :: instant

definition dns_processor_new :: "dns_observation_config \<Rightarrow> dns_processor" where
  "dns_processor_new c =
     \<lparr>proc_state = dns_state_new (max_pending_transactions c) (cfg_max_names_per_address c)
        5000000000 (nanos (cfg_max_ttl_seconds c)),
      proc_tcp = tcp_dns_reassembler_new (max_tcp_streams c) (max_captured_bytes c) 5000000000,
      max_ttl_seconds = cfg_max_ttl_seconds c\<rparr>"

definition count_parse_error :: "dns_parse_error \<Rightarrow> dns_counters \<Rightarrow> dns_counters" where
  "count_parse_error e c =
     (case e of
        Compression \<Rightarrow> c\<lparr>dns_malformed_compression := dns_malformed_compression c + 1\<rparr>
      | Unsupported \<Rightarrow> c\<lparr>dns_unsupported_record := dns_unsupported_record c + 1\<rparr>
      | _ \<Rightarrow> c\<lparr>dns_packet_decode_failed := dns_packet_decode_failed c + 1\<rparr>)"

definition count_miss :: "dns_counters \<Rightarrow> dns_counters" where
  "count_miss c = c\<lparr>dns_correlation_miss := dns_correlation_miss c + 1\<rparr>"

definition query_key :: "dns_packet_record \<Rightarrow> parsed_dns_message \<Rightarrow> packet_context \<Rightarrow> pending_query_key" where
  "query_key p m x =
     \<lparr>pk_cgroup = pkt_cgroup_id p, pk_transport = ctx_transport x, pk_resolver = ctx_resolver x,
      pk_transaction_id = pm_transaction_id m, pk_name = pm_name m, pk_query_type = pm_query_type m\<rparr>"

definition response_of :: "parsed_dns_message \<Rightarrow> packet_context \<Rightarrow> network_dns_response" where
  "response_of m x =
     \<lparr>r_transaction_id = pm_transaction_id m, r_direction = ctx_direction x,
      r_transport = ctx_transport x, r_resolver = ctx_resolver x, r_name = pm_name m,
      r_type = pm_query_type m, r_code = pm_response_code m, r_truncated = pm_truncated m,
      r_answers = pm_answers m, r_cname_chain = pm_cname_chain m,
      r_effective_ttl = pm_effective_ttl m\<rparr>"

definition query_of :: "parsed_dns_message \<Rightarrow> packet_context \<Rightarrow> network_dns_query" where
  "query_of m x =
     \<lparr>q_transaction_id = pm_transaction_id m, q_direction = ctx_direction x,
      q_transport = ctx_transport x, q_resolver = ctx_resolver x, q_name = pm_name m,
      q_type = pm_query_type m\<rparr>"

definition typed_event ::
    "dns_packet_record \<Rightarrow> parsed_dns_message \<Rightarrow> packet_context \<Rightarrow> datetime \<Rightarrow> dns_processor \<Rightarrow> dns_counters \<Rightarrow>
       dns_processor \<times> dns_counters \<times> (process_identity \<times> event_payload) option" where
  "typed_event p m x utc d c =
     (let key = query_key p m x in
      if \<not> pm_is_response m then
        if ctx_direction x \<noteq> Egress then (d, count_miss c, None)
        else
          let process = process_identity_of p;
              (s, ok) = register_query key process (ctx_now x) (proc_state d);
              d' = d\<lparr>proc_state := s\<rparr>
          in if \<not> ok then (d', c\<lparr>dns_correlation_capacity := dns_correlation_capacity c + 1\<rparr>, None)
             else (d', c, Some (process, NetworkDnsQuery (query_of m x)))
      else if ctx_direction x \<noteq> Ingress then (d, count_miss c, None)
      else
        let response = response_of m x;
            (s, r) = correlate_response key response (ctx_now x) utc (proc_state d);
            d' = d\<lparr>proc_state := s\<rparr>
        in (case r of
              Ok process \<Rightarrow> (d', c, Some (process, NetworkDnsResponse response))
            | Err _ \<Rightarrow> (d', count_miss c, None)))"

definition stream_key :: "dns_packet_record \<Rightarrow> tcp_dns_stream_key" where
  "stream_key p = \<lparr>key_cgroup = pkt_cgroup_id p, key_cookie = socket_cookie p, key_direction = pkt_direction p\<rparr>"

text \<open>From a complete message on.\<close>

definition process_message ::
    "dns_packet_record \<Rightarrow> u8 list \<Rightarrow> packet_context \<Rightarrow> datetime \<Rightarrow> dns_processor \<Rightarrow> dns_counters \<Rightarrow>
       dns_processor \<times> dns_counters \<times> (process_identity \<times> event_payload) option" where
  "process_message p bytes x utc d c =
     (case parse_message bytes (max_ttl_seconds d) of
        Err e \<Rightarrow> (d, count_parse_error e c, None)
      | Ok m \<Rightarrow>
          typed_event p m x utc d
            (if pm_truncated m then c\<lparr>dns_truncated := dns_truncated c + 1\<rparr> else c))"

definition dns_process ::
    "dns_packet_record \<Rightarrow> instant \<Rightarrow> datetime \<Rightarrow> dns_processor \<Rightarrow> dns_counters \<Rightarrow>
       dns_processor \<times> dns_counters \<times> (process_identity \<times> event_payload) option" where
  "dns_process p now utc d c =
     (case (transport_of (pkt_transport p), direction_of (pkt_direction p), resolver_address p) of
        (Some tr, Some dir, Some addr) \<Rightarrow>
          if unat (payload_len p) > length (pkt_payload p) then (d, c, None)
          else
            let bytes = take (unat (payload_len p)) (pkt_payload p);
                x = \<lparr>ctx_direction = dir, ctx_transport = tr, ctx_resolver = addr, ctx_now = now\<rparr>
            in if tr = Tcp then
                 (case tcp_push (stream_key p) (pkt_sequence p) bytes now (proc_tcp d) of
                    (t, Ok (Some message)) \<Rightarrow> process_message p message x utc (d\<lparr>proc_tcp := t\<rparr>) c
                  | (t, Ok None) \<Rightarrow> (d\<lparr>proc_tcp := t\<rparr>, c, None)
                  | (t, Err _) \<Rightarrow>
                      (d\<lparr>proc_tcp := t\<rparr>, c\<lparr>dns_tcp_reassembly := dns_tcp_reassembly c + 1\<rparr>, None))
               else process_message p bytes x utc d c
      | _ \<Rightarrow> (d, c, None))"

definition attach_context ::
    "u64 \<Rightarrow> event_payload \<Rightarrow> datetime \<Rightarrow> dns_processor \<Rightarrow> dns_processor \<times> event_payload" where
  "attach_context cgroup pl utc d =
     (case pl of
        NetworkConnect n \<Rightarrow>
          (let (s, ctx) = context_for cgroup (destination_address n) utc (proc_state d)
           in (d\<lparr>proc_state := s\<rparr>, NetworkConnect (n\<lparr>dns_context_of := ctx\<rparr>)))
      | _ \<Rightarrow> (d, pl))"

section \<open>Accounting\<close>

text \<open>The counters of discarded messages.\<close>

definition losses :: "dns_counters \<Rightarrow> u64 list" where
  "losses c = [dns_packet_decode_failed c, dns_malformed_compression c, dns_unsupported_record c,
     dns_correlation_miss c, dns_correlation_capacity c, dns_tcp_reassembly c]"

definition one_more :: "u64 list \<Rightarrow> u64 list \<Rightarrow> bool" where
  "one_more cs cs' \<longleftrightarrow> (\<exists>i < length cs. cs' = cs[i := cs ! i + 1])"

definition incomplete :: "dns_packet_record \<Rightarrow> instant \<Rightarrow> dns_processor \<Rightarrow> bool" where
  "incomplete p now d \<longleftrightarrow> pkt_transport p = DNS_TRANSPORT_TCP \<and>
     snd (tcp_push (stream_key p) (pkt_sequence p) (take (unat (payload_len p)) (pkt_payload p)) now (proc_tcp d))
       = Ok None"

definition malformed_packet :: "dns_packet_record \<Rightarrow> bool" where
  "malformed_packet p \<longleftrightarrow> transport_of (pkt_transport p) = None \<or> direction_of (pkt_direction p) = None
     \<or> resolver_address p = None \<or> unat (payload_len p) > length (pkt_payload p)"

lemma one_more_list:
  "one_more (losses c) (losses (count_miss c))"
  "one_more (losses c) (losses (c\<lparr>dns_correlation_capacity := dns_correlation_capacity c + 1\<rparr>))"
  "one_more (losses c) (losses (c\<lparr>dns_tcp_reassembly := dns_tcp_reassembly c + 1\<rparr>))"
  "one_more (losses c) (losses (count_parse_error e c))"
proof -
  show "one_more (losses c) (losses (count_miss c))"
    unfolding one_more_def losses_def count_miss_def by (intro exI [of _ 3]) simp
  show "one_more (losses c) (losses (c\<lparr>dns_correlation_capacity := dns_correlation_capacity c + 1\<rparr>))"
    unfolding one_more_def losses_def by (intro exI [of _ 4]) simp
  show "one_more (losses c) (losses (c\<lparr>dns_tcp_reassembly := dns_tcp_reassembly c + 1\<rparr>))"
    unfolding one_more_def losses_def by (intro exI [of _ 5]) simp
  show "one_more (losses c) (losses (count_parse_error e c))"
    unfolding one_more_def losses_def count_parse_error_def
    by (cases e; simp; intro exI [of _ "if e = Compression then 1 else if e = Unsupported then 2 else 0"]; simp)
qed

lemma losses_truncated [simp]: "losses (c\<lparr>dns_truncated := n\<rparr>) = losses c"
  by (simp add: losses_def)

lemma typed_event_losses:
  assumes "typed_event p m x utc d c = (d', c', r)"
  shows "case r of None \<Rightarrow> one_more (losses c) (losses c') | Some _ \<Rightarrow> losses c' = losses c"
  using assms one_more_list
  by (auto simp: typed_event_def Let_def split: if_splits prod.splits result.splits)

lemma process_message_losses:
  assumes "process_message p bytes x utc d c = (d', c', r)"
  shows "case r of None \<Rightarrow> one_more (losses c) (losses c') | Some _ \<Rightarrow> losses c' = losses c"
proof (cases "parse_message bytes (max_ttl_seconds d)")
  case (Ok m)
  then have "typed_event p m x utc d
      (if pm_truncated m then c\<lparr>dns_truncated := dns_truncated c + 1\<rparr> else c) = (d', c', r)"
    using assms by (simp add: process_message_def)
  from typed_event_losses [OF this] show ?thesis by (cases r) (auto split: if_splits)
next
  case (Err e)
  with assms one_more_list(4) show ?thesis by (auto simp: process_message_def)
qed

text \<open>C31: No DNS message disappears silently. A well-formed packet record that yields no event either
  is a TCP segment that does not complete a message, and then no counter changes, or adds exactly
  one to exactly one of the six counters of discarded messages; a packet that yields an event
  changes none of them, and a record the kernel could not have written changes nothing.\<close>

theorem dns_messages_accounted:
  assumes "dns_process p now utc d c = (d', c', r)"
  shows "if malformed_packet p then r = None \<and> d' = d \<and> c' = c
    else if incomplete p now d then r = None \<and> c' = c
    else (case r of None \<Rightarrow> one_more (losses c) (losses c') | Some _ \<Rightarrow> losses c' = losses c)"
proof (cases "malformed_packet p")
  case True
  with assms show ?thesis
    by (auto simp: malformed_packet_def dns_process_def Let_def split: option.splits)
next
  case False
  then obtain tr dir addr where k: "transport_of (pkt_transport p) = Some tr"
      "direction_of (pkt_direction p) = Some dir" "resolver_address p = Some addr"
      "\<not> unat (payload_len p) > length (pkt_payload p)"
    by (auto simp: malformed_packet_def)
  have tcp: "tr = Tcp \<longleftrightarrow> pkt_transport p = DNS_TRANSPORT_TCP"
    using k(1) by (auto simp: transport_of_def DNS_TRANSPORT_UDP_def DNS_TRANSPORT_TCP_def split: if_splits)
  show ?thesis
    using False assms k tcp one_more_list(3)
    by (auto simp: dns_process_def Let_def incomplete_def
        split: prod.splits result.splits option.splits if_splits dest!: process_message_losses)
qed

section \<open>Validity of the events\<close>

text \<open>Open queries belong to processes of the control group in their key.\<close>

definition pending_cgroups :: "dns_state \<Rightarrow> bool" where
  "pending_cgroups s \<longleftrightarrow> (\<forall>k q. map_of (pending s) k = Some q \<longrightarrow> cgroup_id (query_process q) = pk_cgroup k)"

lemma pending_cgroups_expire: "pending_cgroups s \<Longrightarrow> pending_cgroups (expire_pending now s)"
  using map_le_SomeD [OF pending_expire_le [of now s]] unfolding pending_cgroups_def by blast

lemma pending_cgroups_register:
  "pending_cgroups s \<Longrightarrow> cgroup_id process = pk_cgroup key \<Longrightarrow>
     pending_cgroups (fst (register_query key process now s))"
  using pending_cgroups_expire [of s now]
  by (auto simp: register_query_def Let_def pending_cgroups_def)

lemma pending_cgroups_correlate:
  assumes "pending_cgroups s" "correlate_response key response now obs s = (s', r)"
  shows "pending_cgroups s'" "r = Ok process \<Longrightarrow> cgroup_id process = pk_cgroup key"
  using assms(2) pending_cgroups_expire [OF assms(1), of now]
  by (auto simp: correlate_response_def Let_def pending_cgroups_def split: option.splits if_splits)

definition event_ok :: "dns_packet_record \<Rightarrow> process_identity \<times> event_payload \<Rightarrow> bool" where
  "event_ok p r \<longleftrightarrow> cgroup_id (fst r) = pkt_cgroup_id p \<and>
     (case snd r of
        NetworkDnsQuery q \<Rightarrow> q_direction q = Egress \<and> valid_dns_name (q_name q) \<and> fst r = process_identity_of p
      | NetworkDnsResponse q \<Rightarrow> r_direction q = Ingress \<and> valid_dns_name (r_name q) \<and> validate_response q = Ok ()
      | _ \<Rightarrow> False)"

definition outcome_ok :: "dns_packet_record \<Rightarrow> (process_identity \<times> event_payload) option \<Rightarrow> bool" where
  "outcome_ok p r \<longleftrightarrow> (case r of None \<Rightarrow> True | Some e \<Rightarrow> event_ok p e)"

lemma outcome_ok_simps [simp]: "outcome_ok p None" "outcome_ok p (Some e) = event_ok p e"
  by (simp_all add: outcome_ok_def)

lemma parsed_response_valid:
  assumes "parse_message bytes ttl = Ok m"
  shows "validate_response (response_of m x) = Ok ()" "valid_dns_name (pm_name m)"
proof -
  let ?ttls = "map ans_ttl (pm_answers m) @ map cn_ttl (pm_cname_chain m)"
  note m = parse_message_sound [OF assms]
  then have each: "\<forall>t \<in> set ?ttls. 1 \<le> t \<and> t \<le> MAX_DNS_TTL_SECONDS"
    by (simp add: MAX_DNS_TTL_SECONDS_def)
  moreover have "Min (set ?ttls) \<in> set ?ttls" if "?ttls \<noteq> []" using that by (intro Min_in) auto
  ultimately have "case pm_effective_ttl m of None \<Rightarrow> True | Some t \<Rightarrow> 1 \<le> t \<and> t \<le> MAX_DNS_TTL_SECONDS"
    using m by (simp split: if_splits)
  with m each show "validate_response (response_of m x) = Ok ()"
    by (auto simp: validate_response_def response_of_def MAX_DNS_ANSWERS_def MAX_DNS_CNAME_CHAIN_def
        validate_ttls_Ok validate_ttl_Ok result_laws split: option.splits)
  from m show "valid_dns_name (pm_name m)" by blast
qed

lemma typed_event_ok:
  assumes "parse_message bytes ttl = Ok m" "pending_cgroups (proc_state d)"
    and "typed_event p m x utc d c = (d', c', r)"
  shows "pending_cgroups (proc_state d') \<and> outcome_ok p r"
proof -
  have key: "pk_cgroup (query_key p m x) = pkt_cgroup_id p" "cgroup_id (process_identity_of p) = pkt_cgroup_id p"
    by (simp_all add: query_key_def process_identity_of_def)
  show ?thesis
    using assms(3) assms(2) key parsed_response_valid(1) [OF assms(1), of x] parsed_response_valid(2) [OF assms(1)]
      pending_cgroups_register [OF assms(2), of "process_identity_of p" "query_key p m x" "ctx_now x"]
      pending_cgroups_correlate [OF assms(2)]
    by (auto simp: typed_event_def Let_def event_ok_def query_of_def response_of_def
        split: if_splits prod.splits result.splits)
qed

lemma process_message_ok:
  assumes "pending_cgroups (proc_state d)" "process_message p bytes x utc d c = (d', c', r)"
  shows "pending_cgroups (proc_state d') \<and> outcome_ok p r"
proof (cases "parse_message bytes (max_ttl_seconds d)")
  case (Ok m)
  then have "typed_event p m x utc d
      (if pm_truncated m then c\<lparr>dns_truncated := dns_truncated c + 1\<rparr> else c) = (d', c', r)"
    using assms(2) by (simp add: process_message_def)
  then show ?thesis by (rule typed_event_ok [OF Ok assms(1)])
qed (use assms in \<open>auto simp: process_message_def\<close>)

lemma dns_process_ok:
  assumes "pending_cgroups (proc_state d)" "dns_process p now utc d c = (d', c', r)"
  shows "pending_cgroups (proc_state d') \<and> outcome_ok p r"
  using assms process_message_ok [of "d\<lparr>proc_tcp := t\<rparr>" p for t] process_message_ok [OF assms(1)]
  by (auto simp: dns_process_def Let_def split: option.splits prod.splits result.splits if_splits)

record dns_packet_step =
  step_packet :: dns_packet_record
  step_now :: instant
  step_utc :: datetime

definition dns_packet_run_step ::
    "dns_processor \<times> dns_counters \<Rightarrow> dns_packet_step \<Rightarrow>
       (dns_processor \<times> dns_counters) \<times> (dns_packet_record \<times> (process_identity \<times> event_payload) option)" where
  "dns_packet_run_step s x =
     (case dns_process (step_packet x) (step_now x) (step_utc x) (fst s) (snd s) of
        (d, c, r) \<Rightarrow> ((d, c), step_packet x, r))"

interpretation packets: machine dns_packet_run_step "\<lambda>s. pending_cgroups (proc_state (fst s))"
  by unfold_locales
    (auto simp: dns_packet_run_step_def split: prod.splits dest: dns_process_ok)

text \<open>C30: Every DNS event is valid and rightly attributed. Whatever packets a new processor is given,
  every event it returns carries a valid DNS name and a process of the packet's control group; a
  query event is outgoing and names the sending process, a response event is incoming and passes
  \<open>NetworkDnsResponse::validate\<close>.\<close>

theorem dns_events_valid:
  "list_all (\<lambda>(p, r). outcome_ok p r)
     (snd (run dns_packet_run_step (dns_processor_new cfg, c) xs))"
proof -
  have init: "pending_cgroups (proc_state (fst (dns_processor_new cfg, c)))"
    by (simp add: pending_cgroups_def dns_processor_new_def dns_state_new_def)
  have "list_all2 (\<lambda>_ (p, r). outcome_ok p r) xs
      (snd (run dns_packet_run_step (dns_processor_new cfg, c) xs))"
  proof (rule packets.run_step_post [OF _ init])
    fix s :: "dns_processor \<times> dns_counters" and x
    assume "pending_cgroups (proc_state (fst s))"
    from dns_process_ok [OF this, of "step_packet x" "step_now x" "step_utc x" "snd s"]
    show "case snd (dns_packet_run_step s x) of (p, r) \<Rightarrow> outcome_ok p r"
      by (auto simp: dns_packet_run_step_def split: prod.splits)
  qed
  then show ?thesis unfolding list_all2_conv_all_nth list_all_length by auto
qed

section \<open>A query and its response\<close>

text \<open>A packet record that carries a message over UDP.\<close>

definition carries :: "dns_packet_record \<Rightarrow> u8 \<Rightarrow> u8 list \<Rightarrow> bool" where
  "carries p dir bytes \<longleftrightarrow>
     pkt_transport p = DNS_TRANSPORT_UDP \<and> pkt_direction p = dir
     \<and> unat (payload_len p) \<le> length (pkt_payload p)
     \<and> take (unat (payload_len p)) (pkt_payload p) = bytes"

lemma carries_process:
  assumes "carries p dir bytes" "direction_of dir = Some dd" "resolver_address p = Some addr"
  shows "dns_process p now utc d c = process_message p bytes
    \<lparr>ctx_direction = dd, ctx_transport = Udp, ctx_resolver = addr, ctx_now = now\<rparr> utc d c"
  using assms by (auto simp: carries_def dns_process_def Let_def transport_of_def)

lemma directions [simp]:
  "direction_of DNS_DIRECTION_EGRESS = Some Egress" "direction_of DNS_DIRECTION_INGRESS = Some Ingress"
  by (simp_all add: direction_of_def DNS_DIRECTION_EGRESS_def DNS_DIRECTION_INGRESS_def)

definition key_of :: "u64 \<Rightarrow> ip_addr \<Rightarrow> u16 \<Rightarrow> string list \<Rightarrow> dns_query_type \<Rightarrow> pending_query_key" where
  "key_of cg addr tid ls qt =
     \<lparr>pk_cgroup = cg, pk_transport = Udp, pk_resolver = addr, pk_transaction_id = tid,
      pk_name = name_of ls, pk_query_type = qt\<rparr>"

lemma query_packet:
  assumes p: "carries p DNS_DIRECTION_EGRESS (encode_message tid False tc ls qt rc [])"
    and addr: "resolver_address p = Some addr"
    and ls: "name_labels ls" "length ls \<le> 14" and ttl: "0 < max_ttl_seconds d"
    and r: "dns_process p now utc d c = (d', c', Some e)"
  shows "fst e = process_identity_of p"
    and "register_query (key_of (pkt_cgroup_id p) addr tid ls qt) (process_identity_of p) now (proc_state d)
      = (proc_state d', True)"
    and "max_ttl_seconds d' = max_ttl_seconds d"
proof -
  obtain m where m: "parse_message (encode_message tid False tc ls qt rc []) (max_ttl_seconds d) = Ok m"
      "pm_transaction_id m = tid" "\<not> pm_is_response m" "pm_name m = name_of ls" "pm_query_type m = qt"
    using parse_encoded_message [OF ls, of "[]" "max_ttl_seconds d" tid False tc qt rc] ttl by auto
  let ?x = "\<lparr>ctx_direction = Egress, ctx_transport = Udp, ctx_resolver = addr, ctx_now = now\<rparr>"
  have k: "query_key p m ?x = key_of (pkt_cgroup_id p) addr tid ls qt"
    using m by (simp add: query_key_def key_of_def)
  show "fst e = process_identity_of p"
    "register_query (key_of (pkt_cgroup_id p) addr tid ls qt) (process_identity_of p) now (proc_state d)
      = (proc_state d', True)"
    "max_ttl_seconds d' = max_ttl_seconds d"
    using r m(3) unfolding carries_process [OF p directions(1) addr] process_message_def m(1)
    by (auto simp: typed_event_def Let_def k split: prod.splits if_splits)
qed

lemma response_packet:
  assumes p: "carries p DNS_DIRECTION_INGRESS (encode_message tid True tc ls qt rc as)"
    and addr: "resolver_address p = Some addr"
    and ls: "name_labels ls" "length ls \<le> 14" and ttl: "0 < max_ttl_seconds d"
    and as: "length as \<le> 16" "\<forall>a \<in> set as. 1 \<le> snd a \<and> snd a \<le> 86400"
    and hit: "\<And>r. snd (correlate_response (key_of (pkt_cgroup_id p) addr tid ls qt) r now utc (proc_state d)) = Ok process"
  shows "\<exists>d' c' r. dns_process p now utc d c = (d', c', Some (process, NetworkDnsResponse r))
    \<and> r_name r = name_of ls \<and> r_code r = rc \<and> r_answers r = map (decoded_answer ls (max_ttl_seconds d)) as
    \<and> proc_state d' = fst (correlate_response (key_of (pkt_cgroup_id p) addr tid ls qt) r now utc (proc_state d))"
proof -
  obtain m where m: "parse_message (encode_message tid True tc ls qt rc as) (max_ttl_seconds d) = Ok m"
      "pm_transaction_id m = tid" "pm_is_response m" "pm_name m = name_of ls" "pm_query_type m = qt"
      "pm_response_code m = rc" "pm_answers m = map (decoded_answer ls (max_ttl_seconds d)) as"
    using parse_encoded_message [OF ls as(1) ttl as(2), of tid True tc qt rc] by auto
  let ?x = "\<lparr>ctx_direction = Ingress, ctx_transport = Udp, ctx_resolver = addr, ctx_now = now\<rparr>"
  have k: "query_key p m ?x = key_of (pkt_cgroup_id p) addr tid ls qt"
    using m by (simp add: query_key_def key_of_def)
  have hit': "correlate_response (key_of (pkt_cgroup_id p) addr tid ls qt) (response_of m ?x) now utc (proc_state d)
      = (fst (correlate_response (key_of (pkt_cgroup_id p) addr tid ls qt) (response_of m ?x) now utc (proc_state d)), Ok process)"
    using hit [of "response_of m ?x"] by (metis prod.collapse)
  have "r_name (response_of m ?x) = name_of ls" "r_code (response_of m ?x) = rc"
      "r_answers (response_of m ?x) = map (decoded_answer ls (max_ttl_seconds d)) as"
    using m by (simp_all add: response_of_def)
  then show ?thesis
    unfolding carries_process [OF p directions(2) addr] process_message_def m(1)
    by (subst (1) typed_event_def) (simp add: Let_def m(3) k case_prod_beta hit [of "response_of m ?x"])
qed


section \<open>Examples\<close>

definition sample_packet :: "u8 \<Rightarrow> u8 list \<Rightarrow> dns_packet_record" where
  "sample_packet dir bytes =
     \<lparr>timestamp_ns = 0, pkt_cgroup_id = 9, socket_cookie = 1, pid_tgid = 0, pkt_sequence = 0,
      payload_len = of_nat (length bytes), resolver_port = 53, pkt_address_family = 1,
      pkt_transport = DNS_TRANSPORT_UDP, pkt_direction = dir, tcp_flags = 0,
      pkt_resolver_address = replicate 16 8, pkt_command = [], pkt_payload = bytes\<rparr>"

definition sample_processor :: dns_processor where
  "sample_processor = dns_processor_new \<lparr>max_pending_transactions = 4, cfg_max_names_per_address = 8,
     cfg_max_ttl_seconds = 300, max_tcp_streams = 4, max_captured_bytes = 512\<rparr>"

definition zero_counters :: dns_counters where
  "zero_counters = \<lparr>dns_packet_decode_failed = 0, dns_malformed_compression = 0, dns_truncated = 0,
     dns_unsupported_record = 0, dns_correlation_miss = 0, dns_correlation_capacity = 0, dns_tcp_reassembly = 0\<rparr>"

lemma sample_packet_carries:
  assumes "length bytes < 65536"
  shows "carries (sample_packet dir bytes) dir bytes"
    "resolver_address (sample_packet dir bytes) = Some (V4 (from_be_bytes (replicate 4 8)))"
proof -
  have "unat (of_nat (length bytes) :: u16) = length bytes" using assms by (intro unat_of_nat_small) simp
  then show "carries (sample_packet dir bytes) dir bytes"
      "resolver_address (sample_packet dir bytes) = Some (V4 (from_be_bytes (replicate 4 8)))"
    by (simp_all add: carries_def sample_packet_def resolver_address_def ADDRESS_FAMILY_IPV4_def)
qed

abbreviation sample_query_bytes :: "u8 list" where
  "sample_query_bytes \<equiv> encode_message 7 False False [''api'', ''example''] A NoError []"

abbreviation sample_response_bytes :: "u8 list" where
  "sample_response_bytes \<equiv> encode_message 7 True False [''api'', ''example''] A NoError sample_answers"

lemma sample_lengths: "length sample_query_bytes < 65536" "length sample_response_bytes < 65536"
  by (simp_all add: encode_message_def encode_header_def encode_labels_def encode_label_def encode_answer_def)

lemma sample_query_accepted:
  "\<exists>d1 c1 e. dns_process (sample_packet DNS_DIRECTION_EGRESS sample_query_bytes) 0 0 sample_processor zero_counters
     = (d1, c1, Some e)"
proof -
  let ?p = "sample_packet DNS_DIRECTION_EGRESS sample_query_bytes"
  have "0 < max_ttl_seconds sample_processor" by (simp add: sample_processor_def dns_processor_new_def)
  then obtain m where m: "parse_message sample_query_bytes (max_ttl_seconds sample_processor) = Ok m" "\<not> pm_is_response m"
    using parse_encoded_message [OF sample_labels, of "[]" "max_ttl_seconds sample_processor" 7 False False A NoError]
    by auto
  have "snd (register_query k q 0 (proc_state sample_processor))" for k q
    by (simp add: register_query_def Let_def sample_processor_def dns_processor_new_def dns_state_new_def
        expire_pending_def)
  with m(2) show ?thesis
    unfolding carries_process [OF sample_packet_carries(1) directions(1) sample_packet_carries(2), OF sample_lengths(1) sample_lengths(1)]
      process_message_def m(1)
    by (auto simp: typed_event_def Let_def case_prod_beta)
qed


theorem dns_messages_accounted_witness:
  "one_more (losses zero_counters)
     (losses (fst (snd (dns_process (sample_packet DNS_DIRECTION_INGRESS []) 0 0 sample_processor zero_counters))))"
proof -
  let ?p = "sample_packet DNS_DIRECTION_INGRESS []"
  let ?r = "dns_process ?p 0 0 sample_processor zero_counters"
  have "parse_message [] ttl = Err Bounds" for ttl
    by (simp add: parse_message_def DNS_HEADER_LEN_def)
  then have "snd (snd ?r) = None"
    unfolding carries_process [OF sample_packet_carries(1) directions(2) sample_packet_carries(2), of "[]", simplified]
    by (simp add: process_message_def)
  moreover have "\<not> malformed_packet ?p" "\<not> incomplete ?p 0 sample_processor"
    using sample_packet_carries [of "[]" DNS_DIRECTION_INGRESS]
    by (simp_all add: malformed_packet_def incomplete_def carries_def transport_of_def
        DNS_TRANSPORT_UDP_def DNS_TRANSPORT_TCP_def)
  moreover obtain d' c' r where eq: "?r = (d', c', r)" by (cases ?r)
  ultimately show ?thesis using dns_messages_accounted [OF eq] by simp
qed

end
