(* ===== verification/Fingerprints.thy ===== *)
theory Fingerprints
  imports Event_Payload Rust_Text
begin

text \<open>
  The fingerprints by which the server recognises a behaviour: the Runtime Group an event belongs
  to (\<open>crates/server/src/grouping.rs\<close>) and the item of the Application's inventory
  (\<open>crates/server/src/inventory.rs\<close>). Both hash a canonical encoding, a sequence of
  length-prefixed fields, with SHA-256, which is a parameter.

  The summaries stored beside a fingerprint are \<open>serde_json\<close> values. How the derived \<open>Serialize\<close>
  implementations render the nested types of the event model is the parameter \<open>serde_lib\<close>.

  The lemmas show that, as long as the hash does not collide, two events have the same
  fingerprint exactly when they agree on the scope and on the behaviour, where behaviours are
  the abstract data types \<open>behaviour\<close> and \<open>inventory_identity\<close>.
\<close>

section \<open>JSON values\<close>

datatype json =
    JNull
  | JBool bool
  | JNumber int
  | JString string
  | JArray "json list"
  | JObject "(string \<times> json) list"

record serde_lib =
  ser_address :: "ip_addr \<Rightarrow> json"
  ser_dns_context :: "dns_context \<Rightarrow> json"
  ser_dns_name :: "dns_name \<Rightarrow> json"
  ser_query_type :: "dns_query_type \<Rightarrow> json"
  ser_response_code :: "dns_response_code \<Rightarrow> json"
  ser_dns_transport :: "dns_transport \<Rightarrow> json"
  ser_dns_direction :: "dns_direction \<Rightarrow> json"
  ser_termination :: "process_termination \<Rightarrow> json"
  ser_source :: "evidence_source \<Rightarrow> json"
  ser_correlation :: "generation_correlation \<Rightarrow> json"
  ser_classification :: "process_exit_classification \<Rightarrow> json"
  ser_container_termination :: "container_termination \<Rightarrow> json"
  ser_datetime :: "datetime \<Rightarrow> json"
  ser_uuid :: "uuid \<Rightarrow> json"

definition JNat :: "'l::len word \<Rightarrow> json" where
  "JNat w = JNumber (uint w)"

fun JOption :: "('a \<Rightarrow> json) \<Rightarrow> 'a option \<Rightarrow> json" where
  "JOption f None = JNull"
| "JOption f (Some x) = f x"

section \<open>The canonical encoder\<close>

function trim_end_of :: "string list \<Rightarrow> string \<Rightarrow> string" where
  "trim_end_of ws s = (case strip_suffix ws s of None \<Rightarrow> s | Some t \<Rightarrow> trim_end_of ws t)"
  by pat_completeness auto
termination
  by (relation "measure (\<lambda>(ws, s). length s)") (auto dest: strip_suffix_shorter)

function trim_start_of :: "string list \<Rightarrow> string \<Rightarrow> string" where
  "trim_start_of ws s = (case strip_white ws s of None \<Rightarrow> s | Some t \<Rightarrow> trim_start_of ws t)"
  by pat_completeness auto
termination
  by (relation "measure (\<lambda>(ws, s). length s)") (auto dest: strip_white_shorter)

declare trim_end_of.simps [simp del] trim_start_of.simps [simp del]

text \<open>\<open>value.trim_matches(|c| c == NUL || c.is_whitespace())\<close>\<close>

definition normalized :: "string \<Rightarrow> string" where
  "normalized s = (let ws = [CHR 0x00] # white_space in trim_end_of ws (trim_start_of ws s))"

datatype fingerprint_error = EmptyField string | UnsupportedEventKind

definition required :: "string \<Rightarrow> string \<Rightarrow> (string, fingerprint_error) result" where
  "required name s = (if normalized s = [] then Err (EmptyField name) else Ok (normalized s))"

definition encode_field :: "u8 list \<Rightarrow> u8 list" where
  "encode_field bs = be_bytes 8 (min (length bs) (2 ^ 64 - 1)) @ bs"

definition encode_fields :: "u8 list list \<Rightarrow> u8 list" where
  "encode_fields fs = concat (map encode_field fs)"

definition lowercase :: "string \<Rightarrow> string" where
  "lowercase s = map to_ascii_lowercase s"

definition octets :: "ip_addr \<Rightarrow> u8 list" where
  "octets a = (case a of V4 w \<Rightarrow> to_be_bytes 4 w | V6 w \<Rightarrow> to_be_bytes 16 w)"

definition family_name :: "network_address_family \<Rightarrow> string" where
  "family_name f = (case f of Ipv4 \<Rightarrow> ''ipv4'' | Ipv6 \<Rightarrow> ''ipv6'')"

definition i32_bytes :: "i32 \<Rightarrow> u8 list" where
  "i32_bytes n = to_be_bytes 4 (word_of_int n :: u32)"

definition uuid_bytes :: "uuid \<Rightarrow> u8 list" where
  "uuid_bytes u = to_be_bytes 16 u"

text \<open>The derived \<open>Debug\<close> output of the two DNS enumerations.\<close>

fun debug_query_type :: "dns_query_type \<Rightarrow> string" where
  "debug_query_type A = ''A''"
| "debug_query_type Aaaa = ''Aaaa''"

fun debug_response_code :: "dns_response_code \<Rightarrow> string" where
  "debug_response_code NoError = ''NoError''"
| "debug_response_code FormErr = ''FormErr''"
| "debug_response_code ServFail = ''ServFail''"
| "debug_response_code NxDomain = ''NxDomain''"
| "debug_response_code NotImp = ''NotImp''"
| "debug_response_code Refused = ''Refused''"

section \<open>Runtime Groups\<close>

record grouping_scope =
  gs_organization_id :: uuid
  gs_project_id :: uuid
  gs_application_id :: uuid
  gs_cluster_id :: uuid
  gs_namespace :: string
  gs_workload_kind :: string
  gs_workload_name :: string

definition FINGERPRINT_V1 :: u16 where "FINGERPRINT_V1 = 1"

record event_fingerprint =
  fp_version :: u16
  fp_digest :: "u8 list"
  fp_event_kind :: string
  fp_semantic :: json

definition opt_field :: "('a \<Rightarrow> u8 list) \<Rightarrow> 'a option \<Rightarrow> u8 list list" where
  "opt_field f x = (case x of None \<Rightarrow> [] | Some v \<Rightarrow> [f v])"

definition file_semantic ::
    "string \<Rightarrow> string \<Rightarrow> string \<Rightarrow> string option \<Rightarrow> bool option \<Rightarrow>
       (u8 list list \<times> json, fingerprint_error) result" where
  "file_semantic cmd operation path new repl =
     res_bind (required ''process_command'' cmd) (\<lambda>c. Ok
       ([bytes_of c, bytes_of operation, bytes_of path] @ opt_field bytes_of new
          @ opt_field (\<lambda>b. [if b then 1 else 0]) repl,
        JObject [(''process_command'', JString c), (''operation'', JString operation),
          (''path'', JString path), (''new_path'', JOption JString new),
          (''replaced'', JOption JBool repl)]))"

definition inbound_endpoint_semantic ::
    "serde_lib \<Rightarrow> string \<Rightarrow> network_address_family \<Rightarrow> ip_addr \<Rightarrow> u16 \<Rightarrow> u8 list list \<times> json" where
  "inbound_endpoint_semantic S c family address port =
     ([bytes_of c, bytes_of ''tcp'', bytes_of (family_name family), octets address, to_be_bytes 2 port],
      JObject [(''process_command'', JString c), (''transport'', JString ''tcp''),
        (''address_family'', JString (family_name family)), (''local_address'', ser_address S address),
        (''local_port'', JNat port)])"

definition exit_identity :: "string \<Rightarrow> process_exit \<Rightarrow> (string, fingerprint_error) result" where
  "exit_identity cmd v = (case correlation v of
       ObservedGeneration _ _ exe \<Rightarrow> required ''executable'' exe
     | Unresolved _ \<Rightarrow> required ''process_command'' cmd)"

fun termination_fields :: "process_termination \<Rightarrow> u8 list list" where
  "termination_fields (Exited status) = [bytes_of ''exited'', [status]]"
| "termination_fields (Signaled signal _ _) = [bytes_of ''signaled'', [signal]]"

fun payload_semantic ::
    "serde_lib \<Rightarrow> kubernetes_attribution \<Rightarrow> string \<Rightarrow> event_payload \<Rightarrow>
       (u8 list list \<times> json, fingerprint_error) result" where
  "payload_semantic S a cmd (ThreadActivityWindow w) = Err UnsupportedEventKind"
| "payload_semantic S a cmd (ProcessStart start) =
     res_bind (required ''process_command'' cmd) (\<lambda>c. Ok ([bytes_of c],
       JObject [(''process_command'', JString c), (''source'', JString ''kernel''),
         (''start_observed'', JBool (start_observed (ps_generation start)))]))"
| "payload_semantic S a cmd (ProcessExec process) =
     res_bind (required ''executable'' (executable process)) (\<lambda>x. Ok ([bytes_of x],
       JObject [(''executable'', JString x)]))"
| "payload_semantic S a cmd (Syscall syscall) =
     res_bind (required ''process_command'' cmd) (\<lambda>c.
       res_bind (required ''syscall_name'' (syscall_name syscall)) (\<lambda>n. Ok
         ([bytes_of c, bytes_of (lowercase n)],
          JObject [(''process_command'', JString c), (''syscall'', JString (lowercase n))])))"
| "payload_semantic S a cmd (NetworkConnect network) =
     res_bind (required ''process_command'' cmd) (\<lambda>c. Ok
       ([bytes_of c, bytes_of (family_name (address_family network)),
         octets (destination_address network), to_be_bytes 2 (destination_port network)],
        JObject ([(''process_command'', JString c),
          (''address_family'', JString (family_name (address_family network))),
          (''destination_address'', ser_address S (destination_address network)),
          (''destination_port'', JNat (destination_port network))]
          @ (case dns_context_of network of None \<Rightarrow> []
             | Some context \<Rightarrow> [(''dns_context'', ser_dns_context S context)]))))"
| "payload_semantic S a cmd (NetworkListen network) =
     res_bind (required ''process_command'' cmd) (\<lambda>c. Ok
       (inbound_endpoint_semantic S c (listen_family network) (listen_address network) (listen_port network)))"
| "payload_semantic S a cmd (NetworkAccept network) =
     res_bind (required ''process_command'' cmd) (\<lambda>c. Ok
       (inbound_endpoint_semantic S c (accept_family network) (accept_local_address network)
         (accept_local_port network)))"
| "payload_semantic S a cmd (NetworkDnsQuery query) =
     res_bind (required ''process_command'' cmd) (\<lambda>c. Ok
       ([bytes_of c, bytes_of (dns_str (q_name query)), bytes_of (debug_query_type (q_type query))],
        JObject [(''process_command'', JString c), (''name'', ser_dns_name S (q_name query)),
          (''query_type'', ser_query_type S (q_type query)),
          (''transport'', ser_dns_transport S (q_transport query)),
          (''direction'', ser_dns_direction S (q_direction query))]))"
| "payload_semantic S a cmd (NetworkDnsResponse response) =
     res_bind (required ''process_command'' cmd) (\<lambda>c. Ok
       ([bytes_of c, bytes_of (dns_str (r_name response)), bytes_of (debug_query_type (r_type response)),
         bytes_of (debug_response_code (r_code response))],
        JObject [(''process_command'', JString c), (''name'', ser_dns_name S (r_name response)),
          (''query_type'', ser_query_type S (r_type response)),
          (''response_code'', ser_response_code S (r_code response)),
          (''transport'', ser_dns_transport S (r_transport response)),
          (''direction'', ser_dns_direction S (r_direction response))]))"
| "payload_semantic S a cmd (FileCreate v) =
     file_semantic cmd ''create'' (path_str (create_path v)) None None"
| "payload_semantic S a cmd (FileModify v) =
     file_semantic cmd ''modify'' (path_str (modify_path v)) None None"
| "payload_semantic S a cmd (FileDelete v) =
     file_semantic cmd ''delete'' (path_str (delete_path v)) None None"
| "payload_semantic S a cmd (FileRename v) =
     file_semantic cmd ''rename'' (path_str (old_path v)) (Some (path_str (new_path v))) (replaced v)"
| "payload_semantic S a cmd (ProcessExit v) =
     res_bind (exit_identity cmd v) (\<lambda>i. Ok
       (bytes_of i # termination_fields (exit_termination v),
        JObject [(''identity'', JString i), (''termination'', ser_termination S (exit_termination v)),
          (''evidence_source'', ser_source S (pe_source v)),
          (''correlation'', ser_correlation S (correlation v))]))"
| "payload_semantic S a cmd (ContainerTermination v) =
     res_bind (required ''container_name'' (container_name a)) (\<lambda>c.
       res_bind (required ''termination_reason'' (ct_reason v)) (\<lambda>r. Ok
         ([bytes_of c, bytes_of r, i32_bytes (exit_code v)],
          JObject [(''container_name'', JString c), (''reason'', JString r),
            (''exit_code'', JNumber (exit_code v)), (''source'', ser_source S (ct_source v))])))"
| "payload_semantic S a cmd (ContainerRestart v) =
     res_bind (required ''container_name'' (container_name a)) (\<lambda>c. Ok
       ([bytes_of c],
        JObject [(''container_name'', JString c), (''source'', ser_source S (cr_source v)),
          (''restart_count'', JNat (restart_count v)), (''restart_delta'', JNat (restart_delta v)),
          (''observation_gap'', JBool (observation_gap v)),
          (''waiting_reason'', JOption JString (waiting_reason v))]))"

text \<open>The fields of a fingerprint, in the order they are hashed, and its summary.\<close>

definition group_fields ::
    "serde_lib \<Rightarrow> grouping_scope \<Rightarrow> runtime_event \<Rightarrow> (u8 list list \<times> json, fingerprint_error) result" where
  "group_fields S scope e =
     res_bind (required ''namespace'' (gs_namespace scope)) (\<lambda>ns.
     res_bind (required ''workload_kind'' (gs_workload_kind scope)) (\<lambda>wk.
     res_bind (required ''workload_name'' (gs_workload_name scope)) (\<lambda>wn.
     res_bind (payload_semantic S (attribution e) (command (event_process e)) (payload e)) (\<lambda>(fs, semantic). Ok
       ([bytes_of ''okoscope.runtime-event-group'', to_be_bytes 2 FINGERPRINT_V1,
         uuid_bytes (gs_organization_id scope), uuid_bytes (gs_project_id scope),
         uuid_bytes (gs_application_id scope), uuid_bytes (gs_cluster_id scope),
         bytes_of ns, bytes_of wk, bytes_of wn, bytes_of (kind e)] @ fs, semantic)))))"

definition fingerprint_v1 ::
    "serde_lib \<Rightarrow> (u8 list \<Rightarrow> u8 list) \<Rightarrow> grouping_scope \<Rightarrow> runtime_event \<Rightarrow>
       (event_fingerprint, fingerprint_error) result" where
  "fingerprint_v1 S sha scope e =
     res_bind (group_fields S scope e) (\<lambda>(fs, semantic). Ok
       \<lparr>fp_version = FINGERPRINT_V1, fp_digest = sha (encode_fields fs),
        fp_event_kind = kind e, fp_semantic = semantic\<rparr>)"

section \<open>The Application's inventory\<close>

datatype inventory_kind =
  InventoryProcess | InventoryDestination | InventoryDomain | InventorySyscall
  | InventoryInboundEndpoint | InventoryFileActivity | InventoryLifecycle

fun inventory_kind_str :: "inventory_kind \<Rightarrow> string" where
  "inventory_kind_str InventoryProcess = ''process''"
| "inventory_kind_str InventoryDestination = ''destination''"
| "inventory_kind_str InventoryDomain = ''domain''"
| "inventory_kind_str InventorySyscall = ''syscall''"
| "inventory_kind_str InventoryInboundEndpoint = ''inbound_endpoint''"
| "inventory_kind_str InventoryFileActivity = ''file_activity''"
| "inventory_kind_str InventoryLifecycle = ''lifecycle''"

definition CURRENT_INVENTORY_IDENTITY_VERSION :: u16 where
  "CURRENT_INVENTORY_IDENTITY_VERSION = 2"

record inventory_scope =
  is_organization_id :: uuid
  is_project_id :: uuid
  is_application_id :: uuid

record inventory_fingerprint =
  if_version :: u16
  if_kind :: inventory_kind
  if_digest :: "u8 list"
  if_semantic :: json

definition kind_field :: "inventory_kind \<Rightarrow> u8 list" where
  "kind_field k = bytes_of (inventory_kind_str k)"

fun dns_query_type_str :: "dns_query_type \<Rightarrow> string" where
  "dns_query_type_str A = ''A''"
| "dns_query_type_str Aaaa = ''AAAA''"

type_synonym inventory_part = "u8 list list \<times> inventory_kind \<times> json"

definition file_activity_fingerprint ::
    "string \<Rightarrow> string \<Rightarrow> string option \<Rightarrow> bool option \<Rightarrow> inventory_part" where
  "file_activity_fingerprint operation path new repl =
     ([kind_field InventoryFileActivity, bytes_of operation, bytes_of path] @ opt_field bytes_of new
        @ opt_field (\<lambda>b. [if b then 1 else 0]) repl,
      InventoryFileActivity,
      JObject [(''operation'', JString operation), (''path'', JString path),
        (''new_path'', JOption JString new), (''replaced'', JOption JBool repl)])"

definition inbound_endpoint_fingerprint ::
    "serde_lib \<Rightarrow> network_address_family \<Rightarrow> ip_addr \<Rightarrow> u16 \<Rightarrow> bool \<Rightarrow> inventory_part" where
  "inbound_endpoint_fingerprint S family address port listener =
     ([kind_field InventoryInboundEndpoint, bytes_of ''tcp'', bytes_of (family_name family),
       octets address, to_be_bytes 2 port],
      InventoryInboundEndpoint,
      JObject [(''transport'', JString ''tcp''), (''address_family'', JString (family_name family)),
        (''local_address'', ser_address S address), (''local_port'', JNat port),
        (''listener_observed'', JBool listener), (''accept_observed'', JBool (\<not> listener))])"

definition domain_fingerprint :: "serde_lib \<Rightarrow> dns_name \<Rightarrow> dns_query_type \<Rightarrow> inventory_part" where
  "domain_fingerprint S name query_type =
     ([kind_field InventoryDomain, bytes_of (dns_str name), bytes_of (dns_query_type_str query_type)],
      InventoryDomain,
      JObject [(''name'', ser_dns_name S name), (''query_type'', ser_query_type S query_type)])"

fun termination_json :: "process_termination \<Rightarrow> json" where
  "termination_json (Exited status) = JObject [(''type'', JString ''exited''), (''status'', JNat status)]"
| "termination_json (Signaled signal signal_name _) =
     JObject [(''type'', JString ''signaled''), (''signal'', JNat signal),
       (''signal_name'', JString signal_name)]"

fun inventory_semantic ::
    "serde_lib \<Rightarrow> kubernetes_attribution \<Rightarrow> string \<Rightarrow> event_payload \<Rightarrow>
       (inventory_part, fingerprint_error) result" where
  "inventory_semantic S a cmd (ThreadActivityWindow w) = Err UnsupportedEventKind"
| "inventory_semantic S a cmd (ProcessStart start) =
     res_bind (required ''process_command'' cmd) (\<lambda>c. Ok
       ([kind_field InventoryLifecycle, bytes_of ''process.start'', bytes_of c], InventoryLifecycle,
        JObject [(''event_kind'', JString ''process.start''), (''process_command'', JString c),
          (''source'', JString ''kernel''),
          (''start_observed'', JBool (start_observed (ps_generation start)))]))"
| "inventory_semantic S a cmd (ProcessExec process) =
     res_bind (required ''executable'' (executable process)) (\<lambda>x. Ok
       ([kind_field InventoryProcess, bytes_of x], InventoryProcess,
        JObject [(''executable'', JString x)]))"
| "inventory_semantic S a cmd (Syscall syscall) =
     res_bind (required ''syscall_name'' (syscall_name syscall)) (\<lambda>n. Ok
       ([kind_field InventorySyscall, bytes_of (lowercase n)], InventorySyscall,
        JObject [(''syscall'', JString (lowercase n))]))"
| "inventory_semantic S a cmd (NetworkConnect connect) = Ok
     ([kind_field InventoryDestination, bytes_of (family_name (address_family connect)),
       octets (destination_address connect), to_be_bytes 2 (destination_port connect)],
      InventoryDestination,
      JObject [(''address_family'', JString (family_name (address_family connect))),
        (''destination_address'', ser_address S (destination_address connect)),
        (''destination_port'', JNat (destination_port connect))])"
| "inventory_semantic S a cmd (NetworkListen network) = Ok
     (inbound_endpoint_fingerprint S (listen_family network) (listen_address network)
       (listen_port network) True)"
| "inventory_semantic S a cmd (NetworkAccept network) = Ok
     (inbound_endpoint_fingerprint S (accept_family network) (accept_local_address network)
       (accept_local_port network) False)"
| "inventory_semantic S a cmd (NetworkDnsQuery query) = Ok
     (domain_fingerprint S (q_name query) (q_type query))"
| "inventory_semantic S a cmd (NetworkDnsResponse response) = Ok
     (domain_fingerprint S (r_name response) (r_type response))"
| "inventory_semantic S a cmd (FileCreate v) = Ok
     (file_activity_fingerprint ''create'' (path_str (create_path v)) None None)"
| "inventory_semantic S a cmd (FileModify v) = Ok
     (file_activity_fingerprint ''modify'' (path_str (modify_path v)) None None)"
| "inventory_semantic S a cmd (FileDelete v) = Ok
     (file_activity_fingerprint ''delete'' (path_str (delete_path v)) None None)"
| "inventory_semantic S a cmd (FileRename v) = Ok
     (file_activity_fingerprint ''rename'' (path_str (old_path v)) (Some (path_str (new_path v)))
       (replaced v))"
| "inventory_semantic S a cmd (ProcessExit v) =
     res_bind (exit_identity cmd v) (\<lambda>i. Ok
       ([kind_field InventoryLifecycle, bytes_of ''process.exit'', bytes_of i]
          @ termination_fields (exit_termination v), InventoryLifecycle,
        JObject [(''event_kind'', JString ''process.exit''), (''identity'', JString i),
          (''termination'', termination_json (exit_termination v)),
          (''evidence_source'', ser_source S (pe_source v)),
          (''classification'', ser_classification S (classification v))]))"
| "inventory_semantic S a cmd (ContainerTermination v) =
     res_bind (required ''container_name'' (container_name a)) (\<lambda>c.
       res_bind (required ''termination_reason'' (ct_reason v)) (\<lambda>r. Ok
         ([kind_field InventoryLifecycle, bytes_of ''container.terminated'', bytes_of c, bytes_of r,
           i32_bytes (exit_code v)], InventoryLifecycle,
          JObject [(''event_kind'', JString ''container.terminated''), (''container_name'', JString c),
            (''reason'', JString r), (''exit_code'', JNumber (exit_code v)),
            (''evidence_source'', ser_source S (ct_source v))])))"
| "inventory_semantic S a cmd (ContainerRestart v) =
     res_bind (required ''container_name'' (container_name a)) (\<lambda>c. Ok
       ([kind_field InventoryLifecycle, bytes_of ''container.restart'', bytes_of c], InventoryLifecycle,
        JObject [(''event_kind'', JString ''container.restart''), (''container_name'', JString c),
          (''evidence_source'', ser_source S (cr_source v)),
          (''restart_count'', JNat (restart_count v)), (''restart_delta'', JNat (restart_delta v)),
          (''observation_gap'', JBool (observation_gap v))]))"

definition inventory_fields ::
    "serde_lib \<Rightarrow> u16 \<Rightarrow> inventory_scope \<Rightarrow> runtime_event \<Rightarrow> (inventory_part, fingerprint_error) result" where
  "inventory_fields S version scope e =
     res_bind (inventory_semantic S (attribution e) (command (event_process e)) (payload e))
       (\<lambda>(fs, k, semantic). Ok
         ([bytes_of ''okoscope.application-runtime-inventory'', to_be_bytes 2 version,
           uuid_bytes (is_organization_id scope), uuid_bytes (is_project_id scope),
           uuid_bytes (is_application_id scope)] @ fs, k, semantic))"

definition fingerprint_with_version ::
    "serde_lib \<Rightarrow> (u8 list \<Rightarrow> u8 list) \<Rightarrow> u16 \<Rightarrow> inventory_scope \<Rightarrow> runtime_event \<Rightarrow>
       (inventory_fingerprint, fingerprint_error) result" where
  "fingerprint_with_version S sha version scope e =
     res_bind (inventory_fields S version scope e) (\<lambda>(fs, k, semantic). Ok
       \<lparr>if_version = version, if_kind = k, if_digest = sha (encode_fields fs), if_semantic = semantic\<rparr>)"

definition inventory_fingerprint_of ::
    "serde_lib \<Rightarrow> (u8 list \<Rightarrow> u8 list) \<Rightarrow> inventory_scope \<Rightarrow> runtime_event \<Rightarrow>
       (inventory_fingerprint, fingerprint_error) result" where
  "inventory_fingerprint_of S sha scope e =
     fingerprint_with_version S sha CURRENT_INVENTORY_IDENTITY_VERSION scope e"

section \<open>The encoding can be read back in one way only\<close>

lemma encode_field_inj:
  assumes "length x < 2 ^ 64" and "length y < 2 ^ 64" and "encode_field x @ us = encode_field y @ vs"
  shows "x = y \<and> us = vs"
proof -
  have "be_bytes 8 (length x) = be_bytes 8 (length y)" and rest: "x @ us = y @ vs"
    using assms by (auto simp: encode_field_def min_def append_eq_append_conv)
  then have "be_nat (be_bytes 8 (length x)) = be_nat (be_bytes 8 (length y))" by simp
  with assms(1,2) have "length x = length y" by (simp add: be_nat_be_bytes)
  with rest show ?thesis by (simp add: append_eq_append_conv)
qed

lemma encode_field_nonempty [simp]: "encode_field x \<noteq> []"
proof -
  have "length (encode_field x) = 8 + length x" by (simp add: encode_field_def)
  then show ?thesis by auto
qed

definition fields_fit :: "u8 list list \<Rightarrow> bool" where
  "fields_fit fs \<longleftrightarrow> (\<forall>x \<in> set fs. length x < 2 ^ 64)"

lemma encode_fields_inj:
  "fields_fit fs \<Longrightarrow> fields_fit gs \<Longrightarrow> encode_fields fs = encode_fields gs \<Longrightarrow> fs = gs"
proof (induction fs arbitrary: gs)
  case Nil
  then show ?case by (cases gs) (auto simp: encode_fields_def)
next
  case (Cons x fs)
  then obtain y gs' where gs: "gs = y # gs'"
    by (cases gs) (auto simp: encode_fields_def)
  with Cons.prems have "encode_field x @ encode_fields fs = encode_field y @ encode_fields gs'"
    "length x < 2 ^ 64" "length y < 2 ^ 64" "fields_fit fs" "fields_fit gs'"
    by (auto simp: encode_fields_def fields_fit_def)
  with encode_field_inj [of x y] Cons.IH [of gs'] gs show ?case by simp
qed

lemma to_be_bytes_inj:
  "LENGTH('l) \<le> 8 * k \<Longrightarrow> to_be_bytes k (v :: 'l::len word) = to_be_bytes k w \<longleftrightarrow> v = w"
  by (metis from_to_be_bytes)

lemma uuid_bytes_inj [simp]: "uuid_bytes u = uuid_bytes v \<longleftrightarrow> u = v"
  by (simp add: uuid_bytes_def to_be_bytes_inj)

lemma port_bytes_inj [simp]: "to_be_bytes 2 p = to_be_bytes 2 q \<longleftrightarrow> p = q" for p q :: u16
  by (simp add: to_be_bytes_inj)

lemma octets_inj [simp]: "octets a = octets b \<longleftrightarrow> a = b"
proof -
  have "octets (V4 v) \<noteq> octets (V6 w)" for v w
    using length_to_be_bytes [of 4 v] length_to_be_bytes [of 16 w] by (auto simp: octets_def dest: arg_cong [where f = length])
  then show ?thesis
    by (cases a; cases b) (auto simp: octets_def to_be_bytes_inj dest: sym)
qed

lemma family_name_inj [simp]: "family_name f = family_name g \<longleftrightarrow> f = g"
  by (cases f; cases g) (simp_all add: family_name_def)

definition in_i32 :: "int \<Rightarrow> bool" where
  "in_i32 n \<longleftrightarrow> - (2 ^ 31) \<le> n \<and> n < 2 ^ 31"

lemma i32_bytes_inj: "in_i32 m \<Longrightarrow> in_i32 n \<Longrightarrow> i32_bytes m = i32_bytes n \<longleftrightarrow> m = n"
proof
  assume r: "in_i32 m" "in_i32 n" and "i32_bytes m = i32_bytes n"
  then have "(word_of_int m :: u32) = word_of_int n" by (simp add: i32_bytes_def to_be_bytes_inj)
  then have "m mod 2 ^ 32 = n mod 2 ^ 32" by (simp add: word_of_int_eq_iff take_bit_eq_mod)
  then have "2 ^ 32 dvd m - n" by (simp only: mod_eq_dvd_iff)
  then obtain k where "m - n = 2 ^ 32 * k" ..
  with r have "- 1 < k \<and> k < 1" by (simp add: in_i32_def)
  with \<open>m - n = 2 ^ 32 * k\<close> show "m = n" by simp
qed simp

lemma debug_query_type_inj [simp]: "debug_query_type a = debug_query_type b \<longleftrightarrow> a = b"
  by (cases a; cases b) simp_all

lemma debug_response_code_inj [simp]: "debug_response_code c = debug_response_code d \<longleftrightarrow> c = d"
  by (cases c; cases d) simp_all

lemma dns_query_type_str_inj [simp]: "dns_query_type_str a = dns_query_type_str b \<longleftrightarrow> a = b"
  by (cases a; cases b) simp_all

section \<open>Groups are behaviours\<close>

text \<open>
  The abstract reading of a Runtime Group: who did what. Texts are normalised (white space and NUL
  removed at both ends), syscall names in lower case. An exit is identified by the executable of
  the observed process generation and otherwise by the command, and by its status or signal.
\<close>

datatype behaviour =
    Started string
  | Executed string
  | CalledSyscall string string
  | ConnectedTo string network_address_family ip_addr u16
  | ListenedOn string network_address_family ip_addr u16
  | AcceptedOn string network_address_family ip_addr u16
  | QueriedName string string dns_query_type
  | ReceivedName string string dns_query_type dns_response_code
  | CreatedFile string string
  | ModifiedFile string string
  | DeletedFile string string
  | RenamedFile string string string "bool option"
  | ExitedAs string u8
  | KilledBy string u8
  | ContainerEnded string string i32
  | ContainerRestarted string

definition exit_name :: "string \<Rightarrow> process_exit \<Rightarrow> string" where
  "exit_name cmd v = (case correlation v of
     ObservedGeneration _ _ exe \<Rightarrow> normalized exe | Unresolved _ \<Rightarrow> normalized cmd)"

fun behaviour_of :: "kubernetes_attribution \<Rightarrow> string \<Rightarrow> event_payload \<Rightarrow> behaviour option" where
  "behaviour_of a cmd (ThreadActivityWindow w) = None"
| "behaviour_of a cmd (ProcessStart v) = Some (Started (normalized cmd))"
| "behaviour_of a cmd (ProcessExec v) = Some (Executed (normalized (executable v)))"
| "behaviour_of a cmd (Syscall v) =
     Some (CalledSyscall (normalized cmd) (lowercase (normalized (syscall_name v))))"
| "behaviour_of a cmd (NetworkConnect v) =
     Some (ConnectedTo (normalized cmd) (address_family v) (destination_address v) (destination_port v))"
| "behaviour_of a cmd (NetworkListen v) =
     Some (ListenedOn (normalized cmd) (listen_family v) (listen_address v) (listen_port v))"
| "behaviour_of a cmd (NetworkAccept v) =
     Some (AcceptedOn (normalized cmd) (accept_family v) (accept_local_address v) (accept_local_port v))"
| "behaviour_of a cmd (NetworkDnsQuery v) =
     Some (QueriedName (normalized cmd) (dns_str (q_name v)) (q_type v))"
| "behaviour_of a cmd (NetworkDnsResponse v) =
     Some (ReceivedName (normalized cmd) (dns_str (r_name v)) (r_type v) (r_code v))"
| "behaviour_of a cmd (FileCreate v) = Some (CreatedFile (normalized cmd) (path_str (create_path v)))"
| "behaviour_of a cmd (FileModify v) = Some (ModifiedFile (normalized cmd) (path_str (modify_path v)))"
| "behaviour_of a cmd (FileDelete v) = Some (DeletedFile (normalized cmd) (path_str (delete_path v)))"
| "behaviour_of a cmd (FileRename v) =
     Some (RenamedFile (normalized cmd) (path_str (old_path v)) (path_str (new_path v)) (replaced v))"
| "behaviour_of a cmd (ProcessExit v) = Some (case exit_termination v of
     Exited status \<Rightarrow> ExitedAs (exit_name cmd v) status
   | Signaled signal _ _ \<Rightarrow> KilledBy (exit_name cmd v) signal)"
| "behaviour_of a cmd (ContainerTermination v) =
     Some (ContainerEnded (normalized (container_name a)) (normalized (ct_reason v)) (exit_code v))"
| "behaviour_of a cmd (ContainerRestart v) = Some (ContainerRestarted (normalized (container_name a)))"

definition replaced_fields :: "bool option \<Rightarrow> u8 list list" where
  "replaced_fields r = opt_field (\<lambda>b. [if b then 1 else 0]) r"

fun behaviour_fields :: "behaviour \<Rightarrow> string \<times> u8 list list" where
  "behaviour_fields (Started c) = (''process.start'', [bytes_of c])"
| "behaviour_fields (Executed x) = (''process.exec'', [bytes_of x])"
| "behaviour_fields (CalledSyscall c n) = (''syscall'', [bytes_of c, bytes_of n])"
| "behaviour_fields (ConnectedTo c f a p) =
     (''network.connect'', [bytes_of c, bytes_of (family_name f), octets a, to_be_bytes 2 p])"
| "behaviour_fields (ListenedOn c f a p) =
     (''network.listen'', [bytes_of c, bytes_of ''tcp'', bytes_of (family_name f), octets a, to_be_bytes 2 p])"
| "behaviour_fields (AcceptedOn c f a p) =
     (''network.accept'', [bytes_of c, bytes_of ''tcp'', bytes_of (family_name f), octets a, to_be_bytes 2 p])"
| "behaviour_fields (QueriedName c n t) =
     (''network.dns.query'', [bytes_of c, bytes_of n, bytes_of (debug_query_type t)])"
| "behaviour_fields (ReceivedName c n t r) =
     (''network.dns.response'',
      [bytes_of c, bytes_of n, bytes_of (debug_query_type t), bytes_of (debug_response_code r)])"
| "behaviour_fields (CreatedFile c p) = (''file.create'', [bytes_of c, bytes_of ''create'', bytes_of p])"
| "behaviour_fields (ModifiedFile c p) = (''file.modify'', [bytes_of c, bytes_of ''modify'', bytes_of p])"
| "behaviour_fields (DeletedFile c p) = (''file.delete'', [bytes_of c, bytes_of ''delete'', bytes_of p])"
| "behaviour_fields (RenamedFile c p n r) =
     (''file.rename'', [bytes_of c, bytes_of ''rename'', bytes_of p, bytes_of n] @ replaced_fields r)"
| "behaviour_fields (ExitedAs i s) = (''process.exit'', [bytes_of i, bytes_of ''exited'', [s]])"
| "behaviour_fields (KilledBy i s) = (''process.exit'', [bytes_of i, bytes_of ''signaled'', [s]])"
| "behaviour_fields (ContainerEnded c r n) = (''container.terminated'', [bytes_of c, bytes_of r, i32_bytes n])"
| "behaviour_fields (ContainerRestarted c) = (''container.restart'', [bytes_of c])"

fun behaviour_ok :: "behaviour \<Rightarrow> bool" where
  "behaviour_ok (ContainerEnded c r n) = in_i32 n"
| "behaviour_ok b = True"

lemma replaced_fields_inj [simp]: "replaced_fields r = replaced_fields r' \<longleftrightarrow> r = r'"
  by (cases r; cases r') (auto simp: replaced_fields_def opt_field_def split: if_splits)

lemma behaviour_fields_inj:
  "behaviour_ok b \<Longrightarrow> behaviour_ok b' \<Longrightarrow> behaviour_fields b = behaviour_fields b' \<longleftrightarrow> b = b'"
  by (cases b; cases b') (auto simp: bytes_of_inj i32_bytes_inj)

lemma required_Ok [result_laws]: "required name s = Ok t \<longleftrightarrow> t = normalized s \<and> t \<noteq> []"
  by (auto simp: required_def)

lemma payload_semantic_fields:
  assumes "payload_semantic S a cmd p = Ok (fs, j)"
  shows "\<exists>b. behaviour_of a cmd p = Some b \<and> behaviour_fields b = (payload_kind p, fs)"
  using assms
  by (cases p) (auto simp: result_laws file_semantic_def inbound_endpoint_semantic_def exit_identity_def
      exit_name_def replaced_fields_def opt_field_def
      split: process_termination.splits generation_correlation.splits)

definition group_identity ::
    "grouping_scope \<Rightarrow> runtime_event \<Rightarrow>
       uuid \<times> uuid \<times> uuid \<times> uuid \<times> string \<times> string \<times> string \<times> behaviour option" where
  "group_identity scope e =
     (gs_organization_id scope, gs_project_id scope, gs_application_id scope, gs_cluster_id scope,
      normalized (gs_namespace scope), normalized (gs_workload_kind scope),
      normalized (gs_workload_name scope),
      behaviour_of (attribution e) (command (event_process e)) (payload e))"

definition exit_code_fits :: "event_payload \<Rightarrow> bool" where
  "exit_code_fits p = (case p of ContainerTermination v \<Rightarrow> in_i32 (exit_code v) | _ \<Rightarrow> True)"

lemma behaviour_of_ok: "behaviour_of a cmd p = Some b \<Longrightarrow> exit_code_fits p \<Longrightarrow> behaviour_ok b"
  by (cases p) (auto simp: exit_code_fits_def split: process_termination.splits)

lemma group_fields_identity:
  assumes "group_fields S s1 e1 = Ok (fs1, j1)" and "group_fields S s2 e2 = Ok (fs2, j2)"
    and "exit_code_fits (payload e1)" and "exit_code_fits (payload e2)"
  shows "fs1 = fs2 \<longleftrightarrow> group_identity s1 e1 = group_identity s2 e2"
proof -
  from assms(1,2) obtain ps1 ps2 k1 k2 where
    p: "payload_semantic S (attribution e1) (command (event_process e1)) (payload e1) = Ok (ps1, k1)"
      "payload_semantic S (attribution e2) (command (event_process e2)) (payload e2) = Ok (ps2, k2)"
    and fs1: "fs1 = [bytes_of ''okoscope.runtime-event-group'', to_be_bytes 2 FINGERPRINT_V1,
         uuid_bytes (gs_organization_id s1), uuid_bytes (gs_project_id s1),
         uuid_bytes (gs_application_id s1), uuid_bytes (gs_cluster_id s1),
         bytes_of (normalized (gs_namespace s1)), bytes_of (normalized (gs_workload_kind s1)),
         bytes_of (normalized (gs_workload_name s1)), bytes_of (kind e1)] @ ps1"
    and fs2: "fs2 = [bytes_of ''okoscope.runtime-event-group'', to_be_bytes 2 FINGERPRINT_V1,
         uuid_bytes (gs_organization_id s2), uuid_bytes (gs_project_id s2),
         uuid_bytes (gs_application_id s2), uuid_bytes (gs_cluster_id s2),
         bytes_of (normalized (gs_namespace s2)), bytes_of (normalized (gs_workload_kind s2)),
         bytes_of (normalized (gs_workload_name s2)), bytes_of (kind e2)] @ ps2"
    by (auto simp: group_fields_def result_laws split: prod.splits)
  obtain b1 b2 where
    b: "behaviour_of (attribution e1) (command (event_process e1)) (payload e1) = Some b1"
      "behaviour_of (attribution e2) (command (event_process e2)) (payload e2) = Some b2"
      "behaviour_fields b1 = (kind e1, ps1)" "behaviour_fields b2 = (kind e2, ps2)"
    using payload_semantic_fields [OF p(1)] payload_semantic_fields [OF p(2)]
    by (auto simp: kind_def)
  with behaviour_of_ok assms(3,4) have "behaviour_ok b1" "behaviour_ok b2" by blast+
  with behaviour_fields_inj [of b1 b2] b have "b1 = b2 \<longleftrightarrow> kind e1 = kind e2 \<and> ps1 = ps2" by auto
  then show ?thesis using fs1 fs2 b by (auto simp: group_identity_def bytes_of_inj)
qed

text \<open>C10: Runtime Groups are behaviours. Two events that the server fingerprints get the same digest
  exactly when organisation, project, Application, cluster, the normalised namespace, workload kind
  and workload name agree and the events are the same behaviour of the same command, container or
  executable. This needs that SHA-256 does not collide on the two encodings, that no text reaches
  \<open>2^64\<close> bytes, and that exit codes are 32-bit integers.\<close>

theorem runtime_groups_are_behaviours:
  assumes "group_fields S s1 e1 = Ok (fs1, j1)" and "group_fields S s2 e2 = Ok (fs2, j2)"
    and "fields_fit fs1" and "fields_fit fs2"
    and "exit_code_fits (payload e1)" and "exit_code_fits (payload e2)"
    and "sha (encode_fields fs1) = sha (encode_fields fs2) \<Longrightarrow> encode_fields fs1 = encode_fields fs2"
    and "fingerprint_v1 S sha s1 e1 = Ok f1" and "fingerprint_v1 S sha s2 e2 = Ok f2"
  shows "fp_digest f1 = fp_digest f2 \<longleftrightarrow> group_identity s1 e1 = group_identity s2 e2"
proof -
  have "fp_digest f1 = sha (encode_fields fs1)" "fp_digest f2 = sha (encode_fields fs2)"
    using assms(1,2,8,9) by (auto simp: fingerprint_v1_def)
  then have "fp_digest f1 = fp_digest f2 \<longleftrightarrow> fs1 = fs2"
    using assms(7) encode_fields_inj [OF assms(3,4)] by auto
  with group_fields_identity [OF assms(1,2,5,6)] show ?thesis by simp
qed

lemma normalized_lowercase:
  assumes "\<forall>c \<in> set s. is_ascii_lowercase c"
  shows "normalized s = s"
proof -
  let ?ws = "[CHR 0x00] # white_space"
  have "\<forall>w \<in> set ?ws. \<exists>c \<in> set w. \<not> is_ascii_lowercase c"
    by (auto simp: white_space_def is_ascii_lowercase_def byte_def)
  with assms have "\<forall>w \<in> set ?ws. \<not> prefix w s \<and> \<not> suffix w s"
    by (metis set_mono_prefix set_mono_suffix subsetD)
  then have "strip_white ?ws s = None" "strip_suffix ?ws s = None"
    by (auto simp: strip_white_None strip_suffix_None simp del: strip_white.simps strip_suffix.simps)
  then show ?thesis by (simp add: normalized_def trim_start_of.simps trim_end_of.simps)
qed

lemma normalized_Nil [simp]: "normalized [] = []"
proof -
  have "strip_white ws [] = None" "strip_suffix ws [] = None" for ws :: "string list"
    using strip_white_shorter [of ws "[]"] strip_suffix_shorter [of ws "[]"]
    by (cases "strip_white ws []"; cases "strip_suffix ws []"; simp)+
  then show ?thesis by (simp add: normalized_def trim_start_of.simps trim_end_of.simps)
qed

definition plain_serde :: serde_lib where
  "plain_serde = \<lparr>ser_address = (\<lambda>_. JNull), ser_dns_context = (\<lambda>_. JNull), ser_dns_name = (\<lambda>n. JString (dns_str n)),
     ser_query_type = (\<lambda>_. JNull), ser_response_code = (\<lambda>_. JNull), ser_dns_transport = (\<lambda>_. JNull),
     ser_dns_direction = (\<lambda>_. JNull), ser_termination = (\<lambda>_. JNull), ser_source = (\<lambda>_. JNull),
     ser_correlation = (\<lambda>_. JNull), ser_classification = (\<lambda>_. JNull),
     ser_container_termination = (\<lambda>_. JNull), ser_datetime = JNumber, ser_uuid = JNat\<rparr>"

definition sample_scope :: grouping_scope where
  "sample_scope = \<lparr>gs_organization_id = 1, gs_project_id = 7, gs_application_id = 8, gs_cluster_id = 2,
     gs_namespace = ''ns'', gs_workload_kind = ''job'', gs_workload_name = ''web''\<rparr>"

definition endpoint_event :: "string \<Rightarrow> event_payload \<Rightarrow> runtime_event" where
  "endpoint_event cmd p = \<lparr>event_id = 3, event_observed_at = 5, schema_version = 1,
     attribution = \<lparr>project_id = 7, application_id = 8, node_name = ''n'', namespace = ''ns'', pod_uid = ''u'',
       pod_name = ''p'', container_id = ''c'', container_name = ''app'', workload_uid = ''w'',
       workload_kind = ''job'', workload_name = ''web'', release = None, release_identity_of = None\<rparr>,
     event_process = \<lparr>cgroup_id = 1, pid = 2, tgid = 2, command = cmd\<rparr>, payload = p\<rparr>"

definition listen_event :: runtime_event where
  "listen_event = endpoint_event ''nginx'' (NetworkListen \<lparr>listen_transport = TransportTcp,
     listen_family = Ipv4, listen_address = V4 0, listen_port = 80\<rparr>)"

definition accept_event :: runtime_event where
  "accept_event = endpoint_event ''worker'' (NetworkAccept \<lparr>accept_transport = TransportTcp,
     accept_family = Ipv4, accept_local_address = V4 0, accept_local_port = 80,
     accept_remote_address = V4 1, accept_remote_port = 9\<rparr>)"

lemmas sample_fingerprint_defs = sample_scope_def listen_event_def accept_event_def endpoint_event_def
  required_def kind_def inbound_endpoint_semantic_def

lemma sample_normalized [simp]:
  "normalized ''nginx'' = ''nginx''" "normalized ''worker'' = ''worker''" "normalized ''ns'' = ''ns''"
  "normalized ''job'' = ''job''" "normalized ''web'' = ''web''"
  by (rule normalized_lowercase; simp add: is_ascii_lowercase_def byte_def)+

theorem runtime_groups_are_behaviours_witness:
  "\<exists>f1 f2. fingerprint_v1 plain_serde id sample_scope listen_event = Ok f1
     \<and> fingerprint_v1 plain_serde id sample_scope accept_event = Ok f2
     \<and> fp_digest f1 \<noteq> fp_digest f2"
proof -
  obtain fs1 j1 fs2 j2 where
    g: "group_fields plain_serde sample_scope listen_event = Ok (fs1, j1)"
      "group_fields plain_serde sample_scope accept_event = Ok (fs2, j2)"
      "fields_fit fs1" "fields_fit fs2"
    by (simp add: group_fields_def sample_fingerprint_defs fields_fit_def uuid_bytes_def octets_def
        family_name_def)
  define f1 where "f1 = \<lparr>fp_version = FINGERPRINT_V1, fp_digest = encode_fields fs1,
    fp_event_kind = kind listen_event, fp_semantic = j1\<rparr>"
  define f2 where "f2 = \<lparr>fp_version = FINGERPRINT_V1, fp_digest = encode_fields fs2,
    fp_event_kind = kind accept_event, fp_semantic = j2\<rparr>"
  have f: "fingerprint_v1 plain_serde id sample_scope listen_event = Ok f1"
    "fingerprint_v1 plain_serde id sample_scope accept_event = Ok f2"
    using g by (simp_all add: fingerprint_v1_def f1_def f2_def)
  have "exit_code_fits (payload listen_event)" "exit_code_fits (payload accept_event)"
    by (simp_all add: sample_fingerprint_defs exit_code_fits_def)
  from runtime_groups_are_behaviours [OF g this _ f]
  have "fp_digest f1 = fp_digest f2 \<longleftrightarrow>
      group_identity sample_scope listen_event = group_identity sample_scope accept_event" by simp
  moreover have "group_identity sample_scope listen_event \<noteq> group_identity sample_scope accept_event"
    by (simp add: group_identity_def sample_fingerprint_defs)
  ultimately show ?thesis using f by blast
qed

section \<open>Inventory items\<close>

text \<open>
  The abstract reading of an inventory item of one Application. The command does not matter; a
  listener and an accepted connection on the same endpoint are one item, and so are the query and
  the response for the same name and record type.
\<close>

datatype inventory_item =
    ProcessItem string
  | DestinationItem network_address_family ip_addr u16
  | DomainItem string dns_query_type
  | SyscallItem string
  | EndpointItem network_address_family ip_addr u16
  | FileItem string string
  | RenameItem string string "bool option"
  | StartItem string
  | ExitItem string u8
  | KillItem string u8
  | ContainerEndItem string string i32
  | ContainerRestartItem string

fun item_of :: "kubernetes_attribution \<Rightarrow> string \<Rightarrow> event_payload \<Rightarrow> inventory_item option" where
  "item_of a cmd (ThreadActivityWindow w) = None"
| "item_of a cmd (ProcessStart v) = Some (StartItem (normalized cmd))"
| "item_of a cmd (ProcessExec v) = Some (ProcessItem (normalized (executable v)))"
| "item_of a cmd (Syscall v) = Some (SyscallItem (lowercase (normalized (syscall_name v))))"
| "item_of a cmd (NetworkConnect v) =
     Some (DestinationItem (address_family v) (destination_address v) (destination_port v))"
| "item_of a cmd (NetworkListen v) = Some (EndpointItem (listen_family v) (listen_address v) (listen_port v))"
| "item_of a cmd (NetworkAccept v) =
     Some (EndpointItem (accept_family v) (accept_local_address v) (accept_local_port v))"
| "item_of a cmd (NetworkDnsQuery v) = Some (DomainItem (dns_str (q_name v)) (q_type v))"
| "item_of a cmd (NetworkDnsResponse v) = Some (DomainItem (dns_str (r_name v)) (r_type v))"
| "item_of a cmd (FileCreate v) = Some (FileItem ''create'' (path_str (create_path v)))"
| "item_of a cmd (FileModify v) = Some (FileItem ''modify'' (path_str (modify_path v)))"
| "item_of a cmd (FileDelete v) = Some (FileItem ''delete'' (path_str (delete_path v)))"
| "item_of a cmd (FileRename v) =
     Some (RenameItem (path_str (old_path v)) (path_str (new_path v)) (replaced v))"
| "item_of a cmd (ProcessExit v) = Some (case exit_termination v of
     Exited status \<Rightarrow> ExitItem (exit_name cmd v) status
   | Signaled signal _ _ \<Rightarrow> KillItem (exit_name cmd v) signal)"
| "item_of a cmd (ContainerTermination v) =
     Some (ContainerEndItem (normalized (container_name a)) (normalized (ct_reason v)) (exit_code v))"
| "item_of a cmd (ContainerRestart v) = Some (ContainerRestartItem (normalized (container_name a)))"

fun item_fields :: "inventory_item \<Rightarrow> u8 list list" where
  "item_fields (ProcessItem x) = [kind_field InventoryProcess, bytes_of x]"
| "item_fields (DestinationItem f a p) =
     [kind_field InventoryDestination, bytes_of (family_name f), octets a, to_be_bytes 2 p]"
| "item_fields (DomainItem n t) =
     [kind_field InventoryDomain, bytes_of n, bytes_of (dns_query_type_str t)]"
| "item_fields (SyscallItem n) = [kind_field InventorySyscall, bytes_of n]"
| "item_fields (EndpointItem f a p) =
     [kind_field InventoryInboundEndpoint, bytes_of ''tcp'', bytes_of (family_name f), octets a,
      to_be_bytes 2 p]"
| "item_fields (FileItem op p) = [kind_field InventoryFileActivity, bytes_of op, bytes_of p]"
| "item_fields (RenameItem p n r) =
     [kind_field InventoryFileActivity, bytes_of ''rename'', bytes_of p, bytes_of n] @ replaced_fields r"
| "item_fields (StartItem c) = [kind_field InventoryLifecycle, bytes_of ''process.start'', bytes_of c]"
| "item_fields (ExitItem i s) =
     [kind_field InventoryLifecycle, bytes_of ''process.exit'', bytes_of i, bytes_of ''exited'', [s]]"
| "item_fields (KillItem i s) =
     [kind_field InventoryLifecycle, bytes_of ''process.exit'', bytes_of i, bytes_of ''signaled'', [s]]"
| "item_fields (ContainerEndItem c r n) =
     [kind_field InventoryLifecycle, bytes_of ''container.terminated'', bytes_of c, bytes_of r, i32_bytes n]"
| "item_fields (ContainerRestartItem c) =
     [kind_field InventoryLifecycle, bytes_of ''container.restart'', bytes_of c]"

fun item_ok :: "inventory_item \<Rightarrow> bool" where
  "item_ok (ContainerEndItem c r n) = in_i32 n"
| "item_ok i = True"

lemma kind_field_inj [simp]: "kind_field k = kind_field k' \<longleftrightarrow> k = k'"
  by (cases k; cases k') (simp_all add: kind_field_def bytes_of_inj)

lemma item_fields_inj: "item_ok i \<Longrightarrow> item_ok i' \<Longrightarrow> item_fields i = item_fields i' \<longleftrightarrow> i = i'"
  by (cases i; cases i') (auto simp: bytes_of_inj i32_bytes_inj)

lemma inventory_semantic_fields:
  assumes "inventory_semantic S a cmd p = Ok (fs, k, j)"
  shows "\<exists>i. item_of a cmd p = Some i \<and> item_fields i = fs"
  using assms
  by (cases p) (auto simp: result_laws file_activity_fingerprint_def inbound_endpoint_fingerprint_def
      domain_fingerprint_def exit_identity_def exit_name_def replaced_fields_def opt_field_def
      split: process_termination.splits generation_correlation.splits)

lemma item_of_ok: "item_of a cmd p = Some i \<Longrightarrow> exit_code_fits p \<Longrightarrow> item_ok i"
  by (cases p) (auto simp: exit_code_fits_def split: process_termination.splits)

definition inventory_identity ::
    "inventory_scope \<Rightarrow> runtime_event \<Rightarrow> uuid \<times> uuid \<times> uuid \<times> inventory_item option" where
  "inventory_identity scope e =
     (is_organization_id scope, is_project_id scope, is_application_id scope,
      item_of (attribution e) (command (event_process e)) (payload e))"

lemma inventory_fields_identity:
  assumes "inventory_fields S v s1 e1 = Ok (fs1, k1, j1)" and "inventory_fields S v s2 e2 = Ok (fs2, k2, j2)"
    and "exit_code_fits (payload e1)" and "exit_code_fits (payload e2)"
  shows "fs1 = fs2 \<longleftrightarrow> inventory_identity s1 e1 = inventory_identity s2 e2"
proof -
  from assms(1,2) obtain ps1 ps2 where
    p: "inventory_semantic S (attribution e1) (command (event_process e1)) (payload e1) = Ok (ps1, k1, j1)"
      "inventory_semantic S (attribution e2) (command (event_process e2)) (payload e2) = Ok (ps2, k2, j2)"
    and fs1: "fs1 = [bytes_of ''okoscope.application-runtime-inventory'', to_be_bytes 2 v,
         uuid_bytes (is_organization_id s1), uuid_bytes (is_project_id s1),
         uuid_bytes (is_application_id s1)] @ ps1"
    and fs2: "fs2 = [bytes_of ''okoscope.application-runtime-inventory'', to_be_bytes 2 v,
         uuid_bytes (is_organization_id s2), uuid_bytes (is_project_id s2),
         uuid_bytes (is_application_id s2)] @ ps2"
    by (auto simp: inventory_fields_def result_laws split: prod.splits)
  obtain i1 i2 where
    i: "item_of (attribution e1) (command (event_process e1)) (payload e1) = Some i1"
      "item_of (attribution e2) (command (event_process e2)) (payload e2) = Some i2"
      "item_fields i1 = ps1" "item_fields i2 = ps2"
    using inventory_semantic_fields [OF p(1)] inventory_semantic_fields [OF p(2)] by auto
  with item_of_ok assms(3,4) have "item_ok i1" "item_ok i2" by blast+
  with item_fields_inj [of i1 i2] i have "i1 = i2 \<longleftrightarrow> ps1 = ps2" by auto
  then show ?thesis using fs1 fs2 i by (auto simp: inventory_identity_def)
qed

text \<open>C38: Inventory identities. Under the same conditions on the hash and the lengths, two events of any
  Applications map to the same inventory item (the same digest under the current identity version)
  exactly when organisation, project and Application agree and the events are about the same
  item: the process, destination, name and record type, syscall, endpoint, file operation or
  lifecycle step, whatever the command.\<close>

theorem inventory_items_identified:
  assumes "inventory_fields S CURRENT_INVENTORY_IDENTITY_VERSION s1 e1 = Ok (fs1, k1, j1)"
    and "inventory_fields S CURRENT_INVENTORY_IDENTITY_VERSION s2 e2 = Ok (fs2, k2, j2)"
    and "fields_fit fs1" and "fields_fit fs2"
    and "exit_code_fits (payload e1)" and "exit_code_fits (payload e2)"
    and "sha (encode_fields fs1) = sha (encode_fields fs2) \<Longrightarrow> encode_fields fs1 = encode_fields fs2"
    and "inventory_fingerprint_of S sha s1 e1 = Ok f1" and "inventory_fingerprint_of S sha s2 e2 = Ok f2"
  shows "if_digest f1 = if_digest f2 \<longleftrightarrow> inventory_identity s1 e1 = inventory_identity s2 e2"
proof -
  have "if_digest f1 = sha (encode_fields fs1)" "if_digest f2 = sha (encode_fields fs2)"
    using assms(1,2,8,9) by (auto simp: inventory_fingerprint_of_def fingerprint_with_version_def)
  then have "if_digest f1 = if_digest f2 \<longleftrightarrow> fs1 = fs2"
    using assms(7) encode_fields_inj [OF assms(3,4)] by auto
  with inventory_fields_identity [OF assms(1,2,5,6)] show ?thesis by simp
qed

theorem inventory_items_identified_witness:
  "\<exists>f1 f2. inventory_fingerprint_of plain_serde id \<lparr>is_organization_id = 1, is_project_id = 7, is_application_id = 8\<rparr>
        listen_event = Ok f1
     \<and> inventory_fingerprint_of plain_serde id \<lparr>is_organization_id = 1, is_project_id = 7, is_application_id = 8\<rparr>
        accept_event = Ok f2
     \<and> if_digest f1 = if_digest f2"
proof -
  let ?s = "\<lparr>is_organization_id = 1, is_project_id = 7, is_application_id = 8\<rparr>"
  let ?v = CURRENT_INVENTORY_IDENTITY_VERSION
  obtain fs1 k1 j1 fs2 k2 j2 where
    g: "inventory_fields plain_serde ?v ?s listen_event = Ok (fs1, k1, j1)"
      "inventory_fields plain_serde ?v ?s accept_event = Ok (fs2, k2, j2)"
      "fields_fit fs1" "fields_fit fs2"
    by (simp add: inventory_fields_def inbound_endpoint_fingerprint_def sample_fingerprint_defs
        fields_fit_def uuid_bytes_def octets_def family_name_def kind_field_def)
  define f1 where "f1 = \<lparr>if_version = ?v, if_kind = k1, if_digest = encode_fields fs1, if_semantic = j1\<rparr>"
  define f2 where "f2 = \<lparr>if_version = ?v, if_kind = k2, if_digest = encode_fields fs2, if_semantic = j2\<rparr>"
  have f: "inventory_fingerprint_of plain_serde id ?s listen_event = Ok f1"
    "inventory_fingerprint_of plain_serde id ?s accept_event = Ok f2"
    using g by (simp_all add: inventory_fingerprint_of_def fingerprint_with_version_def f1_def f2_def)
  have "exit_code_fits (payload listen_event)" "exit_code_fits (payload accept_event)"
    by (simp_all add: sample_fingerprint_defs exit_code_fits_def)
  from inventory_items_identified [OF g this _ f]
  have "if_digest f1 = if_digest f2 \<longleftrightarrow> inventory_identity ?s listen_event = inventory_identity ?s accept_event"
    by simp
  moreover have "inventory_identity ?s listen_event = inventory_identity ?s accept_event"
    by (simp add: inventory_identity_def sample_fingerprint_defs)
  ultimately show ?thesis using f by blast
qed

end
