(* ===== verification/Tables.thy ===== *)
theory Tables
  imports Prelude
begin

text \<open>
  Tables of the server's database. A table is the list of its rows in the order they were inserted.
  \<open>insert_new\<close> is \<open>INSERT ... ON CONFLICT (key) DO NOTHING\<close> and says whether a row was inserted,
  \<open>upsert\<close> is \<open>INSERT ... ON CONFLICT (key) DO UPDATE\<close>, \<open>update_where\<close> is \<open>UPDATE ... WHERE\<close>.

  Many tables of the server count: their rows carry a number of occurrences and a window of
  sightings, and the conflict branch adds one and widens the window. The locale \<open>counted_rows\<close> is
  that contract, with what an upsert does to the sum of the counts over any set of keys.
\<close>

section \<open>Statements on a table\<close>

definition insert_new :: "('r \<Rightarrow> 'k) \<Rightarrow> 'r \<Rightarrow> 'r list \<Rightarrow> 'r list \<times> bool" where
  "insert_new key r rs = (if key r \<in> key ` set rs then (rs, False) else (rs @ [r], True))"

definition update_where :: "('r \<Rightarrow> bool) \<Rightarrow> ('r \<Rightarrow> 'r) \<Rightarrow> 'r list \<Rightarrow> 'r list" where
  "update_where P f rs = map (\<lambda>r. if P r then f r else r) rs"

definition upsert :: "('r \<Rightarrow> 'k) \<Rightarrow> ('r \<Rightarrow> 'r) \<Rightarrow> 'r \<Rightarrow> 'r list \<Rightarrow> 'r list" where
  "upsert key f r rs =
     (if key r \<in> key ` set rs then update_where (\<lambda>x. key x = key r) f rs else rs @ [r])"

lemma update_where_Nil [simp]: "update_where P f [] = []"
  by (simp add: update_where_def)

lemma update_where_Cons [simp]:
  "update_where P f (r # rs) = (if P r then f r else r) # update_where P f rs"
  by (simp add: update_where_def)

lemma map_update_where:
  "(\<And>r. P r \<Longrightarrow> h (f r) = h r) \<Longrightarrow> map h (update_where P f rs) = map h rs"
  by (simp add: update_where_def)

lemma image_update_where:
  "(\<And>r. P r \<Longrightarrow> h (f r) = h r) \<Longrightarrow> h ` set (update_where P f rs) = h ` set rs"
  using map_update_where [of P h f rs] by (metis list.set_map)

lemma update_where_none: "(\<And>r. r \<in> set rs \<Longrightarrow> \<not> P r) \<Longrightarrow> update_where P f rs = rs"
  by (simp add: update_where_def map_idI)

lemma in_update_where:
  "x \<in> set (update_where P f rs) \<longleftrightarrow> (\<exists>r \<in> set rs. x = (if P r then f r else r))"
  by (auto simp: update_where_def)

lemma find_only:
  assumes "r \<in> set rs" and "P r" and "\<And>x. x \<in> set rs \<Longrightarrow> P x \<Longrightarrow> x = r"
  shows "find P rs = Some r"
proof (cases "find P rs")
  case None
  with assms(1,2) show ?thesis by (auto simp: find_None_iff)
next
  case (Some x)
  then have "x \<in> set rs" "P x" by (auto simp: find_Some_iff)
  with assms(3) Some show ?thesis by blast
qed

lemma find_unique:
  assumes "distinct (map key rs)" and "r \<in> set rs"
  shows "find (\<lambda>x. key x = key r) rs = Some r"
  using assms by (intro find_only) (auto simp: distinct_map dest: inj_onD)

text \<open>A replacing upsert: the row with the key carries the new value, the other keys keep theirs.\<close>

lemma find_upsert_value:
  assumes "\<And>r. key (f r) = key r" and "\<And>r. val (f r) = val row"
  shows "map_option val (find (\<lambda>r. key r = key row) (upsert key f row rs)) = Some (val row)"
    and "k \<noteq> key row \<Longrightarrow> find (\<lambda>r. key r = k) (upsert key f row rs) = find (\<lambda>r. key r = k) rs"
proof -
  have "map_option val (find (\<lambda>r. key r = key row) (update_where (\<lambda>x. key x = key row) f rs))
      = Some (val row)" if "key row \<in> key ` set rs"
    using that by (induction rs) (auto simp: assms)
  moreover have "find (\<lambda>r. key r = key row) (rs @ [row]) = Some row" if "key row \<notin> key ` set rs"
    using that by (induction rs) auto
  ultimately show "map_option val (find (\<lambda>r. key r = key row) (upsert key f row rs)) = Some (val row)"
    by (simp add: upsert_def)
  assume "k \<noteq> key row"
  moreover from this have "find (\<lambda>r. key r = k) (update_where (\<lambda>x. key x = key row) f rs)
      = find (\<lambda>r. key r = k) rs" by (induction rs) (auto simp: assms)
  moreover have "find (\<lambda>r. key r = k) (rs @ [row]) = find (\<lambda>r. key r = k) rs"
    using calculation(1) by (induction rs) auto
  ultimately show "find (\<lambda>r. key r = k) (upsert key f row rs) = find (\<lambda>r. key r = k) rs"
    by (simp add: upsert_def)
qed

section \<open>Counting tables\<close>

definition tally :: "('r \<Rightarrow> 'k) \<Rightarrow> ('r \<Rightarrow> nat) \<Rightarrow> ('k \<Rightarrow> bool) \<Rightarrow> 'r list \<Rightarrow> nat" where
  "tally key cnt P rs = sum_list (map cnt (filter (\<lambda>r. P (key r)) rs))"

lemma tally_simps [simp]:
  "tally key cnt P [] = 0"
  "tally key cnt P (r # rs) = (if P (key r) then cnt r else 0) + tally key cnt P rs"
  "tally key cnt P (rs @ ss) = tally key cnt P rs + tally key cnt P ss"
  by (simp_all add: tally_def)

locale counted_rows =
  fixes key :: "'r \<Rightarrow> 'k" and cnt :: "'r \<Rightarrow> nat" and seen_from seen_to :: "'r \<Rightarrow> datetime"
    and bump :: "datetime \<Rightarrow> 'r \<Rightarrow> 'r"
  assumes key_bump: "key (bump at r) = key r"
    and cnt_bump: "cnt (bump at r) = cnt r + 1"
    and from_bump: "seen_from (bump at r) = min (seen_from r) at"
    and to_bump: "seen_to (bump at r) = max (seen_to r) at"
begin

definition counted :: "'r list \<Rightarrow> bool" where
  "counted rs \<longleftrightarrow> distinct (map key rs) \<and> (\<forall>r \<in> set rs. 0 < cnt r \<and> seen_from r \<le> seen_to r)"

lemma tally_update:
  assumes "distinct (map key rs)" and "k \<in> key ` set rs"
  shows "tally key cnt P (update_where (\<lambda>x. key x = k) (bump at) rs)
    = tally key cnt P rs + (if P k then 1 else 0)"
  using assms
proof (induction rs)
  case (Cons r rs)
  show ?case
  proof (cases "key r = k")
    case True
    with Cons.prems(1) have "k \<notin> key ` set rs" by auto
    then have "update_where (\<lambda>x. key x = k) (bump at) rs = rs"
      by (intro update_where_none) blast
    with True show ?thesis by (simp add: key_bump cnt_bump)
  next
    case False
    with Cons show ?thesis by simp
  qed
qed simp

lemma upsert_tally:
  assumes "counted rs" and "cnt r = 1"
  shows "tally key cnt P (upsert key (bump at) r rs) = tally key cnt P rs + (if P (key r) then 1 else 0)"
  using assms by (simp add: upsert_def tally_update counted_def)

lemma upsert_counted:
  assumes "counted rs" and "cnt r = 1" and "seen_from r \<le> seen_to r"
  shows "counted (upsert key (bump at) r rs)"
proof (cases "key r \<in> key ` set rs")
  case True
  moreover have "map key (update_where (\<lambda>x. key x = key r) (bump at) rs) = map key rs"
    by (simp add: map_update_where key_bump)
  ultimately show ?thesis
    using assms by (auto simp: counted_def upsert_def in_update_where cnt_bump from_bump to_bump
        min_le_iff_disj le_max_iff_disj)
next
  case False
  with assms show ?thesis by (auto simp: counted_def upsert_def)
qed

end

end
