(* ===== verification/Table_Queries.thy ===== *)
theory Table_Queries
  imports Tables
begin

text \<open>
  Queries over the tables of the server: \<open>delete_where\<close> is \<open>DELETE ... WHERE\<close>, \<open>first_rows\<close> the
  subquery with \<open>ORDER BY ... LIMIT\<close>, \<open>group_by\<close> the groups of a \<open>GROUP BY\<close> in the order in which
  they appear, and \<open>merge_rows\<close> an \<open>INSERT ... SELECT ... ON CONFLICT DO UPDATE\<close> of many rows.
  The lemmas say what becomes of the sum of a column.
\<close>

definition delete_where :: "('r \<Rightarrow> bool) \<Rightarrow> 'r list \<Rightarrow> 'r list" where
  "delete_where P rs = filter (\<lambda>r. \<not> P r) rs"

definition first_rows :: "('r \<Rightarrow> 'k::linorder) \<Rightarrow> nat \<Rightarrow> ('r \<Rightarrow> bool) \<Rightarrow> 'r list \<Rightarrow> 'r list" where
  "first_rows key n P rs = take n (sort_key key (filter P rs))"

definition group_by :: "('a \<Rightarrow> 'k) \<Rightarrow> 'a list \<Rightarrow> ('k \<times> 'a list) list" where
  "group_by key xs = map (\<lambda>k. (k, filter (\<lambda>x. key x = k) xs)) (remdups (map key xs))"

definition merge_rows :: "('r \<Rightarrow> 'k) \<Rightarrow> ('r \<Rightarrow> 'r \<Rightarrow> 'r) \<Rightarrow> 'r list \<Rightarrow> 'r list \<Rightarrow> 'r list" where
  "merge_rows key merge new rs = fold (\<lambda>r. upsert key (merge r) r) new rs"

lemma delete_where_simps [simp]:
  "delete_where P [] = []" "delete_where P (r # rs) = (if P r then delete_where P rs else r # delete_where P rs)"
  "set (delete_where P rs) = {r \<in> set rs. \<not> P r}"
  by (simp_all add: delete_where_def)

lemma distinct_delete_where: "distinct (map f rs) \<Longrightarrow> distinct (map f (delete_where P rs))"
  by (simp add: delete_where_def distinct_map_filter)

lemma tally_delete_where:
  "(\<And>r. Q r \<longleftrightarrow> q (key r)) \<Longrightarrow> tally key cnt P (delete_where Q rs) = tally key cnt (\<lambda>k. P k \<and> \<not> q k) rs"
  by (induction rs) simp_all

lemma tally_None [simp]: "tally key cnt (\<lambda>k. False) rs = 0"
  by (simp add: tally_def)

lemma first_rows_set: "set (first_rows key n P rs) \<subseteq> {r \<in> set rs. P r}"
  by (auto simp: first_rows_def dest: in_set_takeD)

lemma first_rows_length: "length (first_rows key n P rs) = min n (length (filter P rs))"
  by (simp add: first_rows_def min.commute)

lemma first_rows_distinct: "distinct (map f rs) \<Longrightarrow> distinct (map f (first_rows key n P rs))"
proof -
  assume "distinct (map f rs)"
  then have "distinct (map f (sort_key key (filter P rs)))"
    by (simp add: distinct_map distinct_filter inj_on_def)
  then show ?thesis unfolding first_rows_def by (simp add: take_map [symmetric] distinct_take)
qed

lemma group_by_keys: "map fst (group_by key xs) = remdups (map key xs)"
  by (simp add: group_by_def comp_def)

lemma group_by_distinct [simp]: "distinct (map fst (group_by key xs))"
  by (simp add: group_by_keys)

lemma in_group_by:
  "(k, ys) \<in> set (group_by key xs) \<longleftrightarrow> k \<in> key ` set xs \<and> ys = filter (\<lambda>x. key x = k) xs"
  by (auto simp: group_by_def)

lemma group_by_nonempty: "(k, ys) \<in> set (group_by key xs) \<Longrightarrow> ys \<noteq> []"
  by (auto simp: in_group_by filter_empty_conv)

lemma sum_over_keys:
  assumes "distinct ks" and "key ` set xs \<subseteq> set ks"
  shows "sum_list (map (\<lambda>k. sum_list (map n (filter (\<lambda>x. key x = k) xs))) ks) = (sum_list (map n xs) :: nat)"
  using assms(2)
proof (induction xs)
  case (Cons x xs)
  have one: "sum_list (map (\<lambda>k. if key x = k then n x else 0) ks) = n x"
    using assms(1) Cons.prems by (simp add: sum_list_distinct_conv_sum_set)
  have split: "sum_list (map n (filter (\<lambda>y. key y = k) (x # xs)))
      = (if key x = k then n x else 0) + sum_list (map n (filter (\<lambda>y. key y = k) xs))" for k by simp
  show ?case using Cons one by (simp only: split sum_list_addf list.simps sum_list.Cons) simp
qed simp

text \<open>The sum of a column over the groups of a \<open>GROUP BY\<close> is the sum over the grouped rows.\<close>

lemma tally_group_by:
  assumes "\<And>k ys. tkey (mk (k, ys)) = h k"
    and "\<And>k ys. (k, ys) \<in> set (group_by key xs) \<Longrightarrow> cnt (mk (k, ys)) = sum_list (map n ys)"
  shows "tally tkey cnt P (map mk (group_by key xs)) = sum_list (map n (filter (\<lambda>x. P (h (key x))) xs))"
proof -
  let ?ks = "filter (\<lambda>k. P (h k)) (remdups (map key xs))"
  let ?ys = "filter (\<lambda>x. P (h (key x))) xs"
  have "filter (\<lambda>r. P (tkey r)) (map mk (group_by key xs))
      = map (\<lambda>k. mk (k, filter (\<lambda>x. key x = k) xs)) ?ks"
    by (simp add: group_by_def filter_map comp_def assms(1))
  then have "tally tkey cnt P (map mk (group_by key xs))
      = sum_list (map (\<lambda>k. cnt (mk (k, filter (\<lambda>x. key x = k) xs))) ?ks)"
    by (simp add: tally_def comp_def)
  also have "\<dots> = sum_list (map (\<lambda>k. sum_list (map n (filter (\<lambda>x. key x = k) ?ys))) ?ks)"
  proof (intro arg_cong [of _ _ sum_list] map_cong refl)
    fix k
    assume k: "k \<in> set ?ks"
    then have "filter (\<lambda>x. key x = k) ?ys = filter (\<lambda>x. key x = k) xs" by (auto intro: filter_cong)
    with k assms(2) [of k] show "cnt (mk (k, filter (\<lambda>x. key x = k) xs)) = sum_list (map n (filter (\<lambda>x. key x = k) ?ys))"
      by (simp add: in_group_by)
  qed
  also have "\<dots> = sum_list (map n ?ys)" by (rule sum_over_keys) auto
  finally show ?thesis .
qed

lemma upsert_merge_tally:
  assumes "\<And>x. key (f x) = key x" and "\<And>x. cnt (f x) = cnt x + cnt r" and "distinct (map key rs)"
  shows "tally (\<lambda>x. h (key x)) cnt P (upsert key f r rs)
      = tally (\<lambda>x. h (key x)) cnt P rs + (if P (h (key r)) then cnt r else 0)"
    and "distinct (map key (upsert key f r rs))"
    and "key ` set (upsert key f r rs) = insert (key r) (key ` set rs)"
proof -
  have "tally (\<lambda>x. h (key x)) cnt P (update_where (\<lambda>x. key x = key r) f rs)
      = tally (\<lambda>x. h (key x)) cnt P rs + (if P (h (key r)) then cnt r else 0)" if "key r \<in> key ` set rs"
    using that assms(3)
  proof (induction rs)
    case (Cons x rs)
    show ?case
    proof (cases "key x = key r")
      case True
      with Cons.prems(2) have "key r \<notin> key ` set rs" by auto
      then have "update_where (\<lambda>x. key x = key r) f rs = rs" by (intro update_where_none) (metis image_eqI)
      with True assms(1,2) show ?thesis by simp
    next
      case False
      with Cons.prems have "key r \<in> key ` set rs" "distinct (map key rs)" by auto
      with Cons.IH False show ?thesis by simp
    qed
  qed simp
  then show "tally (\<lambda>x. h (key x)) cnt P (upsert key f r rs)
      = tally (\<lambda>x. h (key x)) cnt P rs + (if P (h (key r)) then cnt r else 0)" by (simp add: upsert_def)
  show "distinct (map key (upsert key f r rs))"
    using assms(1,3) by (simp add: upsert_def map_update_where)
  show "key ` set (upsert key f r rs) = insert (key r) (key ` set rs)"
    using assms(1) by (auto simp: upsert_def image_update_where)
qed

lemma merge_rows_tally:
  assumes "\<And>r x. key (merge r x) = key x" and "\<And>r x. cnt (merge r x) = cnt x + cnt r"
    and "distinct (map key rs)"
  shows "tally (\<lambda>x. h (key x)) cnt P (merge_rows key merge new rs)
      = tally (\<lambda>x. h (key x)) cnt P rs + tally (\<lambda>x. h (key x)) cnt P new
    \<and> distinct (map key (merge_rows key merge new rs))
    \<and> key ` set (merge_rows key merge new rs) = key ` set rs \<union> key ` set new"
  using assms(3)
proof (induction new arbitrary: rs)
  case (Cons r new)
  note step = upsert_merge_tally [of key "merge r" cnt r rs, OF assms(1,2) Cons.prems]
  from Cons.IH [OF step(2)] step(1) [of h P] step(2,3) show ?case by (simp add: merge_rows_def)
qed (simp add: merge_rows_def)

lemma merge_rows_all:
  assumes "\<And>r x. Q r \<Longrightarrow> Q x \<Longrightarrow> Q (merge r x)" and "\<forall>r \<in> set new. Q r" and "\<forall>r \<in> set rs. Q r"
  shows "\<forall>r \<in> set (merge_rows key merge new rs). Q r"
  using assms(2,3)
proof (induction new arbitrary: rs)
  case (Cons r new)
  then have "\<forall>x \<in> set (upsert key (merge r) r rs). Q x"
    using assms(1) by (auto simp: upsert_def in_update_where)
  with Cons show ?case by (simp add: merge_rows_def)
qed (simp add: merge_rows_def)

text \<open>
  A counting table whose rows with a certain key are deleted and built again from a \<open>GROUP BY\<close>: the
  sums over the other keys stay, the sums over these keys are those of the grouped rows.
\<close>

context counted_rows
begin

lemma rebuild:
  assumes counted: "counted rs" and keys: "\<And>k ys. key (mk (k, ys)) = h k" "inj h"
    and sums: "\<And>k ys. (k, ys) \<in> set (group_by f xs) \<Longrightarrow> cnt (mk (k, ys)) = sum_list (map n ys)"
    and rows: "\<And>k ys. (k, ys) \<in> set (group_by f xs) \<Longrightarrow> 0 < cnt (mk (k, ys)) \<and> seen_from (mk (k, ys)) \<le> seen_to (mk (k, ys))"
    and cleared: "\<And>r. Q r \<longleftrightarrow> q (key r)" "\<And>k. k \<in> f ` set xs \<Longrightarrow> q (h k)"
  shows "counted (delete_where Q rs @ map mk (group_by f xs))"
    and "tally key cnt P (delete_where Q rs @ map mk (group_by f xs))
      = tally key cnt (\<lambda>k. P k \<and> \<not> q k) rs + sum_list (map n (filter (\<lambda>x. P (h (f x))) xs))"
proof -
  let ?new = "map mk (group_by f xs)"
  have new: "map key ?new = map h (map fst (group_by f xs))" using keys(1) by auto
  have "inj_on h (set (map fst (group_by f xs)))" using keys(2) by (rule inj_on_subset) simp
  then have "distinct (map key ?new)" unfolding new by (subst distinct_map) (simp del: list.set_map)
  moreover have "q (key r)" if "r \<in> set ?new" for r
    using that cleared(2) by (auto simp: keys(1) in_group_by)
  moreover have "0 < cnt r \<and> seen_from r \<le> seen_to r" if "r \<in> set ?new" for r
    using that rows by auto
  ultimately show "counted (delete_where Q rs @ ?new)"
    using counted cleared(1) unfolding counted_def by (auto simp: distinct_delete_where)
  show "tally key cnt P (delete_where Q rs @ ?new)
      = tally key cnt (\<lambda>k. P k \<and> \<not> q k) rs + sum_list (map n (filter (\<lambda>x. P (h (f x))) xs))"
    using tally_delete_where [of Q q key cnt P rs, OF cleared(1)] tally_group_by [of key mk h f xs cnt n P, OF keys(1) sums]
    by simp
qed

lemma counted_delete: "counted rs \<Longrightarrow> counted (delete_where Q rs)"
  by (auto simp: counted_def distinct_delete_where)

end

end
