(* ===== verification/Event_Groups.thy ===== *)
theory Event_Groups
  imports Fingerprints Table_Queries
begin

text \<open>
  Runtime Groups in the server's database: the tables \<open>runtime_event_groups\<close>,
  \<open>runtime_event_group_memberships\<close>, \<open>runtime_event_group_releases\<close>, \<open>runtime_history_snapshots\<close>
  and \<open>outbox_messages\<close>, the
  statements of \<open>crates/server/src/repository/event_groups.rs\<close> and \<open>outbox.rs\<close> that write them,
  and \<open>assign_event\<close> (\<open>crates/server/src/grouping.rs\<close>), which puts a stored event into its group.

  A table is the list of its rows. An \<open>INSERT ... ON CONFLICT DO NOTHING\<close> appends a row unless one
  with the same unique key exists; an \<open>UPDATE\<close> maps the rows it selects. The identifiers drawn by
  \<open>Uuid::new_v4\<close> are arguments. The bookkeeping columns \<open>created_at\<close> and \<open>updated_at\<close> are left out.

  \<open>groups_ok\<close> is the consistency of these tables: identifiers and keys are unique, memberships
  belong to a group, the occurrence count of a group is the number of its members and of the events
  that retention has folded into its history, the first sighting is not after the last one, and a
  group is announced at most once. The columns of a membership that repeat the tenant of its event
  are left out.
\<close>

section \<open>Tables\<close>

record group_key =
  gk_organization_id :: uuid
  gk_project_id :: uuid
  gk_application_id :: uuid
  gk_cluster_id :: uuid
  gk_namespace :: string
  gk_workload_kind :: string
  gk_workload_name :: string
  gk_version :: nat
  gk_digest :: "u8 list"

record group_row =
  g_id :: uuid
  g_key :: group_key
  g_event_kind :: string
  g_semantic :: json
  g_first_seen_at :: datetime
  g_last_seen_at :: datetime
  g_occurrence_count :: nat
  g_representative :: "uuid option"
  g_first_seen_event :: "uuid option"

record membership_row =
  m_event_id :: uuid
  m_version :: nat
  m_group_id :: uuid
  m_release_id :: "uuid option"

record group_release_row =
  gr_release_id :: uuid
  gr_group_id :: uuid
  gr_occurrence_count :: nat
  gr_first_seen_at :: datetime
  gr_last_seen_at :: datetime
  gr_representative :: "uuid option"

record outbox_row =
  ob_id :: uuid
  ob_organization_id :: uuid
  ob_project_id :: uuid
  ob_topic :: string
  ob_aggregate_id :: uuid
  ob_schema_version :: nat
  ob_source :: string
  ob_payload :: json
  ob_processed_at :: "datetime option"

record snapshot_row =
  sn_id :: uuid
  sn_organization_id :: uuid
  sn_project_id :: uuid
  sn_application_id :: uuid
  sn_group_id :: uuid
  sn_release_id :: "uuid option"
  sn_day :: int
  sn_occurrence_count :: nat
  sn_first_observed_at :: datetime
  sn_last_observed_at :: datetime

record group_tables =
  groups :: "group_row list"
  memberships :: "membership_row list"
  group_releases :: "group_release_row list"
  outbox :: "outbox_row list"
  snapshots :: "snapshot_row list"

datatype db_error =
  ProtocolFailure fingerprint_error | ProtocolMessage string | RowNotFound | CheckViolation

section \<open>Statements\<close>

definition find_group :: "group_key \<Rightarrow> group_tables \<Rightarrow> group_row option" where
  "find_group k t = find (\<lambda>r. g_key r = k) (groups t)"

definition insert_if_absent ::
    "uuid \<Rightarrow> group_key \<Rightarrow> string \<Rightarrow> json \<Rightarrow> datetime \<Rightarrow> uuid \<Rightarrow> group_tables \<Rightarrow> group_tables \<times> uuid option" where
  "insert_if_absent candidate k event_kind semantic observed_at ev t =
     (case find_group k t of
        Some _ \<Rightarrow> (t, None)
      | None \<Rightarrow>
          (t\<lparr>groups := groups t @ [\<lparr>g_id = candidate, g_key = k, g_event_kind = event_kind,
              g_semantic = semantic, g_first_seen_at = observed_at, g_last_seen_at = observed_at,
              g_occurrence_count = 1, g_representative = Some ev,
              g_first_seen_event = Some ev\<rparr>]\<rparr>, Some candidate))"

definition lock_existing :: "group_key \<Rightarrow> group_tables \<Rightarrow> (uuid, db_error) result" where
  "lock_existing k t = ok_or RowNotFound (map_option g_id (find_group k t))"

definition add_release_membership :: "membership_row \<Rightarrow> group_tables \<Rightarrow> group_tables \<times> uuid option" where
  "add_release_membership m t =
     (if \<exists>r \<in> set (memberships t). m_event_id r = m_event_id m \<and> m_version r = m_version m
      then (t, None)
      else (t\<lparr>memberships := memberships t @ [m]\<rparr>, Some (m_event_id m)))"

text \<open>The SQL row comparison \<open>(a, x) < (b, y)\<close>, where \<open>y\<close> may be \<open>NULL\<close>.\<close>

definition row_less :: "datetime \<Rightarrow> uuid \<Rightarrow> datetime \<Rightarrow> uuid option \<Rightarrow> bool" where
  "row_less a x b y \<longleftrightarrow> a < b \<or> (a = b \<and> (case y of None \<Rightarrow> False | Some v \<Rightarrow> x < v))"

definition occurrence_of :: "datetime \<Rightarrow> uuid \<Rightarrow> group_row \<Rightarrow> group_row" where
  "occurrence_of observed_at ev r =
     r\<lparr>g_first_seen_event := (if row_less observed_at ev (g_first_seen_at r) (g_first_seen_event r)
                             then Some ev else g_first_seen_event r),
       g_first_seen_at := (if g_occurrence_count r = 0 then observed_at
                           else min (g_first_seen_at r) observed_at),
       g_last_seen_at := (if g_occurrence_count r = 0 then observed_at
                          else max (g_last_seen_at r) observed_at),
       g_representative := (case g_representative r of None \<Rightarrow> Some ev | Some x \<Rightarrow> Some x),
       g_occurrence_count := g_occurrence_count r + 1\<rparr>"

definition update_group :: "uuid \<Rightarrow> (group_row \<Rightarrow> group_row) \<Rightarrow> group_tables \<Rightarrow> group_tables" where
  "update_group gid f t = t\<lparr>groups := map (\<lambda>r. if g_id r = gid then f r else r) (groups t)\<rparr>"

definition record_occurrence :: "uuid \<Rightarrow> datetime \<Rightarrow> uuid \<Rightarrow> group_tables \<Rightarrow> group_tables" where
  "record_occurrence gid observed_at ev t =
     update_group gid (occurrence_of observed_at ev) t"

definition release_key :: "group_release_row \<Rightarrow> uuid \<times> uuid" where
  "release_key r = (gr_release_id r, gr_group_id r)"

definition release_occurrence_of :: "uuid \<Rightarrow> datetime \<Rightarrow> group_release_row \<Rightarrow> group_release_row" where
  "release_occurrence_of ev observed_at r =
     r\<lparr>gr_representative := (case gr_representative r of None \<Rightarrow> Some ev | Some x \<Rightarrow> Some x),
       gr_occurrence_count := gr_occurrence_count r + 1,
       gr_first_seen_at := min (gr_first_seen_at r) observed_at,
       gr_last_seen_at := max (gr_last_seen_at r) observed_at\<rparr>"

interpretation releases: counted_rows release_key gr_occurrence_count gr_first_seen_at gr_last_seen_at
    "release_occurrence_of ev" for ev
  by unfold_locales (simp_all add: release_key_def release_occurrence_of_def)

definition record_release_occurrence ::
    "uuid \<Rightarrow> uuid \<Rightarrow> datetime \<Rightarrow> uuid \<Rightarrow> group_tables \<Rightarrow> group_tables" where
  "record_release_occurrence release_id gid observed_at ev t =
     t\<lparr>group_releases := upsert release_key (release_occurrence_of ev observed_at)
         \<lparr>gr_release_id = release_id, gr_group_id = gid, gr_occurrence_count = 1,
          gr_first_seen_at = observed_at, gr_last_seen_at = observed_at, gr_representative = Some ev\<rparr>
         (group_releases t)\<rparr>"

definition FIRST_SEEN :: string where "FIRST_SEEN = ''runtime_group.first_seen''"

definition insert_first_seen_from ::
    "uuid \<Rightarrow> uuid \<Rightarrow> uuid \<Rightarrow> uuid \<Rightarrow> string \<Rightarrow> json \<Rightarrow> group_tables \<Rightarrow> group_tables" where
  "insert_first_seen_from oid org proj gid source body t =
     (if \<exists>r \<in> set (outbox t). ob_topic r = FIRST_SEEN \<and> ob_aggregate_id r = gid \<and> ob_schema_version r = 1
      then t
      else t\<lparr>outbox := outbox t @ [\<lparr>ob_id = oid, ob_organization_id = org,
               ob_project_id = proj, ob_topic = FIRST_SEEN, ob_aggregate_id = gid,
               ob_schema_version = 1, ob_source = source, ob_payload = body, ob_processed_at = None\<rparr>]\<rparr>)"

section \<open>Assigning an event to its group\<close>

datatype grouping_source = Live | Backfill

fun source_str :: "grouping_source \<Rightarrow> string" where
  "source_str Live = ''live''"
| "source_str Backfill = ''backfill''"

record grouping_outcome =
  go_group_id :: uuid
  go_group_created :: bool
  go_membership_created :: bool

definition key_of :: "grouping_scope \<Rightarrow> event_fingerprint \<Rightarrow> group_key" where
  "key_of scope f = \<lparr>gk_organization_id = gs_organization_id scope, gk_project_id = gs_project_id scope,
     gk_application_id = gs_application_id scope, gk_cluster_id = gs_cluster_id scope,
     gk_namespace = gs_namespace scope, gk_workload_kind = gs_workload_kind scope,
     gk_workload_name = gs_workload_name scope, gk_version = unat (fp_version f),
     gk_digest = fp_digest f\<rparr>"

definition first_seen_payload :: "serde_lib \<Rightarrow> uuid \<Rightarrow> uuid \<Rightarrow> string \<Rightarrow> json \<Rightarrow> nat \<Rightarrow> json" where
  "first_seen_payload S gid app event_kind semantic version =
     JObject [(''group_id'', ser_uuid S gid), (''application_id'', ser_uuid S app),
       (''event_kind'', JString event_kind), (''semantic'', semantic),
       (''fingerprint_version'', JNumber (int version))]"

definition assign_event ::
    "serde_lib \<Rightarrow> (u8 list \<Rightarrow> u8 list) \<Rightarrow> uuid \<Rightarrow> uuid \<Rightarrow> uuid \<Rightarrow> uuid option \<Rightarrow> grouping_scope \<Rightarrow>
       runtime_event \<Rightarrow> grouping_source \<Rightarrow> group_tables \<Rightarrow> (group_tables \<times> grouping_outcome, db_error) result" where
  "assign_event S sha candidate oid raw_event_id release_id scope e source t =
     res_bind (map_err ProtocolFailure (fingerprint_v1 S sha scope e)) (\<lambda>f.
       let key = key_of scope f;
           (t1, created) = insert_if_absent candidate key (fp_event_kind f) (fp_semantic f)
                             (event_observed_at e) raw_event_id t
       in res_bind (case created of Some gid \<Rightarrow> Ok gid | None \<Rightarrow> lock_existing key t1) (\<lambda>gid.
         let (t2, added) = add_release_membership \<lparr>m_event_id = raw_event_id,
                             m_version = unat (fp_version f), m_group_id = gid, m_release_id = release_id\<rparr> t1;
             member = (added \<noteq> None);
             t3 = (if member \<and> created = None
                   then record_occurrence gid (event_observed_at e) raw_event_id t2 else t2);
             t4 = (case release_id of
                     Some r \<Rightarrow> if member then record_release_occurrence r gid (event_observed_at e) raw_event_id t3
                               else t3
                   | None \<Rightarrow> t3);
             t5 = (if created \<noteq> None
                   then insert_first_seen_from oid (gs_organization_id scope) (gs_project_id scope) gid
                          (source_str source)
                          (first_seen_payload S gid (gs_application_id scope) (fp_event_kind f)
                             (fp_semantic f) (unat (fp_version f))) t4
                   else t4)
         in Ok (t5, \<lparr>go_group_id = gid, go_group_created = (created \<noteq> None),
                     go_membership_created = member\<rparr>)))"

section \<open>Groups derived from a projection\<close>

definition upsert_derived ::
    "uuid \<Rightarrow> group_key \<Rightarrow> string \<Rightarrow> json \<Rightarrow> datetime \<Rightarrow> uuid \<Rightarrow> group_tables \<Rightarrow> group_tables \<times> uuid" where
  "upsert_derived candidate k event_kind semantic observed_at ev t =
     (case find_group k t of
        Some r \<Rightarrow>
          (update_group (g_id r) (\<lambda>r. r\<lparr>g_semantic := semantic,
             g_last_seen_at := max (g_last_seen_at r) observed_at,
             g_representative := Some ev\<rparr>) t, g_id r)
      | None \<Rightarrow>
          (fst (insert_if_absent candidate k event_kind semantic observed_at ev t), candidate))"

definition increment_occurrence :: "uuid \<Rightarrow> group_tables \<Rightarrow> group_tables" where
  "increment_occurrence gid t =
     update_group gid (\<lambda>r. r\<lparr>g_occurrence_count := g_occurrence_count r + 1\<rparr>) t"

section \<open>Consistency of the tables\<close>

definition members_of :: "uuid \<Rightarrow> group_tables \<Rightarrow> nat" where
  "members_of gid t = length (filter (\<lambda>m. m_group_id m = gid) (memberships t))"

definition release_members_of :: "uuid \<Rightarrow> uuid \<Rightarrow> group_tables \<Rightarrow> nat" where
  "release_members_of rel gid t =
     length (filter (\<lambda>m. m_group_id m = gid \<and> m_release_id m = Some rel) (memberships t))"

definition release_count :: "uuid \<Rightarrow> uuid \<Rightarrow> group_tables \<Rightarrow> nat" where
  "release_count rel gid t =
     tally release_key gr_occurrence_count (\<lambda>k. k = (rel, gid)) (group_releases t)"

definition announced :: "group_tables \<Rightarrow> uuid multiset" where
  "announced t = mset (map ob_aggregate_id
     (filter (\<lambda>r. ob_topic r = FIRST_SEEN \<and> ob_schema_version r = 1) (outbox t)))"

definition archived :: "uuid \<Rightarrow> group_tables \<Rightarrow> nat" where
  "archived gid t = tally sn_group_id sn_occurrence_count (\<lambda>g. g = gid) (snapshots t)"

definition archived_release :: "uuid \<Rightarrow> uuid \<Rightarrow> group_tables \<Rightarrow> nat" where
  "archived_release rel gid t =
     tally (\<lambda>s. (sn_release_id s, sn_group_id s)) sn_occurrence_count (\<lambda>k. k = (Some rel, gid)) (snapshots t)"

definition occurrences :: "uuid \<Rightarrow> group_tables \<Rightarrow> nat" where
  "occurrences gid t = members_of gid t + archived gid t"

definition snapshot_key :: "snapshot_row \<Rightarrow> uuid \<times> uuid option \<times> int" where
  "snapshot_key s = (sn_group_id s, sn_release_id s, sn_day s)"

definition history_ok :: "group_tables \<Rightarrow> bool" where
  "history_ok t \<longleftrightarrow> distinct (map snapshot_key (snapshots t))
     \<and> (\<forall>s \<in> set (snapshots t). sn_group_id s \<in> g_id ` set (groups t) \<and> 0 < sn_occurrence_count s
          \<and> sn_first_observed_at s \<le> sn_last_observed_at s)"

definition members_ok :: "group_tables \<Rightarrow> bool" where
  "members_ok t \<longleftrightarrow>
     distinct (map g_id (groups t)) \<and> distinct (map g_key (groups t))
     \<and> distinct (map (\<lambda>m. (m_event_id m, m_version m)) (memberships t))
     \<and> (\<forall>m \<in> set (memberships t). m_group_id m \<in> g_id ` set (groups t))"

definition groups_ok :: "group_tables \<Rightarrow> bool" where
  "groups_ok t \<longleftrightarrow> members_ok t \<and> history_ok t
     \<and> (\<forall>r \<in> set (groups t). g_occurrence_count r = occurrences (g_id r) t \<and> g_first_seen_at r \<le> g_last_seen_at r)
     \<and> releases.counted (group_releases t)
     \<and> (\<forall>rel gid. release_count rel gid t = release_members_of rel gid t + archived_release rel gid t)
     \<and> announced t \<subseteq># mset (map g_id (groups t))"

lemma archived_none:
  assumes "history_ok t" and "gid \<notin> g_id ` set (groups t)"
  shows "archived gid t = 0"
  using assms by (auto simp: archived_def tally_def history_ok_def)

lemma find_group_Some: "find_group k t = Some r \<Longrightarrow> r \<in> set (groups t) \<and> g_key r = k"
  by (auto simp: find_group_def find_Some_iff)

lemma find_group_None: "find_group k t = None \<longleftrightarrow> k \<notin> g_key ` set (groups t)"
  by (auto simp: find_group_def find_None_iff)

lemma find_group_key:
  "distinct (map g_key (groups t)) \<Longrightarrow> r \<in> set (groups t) \<Longrightarrow> find_group (g_key r) t = Some r"
  by (simp add: find_group_def find_unique)

lemma record_release_simps [simp]:
  "groups (record_release_occurrence rel gid at ev t) = groups t"
  "memberships (record_release_occurrence rel gid at ev t) = memberships t"
  "outbox (record_release_occurrence rel gid at ev t) = outbox t"
  "snapshots (record_release_occurrence rel gid at ev t) = snapshots t"
  by (simp_all add: record_release_occurrence_def)

lemma record_release_count:
  assumes "releases.counted (group_releases t)"
  shows "release_count rel' gid' (record_release_occurrence rel gid at ev t)
      = release_count rel' gid' t + (if rel' = rel \<and> gid' = gid then 1 else 0)"
    and "releases.counted (group_releases (record_release_occurrence rel gid at ev t))"
  using assms by (auto simp: release_count_def record_release_occurrence_def releases.upsert_tally
      release_key_def intro!: releases.upsert_counted)

text \<open>The two ways an event joins its group: it founds the group, or it joins an existing one.\<close>

definition with_release :: "uuid option \<Rightarrow> uuid \<Rightarrow> datetime \<Rightarrow> uuid \<Rightarrow> group_tables \<Rightarrow> group_tables" where
  "with_release rel gid at ev t =
     (case rel of Some r \<Rightarrow> record_release_occurrence r gid at ev t | None \<Rightarrow> t)"

lemma add_membership_new:
  "m_event_id m \<notin> m_event_id ` set (memberships t) \<Longrightarrow>
     add_release_membership m t = (t\<lparr>memberships := memberships t @ [m]\<rparr>, Some (m_event_id m))"
  by (auto simp: add_release_membership_def rev_image_eqI dest: rev_image_eqI [where f = m_event_id])

lemma assign_event_cases:
  assumes "assign_event S sha cand oid raw rel scope e src t = Ok (t', out)"
    and "raw \<notin> m_event_id ` set (memberships t)"
  obtains (founds) f where "fingerprint_v1 S sha scope e = Ok f" "find_group (key_of scope f) t = None"
      "out = \<lparr>go_group_id = cand, go_group_created = True, go_membership_created = True\<rparr>"
      "t' = insert_first_seen_from oid (gs_organization_id scope) (gs_project_id scope) cand
         (source_str src) (first_seen_payload S cand (gs_application_id scope) (fp_event_kind f)
           (fp_semantic f) (unat (fp_version f)))
         (with_release rel cand (event_observed_at e) raw
           (t\<lparr>groups := groups t @ [\<lparr>g_id = cand, g_key = key_of scope f, g_event_kind = fp_event_kind f,
                 g_semantic = fp_semantic f, g_first_seen_at = event_observed_at e,
                 g_last_seen_at = event_observed_at e, g_occurrence_count = 1,
                 g_representative = Some raw, g_first_seen_event = Some raw\<rparr>],
              memberships := memberships t @ [\<lparr>m_event_id = raw, m_version = unat (fp_version f),
                 m_group_id = cand, m_release_id = rel\<rparr>]\<rparr>))"
  | (joins) f r where "fingerprint_v1 S sha scope e = Ok f" "find_group (key_of scope f) t = Some r"
      "out = \<lparr>go_group_id = g_id r, go_group_created = False, go_membership_created = True\<rparr>"
      "t' = with_release rel (g_id r) (event_observed_at e) raw
         (record_occurrence (g_id r) (event_observed_at e) raw
           (t\<lparr>memberships := memberships t @ [\<lparr>m_event_id = raw, m_version = unat (fp_version f),
                 m_group_id = g_id r, m_release_id = rel\<rparr>]\<rparr>))"
proof -
  from assms(1) obtain f where f: "fingerprint_v1 S sha scope e = Ok f"
    by (auto simp: assign_event_def result_laws)
  show ?thesis
  proof (cases "find_group (key_of scope f) t")
    case None
    with f assms show ?thesis
      by (intro founds [OF f None]) (auto simp: assign_event_def insert_if_absent_def Let_def
          add_membership_new with_release_def split: option.splits)
  next
    case (Some r)
    with f assms show ?thesis
      by (intro joins [OF f Some]) (auto simp: assign_event_def insert_if_absent_def lock_existing_def
          Let_def add_membership_new with_release_def split: option.splits)
  qed
qed

lemma with_release_simps [simp]:
  "groups (with_release rel gid at ev t) = groups t"
  "memberships (with_release rel gid at ev t) = memberships t"
  "outbox (with_release rel gid at ev t) = outbox t"
  "snapshots (with_release rel gid at ev t) = snapshots t"
  by (simp_all add: with_release_def split: option.splits)

text \<open>Adding a membership with its release occurrence keeps the release counts exact.\<close>

lemma release_counts_kept:
  assumes "releases.counted (group_releases t)"
    and "\<forall>rel gid. release_count rel gid t = release_members_of rel gid t + archived_release rel gid t"
    and "memberships t' = memberships t @ [m]" and "group_releases t' = group_releases t"
    and "snapshots t' = snapshots t"
  shows "\<forall>rel gid. release_count rel gid (with_release (m_release_id m) (m_group_id m) at ev t')
        = release_members_of rel gid (with_release (m_release_id m) (m_group_id m) at ev t')
          + archived_release rel gid (with_release (m_release_id m) (m_group_id m) at ev t')"
    and "releases.counted (group_releases (with_release (m_release_id m) (m_group_id m) at ev t'))"
proof -
  have t': "releases.counted (group_releases t')"
    "release_count rel gid t' = release_members_of rel gid t + archived_release rel gid t" for rel gid
    using assms by (simp_all add: release_count_def)
  then show "\<forall>rel gid. release_count rel gid (with_release (m_release_id m) (m_group_id m) at ev t')
        = release_members_of rel gid (with_release (m_release_id m) (m_group_id m) at ev t')
          + archived_release rel gid (with_release (m_release_id m) (m_group_id m) at ev t')"
    using assms(3)
    by (cases "m_release_id m") (auto simp: with_release_def record_release_count release_members_of_def
        archived_release_def assms(5))
  show "releases.counted (group_releases (with_release (m_release_id m) (m_group_id m) at ev t'))"
    using t'(1) by (cases "m_release_id m") (auto simp: with_release_def record_release_count(2))
qed

lemma first_seen_new:
  "gid \<notin> set_mset (announced t) \<Longrightarrow>
     insert_first_seen_from oid org proj gid src body t = t\<lparr>outbox := outbox t @ [\<lparr>ob_id = oid,
       ob_organization_id = org, ob_project_id = proj, ob_topic = FIRST_SEEN, ob_aggregate_id = gid,
       ob_schema_version = 1, ob_source = src, ob_payload = body, ob_processed_at = None\<rparr>]\<rparr>"
  by (auto simp: insert_first_seen_from_def announced_def)

lemma occurrence_of_simps [simp]:
  "g_id (occurrence_of at ev r) = g_id r" "g_key (occurrence_of at ev r) = g_key r"
  "g_occurrence_count (occurrence_of at ev r) = Suc (g_occurrence_count r)"
  by (simp_all add: occurrence_of_def)

lemma update_group_simps [simp]:
  "memberships (update_group gid f t) = memberships t" "outbox (update_group gid f t) = outbox t"
  "group_releases (update_group gid f t) = group_releases t"
  "snapshots (update_group gid f t) = snapshots t"
  by (simp_all add: update_group_def)

lemma map_update_group:
  "(\<And>r. h (f r) = h r) \<Longrightarrow> map h (groups (update_group gid f t)) = map h (groups t)"
  by (simp add: update_group_def)

lemma founds_ok:
  assumes ok: "groups_ok t" and cand: "cand \<notin> g_id ` set (groups t)" and none: "find_group k t = None"
    and raw: "(raw, m_version m) \<notin> (\<lambda>m. (m_event_id m, m_version m)) ` set (memberships t)"
    and row: "g_id row = cand" "g_key row = k" "g_occurrence_count row = 1"
      "g_first_seen_at row \<le> g_last_seen_at row"
    and m: "m_event_id m = raw" "m_group_id m = cand"
  shows "groups_ok (insert_first_seen_from oid org proj cand src body
    (with_release (m_release_id m) cand at raw
      (t\<lparr>groups := groups t @ [row], memberships := memberships t @ [m]\<rparr>)))"
proof -
  let ?t1 = "t\<lparr>groups := groups t @ [row], memberships := memberships t @ [m]\<rparr>"
  let ?t2 = "with_release (m_release_id m) cand at raw ?t1"
  have old: "members_ok t" "history_ok t" using ok by (simp_all add: groups_ok_def)
  have sub: "set_mset (announced t) \<subseteq> g_id ` set (groups t)"
    using ok by (auto simp: groups_ok_def dest!: mset_subset_eqD)
  with cand have "cand \<notin> set_mset (announced ?t2)" by (auto simp: announced_def)
  note t3 = first_seen_new [OF this, of oid org proj src body]
  have rel: "\<forall>rel gid. release_count rel gid ?t2 = release_members_of rel gid ?t2 + archived_release rel gid ?t2"
    "releases.counted (group_releases ?t2)"
    using release_counts_kept [of t ?t1 m at raw] ok m by (auto simp: groups_ok_def)
  have "members_of cand t = 0"
    using old(1) cand by (auto simp: members_ok_def members_of_def filter_empty_conv)
  with archived_none [OF old(2) cand] m
  have count: "occurrences gid ?t2 = (if gid = cand then 1 else occurrences gid t)" for gid
    by (auto simp: occurrences_def members_of_def archived_def)
  have "members_ok ?t2"
    using old(1) raw m cand none row by (auto simp: members_ok_def find_group_None)
  moreover have "history_ok ?t2" using old(2) by (auto simp: history_ok_def)
  moreover have "announced (?t2\<lparr>outbox := outbox ?t2 @ [\<lparr>ob_id = oid, ob_organization_id = org,
      ob_project_id = proj, ob_topic = FIRST_SEEN, ob_aggregate_id = cand, ob_schema_version = 1,
      ob_source = src, ob_payload = body, ob_processed_at = None\<rparr>]\<rparr>) \<subseteq># mset (map g_id (groups t @ [row]))"
    using ok row by (simp add: groups_ok_def announced_def)
  moreover have "\<forall>r \<in> set (groups t @ [row]). g_occurrence_count r = occurrences (g_id r) ?t2
      \<and> g_first_seen_at r \<le> g_last_seen_at r"
    using ok row cand by (auto simp: groups_ok_def count image_iff)
  ultimately show ?thesis using rel unfolding t3
    by (simp add: groups_ok_def members_ok_def history_ok_def occurrences_def members_of_def archived_def
        release_count_def release_members_of_def archived_release_def)
qed

lemma joins_ok:
  assumes ok: "groups_ok t" and some: "r \<in> set (groups t)"
    and raw: "(raw, m_version m) \<notin> (\<lambda>m. (m_event_id m, m_version m)) ` set (memberships t)"
    and m: "m_event_id m = raw" "m_group_id m = g_id r"
    and f: "\<And>r. g_id (f r) = g_id r" "\<And>r. g_key (f r) = g_key r"
      "\<And>r. g_occurrence_count (f r) = Suc (g_occurrence_count r)"
      "\<And>r. g_first_seen_at r \<le> g_last_seen_at r \<Longrightarrow> g_first_seen_at (f r) \<le> g_last_seen_at (f r)"
  shows "groups_ok (with_release (m_release_id m) (g_id r) at raw
    (update_group (g_id r) f (t\<lparr>memberships := memberships t @ [m]\<rparr>)))"
proof -
  let ?t0 = "t\<lparr>memberships := memberships t @ [m]\<rparr>"
  let ?t1 = "update_group (g_id r) f ?t0"
  let ?t2 = "with_release (m_release_id m) (g_id r) at raw ?t1"
  have old: "members_ok t" "history_ok t" using ok by (simp_all add: groups_ok_def)
  have rel: "\<forall>rel gid. release_count rel gid ?t2 = release_members_of rel gid ?t2 + archived_release rel gid ?t2"
    "releases.counted (group_releases ?t2)"
    using release_counts_kept [of t ?t1 m at raw] ok m by (auto simp: groups_ok_def)
  have count: "occurrences gid ?t2 = occurrences gid t + (if gid = g_id r then 1 else 0)" for gid
    using m by (auto simp: occurrences_def members_of_def archived_def)
  have ids: "map g_id (groups ?t1) = map g_id (groups t)" "map g_key (groups ?t1) = map g_key (groups t)"
    using f(1,2) by (simp_all add: update_group_def)
  then have idset: "g_id ` set (groups ?t1) = g_id ` set (groups t)" by (metis set_map)
  have "members_ok ?t2"
    using old(1) raw m some ids by (simp add: members_ok_def idset)
  moreover have "history_ok ?t2" using old(2) by (simp add: history_ok_def idset)
  moreover have "\<forall>x \<in> set (groups ?t1). g_occurrence_count x = occurrences (g_id x) ?t2
      \<and> g_first_seen_at x \<le> g_last_seen_at x"
    using ok f(1,3,4) unfolding count by (auto simp: groups_ok_def update_group_def)
  moreover have "announced ?t2 \<subseteq># mset (map g_id (groups ?t1))"
    using ok unfolding ids by (simp add: groups_ok_def announced_def)
  ultimately show ?thesis using rel by (simp add: groups_ok_def)
qed

lemma assign_event_ok:
  assumes "groups_ok t" and "assign_event S sha cand oid raw rel scope e src t = Ok (t', out)"
    and "raw \<notin> m_event_id ` set (memberships t)" and "cand \<notin> g_id ` set (groups t)"
  shows "groups_ok t'"
  using assms(2,3)
proof (cases rule: assign_event_cases)
  case (founds f)
  then show ?thesis
    using founds_ok [OF assms(1,4) founds(2), where raw = raw and m = "\<lparr>m_event_id = raw,
      m_version = unat (fp_version f), m_group_id = cand, m_release_id = rel\<rparr>"] assms(3) by (simp add: image_iff)
next
  case (joins f r)
  have "g_first_seen_at (occurrence_of at ev r) \<le> g_last_seen_at (occurrence_of at ev r)"
    if "g_first_seen_at r \<le> g_last_seen_at r" for r at ev using that by (simp add: occurrence_of_def min_le_iff_disj le_max_iff_disj)
  then show ?thesis
    using joins joins_ok [OF assms(1), where r = r and raw = raw and m = "\<lparr>m_event_id = raw,
      m_version = unat (fp_version f), m_group_id = g_id r, m_release_id = rel\<rparr>"
      and f = "occurrence_of (event_observed_at e) raw"] find_group_Some [OF joins(2)]
      assms(3) by (simp add: record_occurrence_def image_iff)
qed

text \<open>The step of a derived group: refresh or create it, announce it when new, add the membership.\<close>

definition derive_group ::
    "uuid \<Rightarrow> uuid \<Rightarrow> group_key \<Rightarrow> string \<Rightarrow> json \<Rightarrow> datetime \<Rightarrow> uuid \<Rightarrow> (uuid \<Rightarrow> json) \<Rightarrow> group_tables \<Rightarrow>
       group_tables \<times> uuid" where
  "derive_group cand oid k event_kind semantic observed_at ev body t =
     (let (t1, gid) = upsert_derived cand k event_kind semantic observed_at ev t;
          t2 = (if gid = cand
                then insert_first_seen_from oid (gk_organization_id k) (gk_project_id k) gid
                       (source_str Live) (body gid) t1
                else t1);
          (t3, added) = add_release_membership \<lparr>m_event_id = ev, m_version = gk_version k,
                          m_group_id = gid, m_release_id = None\<rparr> t2;
          t4 = (if added \<noteq> None \<and> gid \<noteq> cand then increment_occurrence gid t3 else t3)
      in (t4, gid))"

lemma derive_group_ok:
  assumes ok: "groups_ok t" and cand: "cand \<notin> g_id ` set (groups t)"
    and raw: "(ev, gk_version k) \<notin> (\<lambda>m. (m_event_id m, m_version m)) ` set (memberships t)"
  shows "groups_ok (fst (derive_group cand oid k event_kind semantic at ev body t))"
proof -
  define m where "m = \<lparr>m_event_id = ev, m_version = gk_version k, m_group_id = cand, m_release_id = None\<rparr>"
  have fresh: "add_release_membership m' t' = (t'\<lparr>memberships := memberships t @ [m']\<rparr>, Some ev)"
    if "memberships t' = memberships t" "m_event_id m' = ev" "m_version m' = gk_version k" for m' t'
    using raw that by (auto simp: add_release_membership_def image_iff)
  show ?thesis
  proof (cases "find_group k t")
    case None
    define row where "row = \<lparr>g_id = cand, g_key = k, g_event_kind = event_kind, g_semantic = semantic,
      g_first_seen_at = at, g_last_seen_at = at, g_occurrence_count = 1, g_representative = Some ev,
      g_first_seen_event = Some ev\<rparr>"
    have old: "cand \<notin> set_mset (announced t)"
      using ok cand by (auto simp: groups_ok_def dest!: mset_subset_eqD)
    then have "cand \<notin> set_mset (announced (t\<lparr>groups := groups t @ [row]\<rparr>))"
      by (simp add: announced_def)
    note first = first_seen_new [OF this]
    from old have "cand \<notin> set_mset (announced (t\<lparr>groups := groups t @ [row], memberships := memberships t @ [m]\<rparr>))"
      by (simp add: announced_def)
    note first' = first_seen_new [OF this]
    have new: "upsert_derived cand k event_kind semantic at ev t = (t\<lparr>groups := groups t @ [row]\<rparr>, cand)"
      using None by (simp add: upsert_derived_def insert_if_absent_def row_def)
    have "fst (derive_group cand oid k event_kind semantic at ev body t)
        = insert_first_seen_from oid (gk_organization_id k) (gk_project_id k) cand (source_str Live)
            (body cand) (with_release (m_release_id m) cand at ev
              (t\<lparr>groups := groups t @ [row], memberships := memberships t @ [m]\<rparr>))"
      by (simp add: derive_group_def new Let_def fresh first) (use first' in \<open>simp add: m_def with_release_def\<close>)
    moreover have "groups_ok (insert_first_seen_from oid (gk_organization_id k) (gk_project_id k) cand
        (source_str Live) (body cand) (with_release (m_release_id m) cand at ev
          (t\<lparr>groups := groups t @ [row], memberships := memberships t @ [m]\<rparr>)))"
      using raw by (intro founds_ok [OF ok cand None]) (simp_all add: row_def m_def)
    ultimately show ?thesis by simp
  next
    case (Some r)
    then have r: "r \<in> set (groups t)" using find_group_Some by blast
    with cand have "g_id r \<noteq> cand" by auto
    define m' where "m' = \<lparr>m_event_id = ev, m_version = gk_version k, m_group_id = g_id r, m_release_id = None\<rparr>"
    let ?f = "\<lambda>r. r\<lparr>g_semantic := semantic, g_last_seen_at := max (g_last_seen_at r) at,
      g_representative := Some ev, g_occurrence_count := g_occurrence_count r + 1\<rparr>"
    have "fst (derive_group cand oid k event_kind semantic at ev body t)
        = with_release (m_release_id m') (g_id r) at ev
            (update_group (g_id r) ?f (t\<lparr>memberships := memberships t @ [m']\<rparr>))"
      using Some \<open>g_id r \<noteq> cand\<close> by (simp add: derive_group_def upsert_derived_def Let_def fresh
          increment_occurrence_def) (simp add: m'_def with_release_def update_group_def)
    moreover have "groups_ok (with_release (m_release_id m') (g_id r) at ev
        (update_group (g_id r) ?f (t\<lparr>memberships := memberships t @ [m']\<rparr>)))"
      using raw by (intro joins_ok [OF ok r]) (auto simp: m'_def)
    ultimately show ?thesis by simp
  qed
qed

lemma update_group_ids:
  "(\<And>r. g_id (f r) = g_id r) \<Longrightarrow> g_id ` set (groups (update_group gid f t)) = g_id ` set (groups t)"
  using map_update_group [of g_id f gid t] by (metis list.set_map)

lemma derive_group_rows:
  assumes raw: "(ev, gk_version k) \<notin> (\<lambda>m. (m_event_id m, m_version m)) ` set (memberships t)"
  shows "\<exists>gid. memberships (fst (derive_group cand oid k event_kind semantic at ev body t))
      = memberships t @ [\<lparr>m_event_id = ev, m_version = gk_version k, m_group_id = gid, m_release_id = None\<rparr>]"
    and "g_id ` set (groups (fst (derive_group cand oid k event_kind semantic at ev body t)))
      \<subseteq> insert cand (g_id ` set (groups t))"
proof -
  have fresh: "add_release_membership m t' = (t'\<lparr>memberships := memberships t @ [m]\<rparr>, Some ev)"
    if "memberships t' = memberships t" "m_event_id m = ev" "m_version m = gk_version k" for m t'
    using raw that by (auto simp: add_release_membership_def image_iff)
  have first: "memberships (insert_first_seen_from o' g' p' i s b x) = memberships x"
    "groups (insert_first_seen_from o' g' p' i s b x) = groups x" for o' g' p' i s b x
    by (simp_all add: insert_first_seen_from_def)
  show "\<exists>gid. memberships (fst (derive_group cand oid k event_kind semantic at ev body t))
      = memberships t @ [\<lparr>m_event_id = ev, m_version = gk_version k, m_group_id = gid, m_release_id = None\<rparr>]"
    by (cases "find_group k t") (simp_all add: derive_group_def upsert_derived_def insert_if_absent_def Let_def
        fresh first increment_occurrence_def)
  show "g_id ` set (groups (fst (derive_group cand oid k event_kind semantic at ev body t)))
      \<subseteq> insert cand (g_id ` set (groups t))"
    by (cases "find_group k t") (simp_all add: derive_group_def upsert_derived_def insert_if_absent_def Let_def
        fresh first increment_occurrence_def update_group_ids subset_insertI)
qed

lemma assign_event_ids:
  assumes "assign_event S sha cand oid raw rel scope e src t = Ok (t', out)"
    and "raw \<notin> m_event_id ` set (memberships t)"
  shows "g_id ` set (groups t') \<subseteq> insert cand (g_id ` set (groups t))"
  using assms
proof (cases rule: assign_event_cases)
  case (founds f)
  then show ?thesis by (auto simp: insert_first_seen_from_def)
next
  case (joins f r)
  then show ?thesis by (simp add: record_occurrence_def update_group_ids subset_insertI)
qed

section \<open>An event joins exactly one group\<close>

lemma assign_event_defined:
  assumes "fingerprint_v1 S sha scope e = Ok f"
  shows "\<exists>t' out. assign_event S sha cand oid raw rel scope e src t = Ok (t', out)"
  using assms by (cases "find_group (key_of scope f) t")
    (auto simp: assign_event_def insert_if_absent_def lock_existing_def Let_def split: prod.splits)

text \<open>A second assignment of an event that is a member of its group changes nothing.\<close>

lemma assign_event_again:
  assumes "groups_ok t" and "fingerprint_v1 S sha scope e = Ok f"
    and "find_group (key_of scope f) t = Some r"
    and "\<lparr>m_event_id = raw, m_version = unat (fp_version f), m_group_id = g_id r, m_release_id = rel'\<rparr>
      \<in> set (memberships t)"
  shows "assign_event S sha cand oid raw rel scope e src t
    = Ok (t, \<lparr>go_group_id = g_id r, go_group_created = False, go_membership_created = False\<rparr>)"
proof -
  have "add_release_membership \<lparr>m_event_id = raw, m_version = unat (fp_version f),
      m_group_id = g_id r, m_release_id = rel\<rparr> t = (t, None)"
    using assms(4) by (force simp: add_release_membership_def)
  with assms(2,3) show ?thesis
    by (simp add: assign_event_def insert_if_absent_def lock_existing_def split: option.splits)
qed

definition sighting_counted :: "datetime \<Rightarrow> nat \<Rightarrow> group_row \<Rightarrow> bool" where
  "sighting_counted at before r \<longleftrightarrow>
     g_occurrence_count r = before + 1 \<and> g_first_seen_at r \<le> at \<and> at \<le> g_last_seen_at r"

lemma assign_event_effect:
  assumes "groups_ok t" and f: "fingerprint_v1 S sha scope e = Ok f"
    and a: "assign_event S sha cand oid raw rel scope e src t = Ok (t', out)"
    and "raw \<notin> m_event_id ` set (memberships t)" and "cand \<notin> g_id ` set (groups t)"
  obtains r where "find_group (key_of scope f) t' = Some r" "g_id r = go_group_id out"
    "sighting_counted (event_observed_at e) (occurrences (go_group_id out) t) r"
    "memberships t' = memberships t @ [\<lparr>m_event_id = raw, m_version = unat (fp_version f),
       m_group_id = go_group_id out, m_release_id = rel\<rparr>]"
    "go_group_created out = (find_group (key_of scope f) t = None)"
    "announced t' = announced t + (if go_group_created out then {#go_group_id out#} else {#})"
    "\<And>r. r \<in> set (groups t) \<Longrightarrow> g_id r \<noteq> go_group_id out \<Longrightarrow> r \<in> set (groups t')"
proof -
  have ok': "groups_ok t'" using assign_event_ok assms by blast
  show ?thesis
    using a assms(4)
  proof (cases rule: assign_event_cases)
    case (founds f')
    with f have [simp]: "f' = f" by simp
    have "members_of cand t = 0" "archived cand t = 0"
      using assms(1,5) archived_none by (auto simp: groups_ok_def members_ok_def members_of_def filter_empty_conv)
    then have "occurrences cand t = 0" by (simp add: occurrences_def)
    moreover have "cand \<notin> set_mset (announced t)"
      using assms(1,5) by (auto simp: groups_ok_def dest!: mset_subset_eqD)
    then have "announced t' = announced t + {#cand#}"
      using founds(4) by (auto simp: insert_first_seen_from_def announced_def)
    moreover define row where "row = \<lparr>g_id = cand, g_key = key_of scope f,
      g_event_kind = fp_event_kind f, g_semantic = fp_semantic f, g_first_seen_at = event_observed_at e,
      g_last_seen_at = event_observed_at e, g_occurrence_count = 1, g_representative = Some raw,
      g_first_seen_event = Some raw\<rparr>"
    moreover have gs: "groups t' = groups t @ [row]"
      using founds(4) by (simp add: insert_first_seen_from_def row_def)
    moreover have "find_group (g_key row) t' = Some row"
      using ok' gs by (intro find_group_key) (auto simp: groups_ok_def members_ok_def)
    ultimately show ?thesis
      using founds by (intro that [of row]) (auto simp: insert_first_seen_from_def sighting_counted_def)
  next
    case (joins f' r)
    with f have [simp]: "f' = f" by simp
    have r: "r \<in> set (groups t)" "g_key r = key_of scope f" using find_group_Some joins(2) by auto
    then have c: "g_occurrence_count r = occurrences (g_id r) t"
      "g_first_seen_at r \<le> g_last_seen_at r" using assms(1) by (auto simp: groups_ok_def)
    have in': "occurrence_of (event_observed_at e) raw r \<in> set (groups t')"
      using joins r by (auto simp: record_occurrence_def update_group_def)
    have "distinct (map g_key (groups t'))" using ok' by (simp add: groups_ok_def members_ok_def)
    from find_group_key [OF this in'] r
    have "find_group (key_of scope f) t' = Some (occurrence_of (event_observed_at e) raw r)" by simp
    then show ?thesis
      by (rule that) (use joins c in \<open>auto simp: sighting_counted_def occurrence_of_def
        record_occurrence_def update_group_def announced_def\<close>)
  qed
qed

text \<open>C13: whatever groups the database holds, an event whose fingerprint can be computed is
  assigned to the group with that fingerprint's key. The group is created exactly when there was
  none, its occurrence count grows by one and stays the number of its members and archived events,
  its window of sightings covers the event, the rows of the other groups stay as they are, a created
  group is announced and no other announcement is made, and assigning the same event again changes
  nothing.\<close>
theorem event_joins_one_group:
  assumes "groups_ok t" and "fingerprint_v1 S sha scope e = Ok f"
    and "raw \<notin> m_event_id ` set (memberships t)" and "cand \<notin> g_id ` set (groups t)"
  shows "\<exists>t' out r. assign_event S sha cand oid raw rel scope e src t = Ok (t', out) \<and> groups_ok t'
    \<and> find_group (key_of scope f) t' = Some r \<and> g_id r = go_group_id out
    \<and> sighting_counted (event_observed_at e) (occurrences (g_id r) t) r
    \<and> members_of (g_id r) t' = members_of (g_id r) t + 1
    \<and> go_group_created out = (find_group (key_of scope f) t = None)
    \<and> announced t' = announced t + (if go_group_created out then {#g_id r#} else {#})
    \<and> (\<forall>r' \<in> set (groups t). g_id r' \<noteq> g_id r \<longrightarrow> r' \<in> set (groups t'))
    \<and> assign_event S sha cand2 oid2 raw rel scope e src2 t'
        = Ok (t', \<lparr>go_group_id = g_id r, go_group_created = False, go_membership_created = False\<rparr>)"
proof -
  obtain t' out where a: "assign_event S sha cand oid raw rel scope e src t = Ok (t', out)"
    using assign_event_defined [OF assms(2)] by blast
  have ok': "groups_ok t'" using assign_event_ok [OF assms(1) a assms(3,4)] .
  obtain r where r: "find_group (key_of scope f) t' = Some r" "g_id r = go_group_id out"
    "sighting_counted (event_observed_at e) (occurrences (go_group_id out) t) r"
    "memberships t' = memberships t @ [\<lparr>m_event_id = raw, m_version = unat (fp_version f),
       m_group_id = go_group_id out, m_release_id = rel\<rparr>]"
    "go_group_created out = (find_group (key_of scope f) t = None)"
    "announced t' = announced t + (if go_group_created out then {#go_group_id out#} else {#})"
    "\<And>r. r \<in> set (groups t) \<Longrightarrow> g_id r \<noteq> go_group_id out \<Longrightarrow> r \<in> set (groups t')"
    using assign_event_effect [OF assms(1,2) a assms(3,4)] by blast
  have "assign_event S sha cand2 oid2 raw rel scope e src2 t'
      = Ok (t', \<lparr>go_group_id = g_id r, go_group_created = False, go_membership_created = False\<rparr>)"
    using assign_event_again [OF ok' assms(2) r(1), of raw rel] r(2,4) by simp
  with a ok' r show ?thesis by (auto simp: members_of_def)
qed

definition no_groups :: group_tables where
  "no_groups = \<lparr>groups = [], memberships = [], group_releases = [], outbox = [], snapshots = []\<rparr>"

lemma no_groups_ok: "groups_ok no_groups"
  by (simp add: no_groups_def groups_ok_def releases.counted_def announced_def release_count_def
      release_members_of_def members_ok_def history_ok_def archived_release_def)

theorem event_joins_one_group_witness:
  "\<exists>t' out. assign_event plain_serde id 5 6 9 None sample_scope listen_event Live no_groups = Ok (t', out)
     \<and> groups_ok t' \<and> go_group_created out"
proof -
  obtain fs j where "group_fields plain_serde sample_scope listen_event = Ok (fs, j)"
    by (simp add: group_fields_def sample_fingerprint_defs)
  then obtain f where "fingerprint_v1 plain_serde id sample_scope listen_event = Ok f"
    by (simp add: fingerprint_v1_def)
  from event_joins_one_group [OF no_groups_ok this, of 9 5 6 None Live 5 6 Live]
  show ?thesis by (auto simp: no_groups_def find_group_def)
qed

end
