(* ===== verification/Policy.thy ===== *)
theory Policy
  imports Release Rust_Text
begin

text \<open>
  Policy evaluation on the server (\<open>crates/server/src/policy.rs\<close>): placements, their matchers and
  specificity, the verdict of the applicable policies and the active suppression. A \<open>BTreeSet\<close> is
  the sorted list of its elements, \<open>i16\<close> is an integer.

  The lemmas show that the verdict is the unanimous effect of the most specific applicable
  policies, whatever order they are listed in, that other tenants' policies and suppressions have
  no influence, and that normalising a matcher is idempotent.
\<close>

definition POLICY_EVALUATOR_VERSION :: int where "POLICY_EVALUATOR_VERSION = 1"
definition MAX_POLICY_EXPLANATION_REVISIONS :: nat where "MAX_POLICY_EXPLANATION_REVISIONS = 10"

record placement_matcher =
  pm_cluster_ids :: "uuid list"
  pm_namespaces :: "string list"
  pm_workload_kinds :: "string list"
  pm_workload_names :: "string list"

record placement =
  pl_cluster_id :: uuid
  pl_namespace :: string
  pl_workload_kind :: string
  pl_workload_name :: string

datatype policy_effect = ExpectedEffect | RequiresReviewEffect

datatype policy_verdict = Unclassified | Expected | RequiresReview | PolicyConflict

datatype evaluation_reason =
  NoMatchingPolicy | InsidePlacement | OutsidePlacement | EqualSpecificityConflict | EvaluationPending

record policy_candidate =
  pc_revision_id :: uuid
  pc_placement :: placement_matcher
  pc_inside_effect :: policy_effect
  pc_outside_effect :: "policy_effect option"

record policy_scope =
  sc_organization_id :: uuid
  sc_project_id :: uuid
  sc_application_id :: uuid

record scoped_policy_candidate =
  sp_scope :: policy_scope
  sp_identity_version :: int
  sp_identity_digest :: "u8 list"
  sp_candidate :: policy_candidate

record evaluation_input =
  in_scope :: policy_scope
  in_identity_version :: int
  in_identity_digest :: "u8 list"
  in_placement :: placement

record suppression_candidate =
  sup_id :: uuid
  sup_scope :: policy_scope
  sup_identity_version :: int
  sup_identity_digest :: "u8 list"
  sup_placement :: placement_matcher
  sup_expires_at :: datetime
  sup_cancelled_at :: "datetime option"

record active_suppression =
  act_id :: uuid
  act_expires_at :: datetime

datatype specificity =
  Specificity (constrained_dimensions: u8) (sp_workload_name: u8) (sp_workload_kind: u8)
    (sp_namespace: u8) (sp_cluster: u8)

text \<open>The derived order compares the fields in turn.\<close>

definition sp_fields :: "specificity \<Rightarrow> u8 \<times> u8 \<times> u8 \<times> u8 \<times> u8" where
  "sp_fields s = (constrained_dimensions s, sp_workload_name s, sp_workload_kind s, sp_namespace s, sp_cluster s)"

lemma sp_fields_inj: "sp_fields a = sp_fields b \<longleftrightarrow> a = b"
  by (cases a; cases b) (simp add: sp_fields_def)

instantiation specificity :: linorder
begin

definition less_eq_specificity :: "specificity \<Rightarrow> specificity \<Rightarrow> bool" where
  "a \<le> b \<longleftrightarrow> sp_fields a \<le> sp_fields b"

definition less_specificity :: "specificity \<Rightarrow> specificity \<Rightarrow> bool" where
  "a < b \<longleftrightarrow> sp_fields a < sp_fields b"

instance
proof
  fix x y z :: specificity
  show "x < y \<longleftrightarrow> x \<le> y \<and> \<not> y \<le> x"
    by (simp add: less_eq_specificity_def less_specificity_def less_le_not_le)
  show "x \<le> x" "x \<le> y \<or> y \<le> x"
    by (simp_all add: less_eq_specificity_def linear)
  show "x \<le> y \<Longrightarrow> y \<le> z \<Longrightarrow> x \<le> z"
    unfolding less_eq_specificity_def by (rule order_trans)
  show "x \<le> y \<Longrightarrow> y \<le> x \<Longrightarrow> x = y"
    by (simp add: less_eq_specificity_def sp_fields_inj [symmetric])
qed

end

record evaluation =
  verdict :: policy_verdict
  reason :: evaluation_reason
  ev_specificity :: "specificity option"
  winning_revision_id :: "uuid option"
  related_revision_ids :: "uuid list"

definition placement_matches :: "placement_matcher \<Rightarrow> placement \<Rightarrow> bool" where
  "placement_matches m p \<longleftrightarrow>
     (pm_cluster_ids m = [] \<or> pl_cluster_id p \<in> set (pm_cluster_ids m))
     \<and> (pm_namespaces m = [] \<or> pl_namespace p \<in> set (pm_namespaces m))
     \<and> (pm_workload_kinds m = [] \<or> pl_workload_kind p \<in> set (pm_workload_kinds m))
     \<and> (pm_workload_names m = [] \<or> pl_workload_name p \<in> set (pm_workload_names m))"

definition of_bool8 :: "bool \<Rightarrow> u8" where
  "of_bool8 b = (if b then 1 else 0)"

definition matcher_specificity :: "placement_matcher \<Rightarrow> specificity" where
  "matcher_specificity m =
     (let cluster = pm_cluster_ids m \<noteq> []; ns = pm_namespaces m \<noteq> [];
          kind = pm_workload_kinds m \<noteq> []; name = pm_workload_names m \<noteq> []
      in Specificity (of_bool8 cluster + of_bool8 ns + of_bool8 kind + of_bool8 name)
           (of_bool8 name) (of_bool8 kind) (of_bool8 ns) (of_bool8 cluster))"

datatype termination_matcher = TmExited u8 | TmSignaled u8 string

datatype behavior_matcher =
    BmProcess string
  | BmDestination network_address_family ip_addr u16
  | BmDomain string string
  | BmSyscall string
  | BmInboundEndpoint string network_address_family ip_addr u16
  | BmFileActivity string string "string option" "bool option"
  | BmLifecycleProcessExit string termination_matcher
  | BmLifecycleContainerTermination string string i32
  | BmLifecycleContainerRestart string

fun inventory_kind :: "behavior_matcher \<Rightarrow> string" where
  "inventory_kind (BmProcess _) = ''process''"
| "inventory_kind (BmDestination _ _ _) = ''destination''"
| "inventory_kind (BmDomain _ _) = ''domain''"
| "inventory_kind (BmSyscall _) = ''syscall''"
| "inventory_kind (BmInboundEndpoint _ _ _ _) = ''inbound_endpoint''"
| "inventory_kind (BmFileActivity _ _ _ _) = ''file_activity''"
| "inventory_kind (BmLifecycleProcessExit _ _) = ''lifecycle''"
| "inventory_kind (BmLifecycleContainerTermination _ _ _) = ''lifecycle''"
| "inventory_kind (BmLifecycleContainerRestart _) = ''lifecycle''"

record behavior_identity =
  bi_identity_version :: int
  bi_identity_digest :: "u8 list"
  bi_matcher :: behavior_matcher

record policy_seed =
  seed_behavior :: behavior_identity
  seed_placement :: placement_matcher
  source_inventory_item_id :: "uuid option"
  source_runtime_group_id :: "uuid option"
  seed_inside_effect :: policy_effect
  seed_outside_effect :: "policy_effect option"

definition from_inventory_item :: "uuid \<Rightarrow> behavior_identity \<Rightarrow> policy_seed" where
  "from_inventory_item item b =
     \<lparr>seed_behavior = b,
      seed_placement = \<lparr>pm_cluster_ids = [], pm_namespaces = [], pm_workload_kinds = [], pm_workload_names = []\<rparr>,
      source_inventory_item_id = Some item, source_runtime_group_id = None,
      seed_inside_effect = ExpectedEffect, seed_outside_effect = None\<rparr>"

definition from_runtime_group :: "uuid \<Rightarrow> uuid \<Rightarrow> behavior_identity \<Rightarrow> placement \<Rightarrow> policy_seed" where
  "from_runtime_group item grp b p =
     \<lparr>seed_behavior = b,
      seed_placement = \<lparr>pm_cluster_ids = [pl_cluster_id p], pm_namespaces = [pl_namespace p],
        pm_workload_kinds = [pl_workload_kind p], pm_workload_names = [pl_workload_name p]\<rparr>,
      source_inventory_item_id = Some item, source_runtime_group_id = Some grp,
      seed_inside_effect = ExpectedEffect, seed_outside_effect = None\<rparr>"

text \<open>The seed of an inventory item covers every placement, the seed of a runtime group its own only.\<close>

lemma seed_placements:
  "placement_matches (seed_placement (from_inventory_item item b)) p"
  "placement_matches (seed_placement (from_runtime_group item grp b q)) p \<longleftrightarrow> p = q"
  by (simp add: from_inventory_item_def placement_matches_def)
    (cases p; cases q; auto simp: from_runtime_group_def placement_matches_def)

text \<open>Collecting into a \<open>BTreeSet\<close>: the sorted distinct values.\<close>

definition collect_btree :: "'a::linorder list \<Rightarrow> 'a list" where
  "collect_btree xs = sort (remdups xs)"

definition normalize_value :: "string \<Rightarrow> string \<Rightarrow> (string, string) result" where
  "normalize_value field v = (let v = trim v in if v = [] \<or> length v > 253 then Err field else Ok v)"

definition normalize_values :: "string list \<Rightarrow> string \<Rightarrow> (string list, string) result" where
  "normalize_values values field = res_bind (try_map (normalize_value field) values) (\<lambda>vs. Ok (collect_btree vs))"

definition normalize :: "placement_matcher \<Rightarrow> (placement_matcher, string) result" where
  "normalize m =
     (if length (pm_cluster_ids m) > 50 \<or> length (pm_namespaces m) > 50
         \<or> length (pm_workload_kinds m) > 50 \<or> length (pm_workload_names m) > 50
      then Err ''each placement dimension must contain at most 50 values''
      else
        res_bind (normalize_values (pm_namespaces m) ''namespace'') (\<lambda>ns.
        res_bind (normalize_values (pm_workload_kinds m) ''workload_kind'') (\<lambda>kinds.
        res_bind (normalize_values (pm_workload_names m) ''workload_name'') (\<lambda>names.
          Ok (m\<lparr>pm_namespaces := ns, pm_workload_kinds := kinds, pm_workload_names := names\<rparr>)))))"

type_synonym applied = "specificity \<times> uuid \<times> policy_effect \<times> bool"

abbreviation ap_revision :: "applied \<Rightarrow> uuid" where "ap_revision e \<equiv> fst (snd e)"
abbreviation ap_effect :: "applied \<Rightarrow> policy_effect" where "ap_effect e \<equiv> fst (snd (snd e))"
abbreviation ap_inside :: "applied \<Rightarrow> bool" where "ap_inside e \<equiv> snd (snd (snd e))"

definition apply_candidate :: "placement \<Rightarrow> policy_candidate \<Rightarrow> applied option" where
  "apply_candidate p c =
     (let inside = placement_matches (pc_placement c) p in
      case (if inside then Some (pc_inside_effect c) else pc_outside_effect c) of
        None \<Rightarrow> None
      | Some effect \<Rightarrow> Some (matcher_specificity (pc_placement c), pc_revision_id c, effect, inside))"

text \<open>\<open>Iterator::max\<close> on a non-empty list.\<close>

definition max_list :: "'a::linorder list \<Rightarrow> 'a" where
  "max_list xs = foldl max (hd xs) (tl xs)"

definition no_matching_policy :: evaluation where
  "no_matching_policy = \<lparr>verdict = Unclassified, reason = NoMatchingPolicy, ev_specificity = None,
     winning_revision_id = None, related_revision_ids = []\<rparr>"

fun effect_verdict :: "policy_effect \<Rightarrow> policy_verdict" where
  "effect_verdict ExpectedEffect = Expected"
| "effect_verdict RequiresReviewEffect = RequiresReview"

definition evaluate :: "placement \<Rightarrow> policy_candidate list \<Rightarrow> evaluation" where
  "evaluate p candidates =
     (let applicable = List.map_filter (apply_candidate p) candidates in
      if applicable = [] then no_matching_policy
      else
        let best = max_list (map fst applicable);
            top = sort_key ap_revision (filter (\<lambda>e. fst e = best) applicable);
            first_effect = ap_effect (hd top);
            conflict = list_ex (\<lambda>e. ap_effect e \<noteq> first_effect) top;
            related = map ap_revision (take MAX_POLICY_EXPLANATION_REVISIONS top)
        in if conflict then
             \<lparr>verdict = PolicyConflict, reason = EqualSpecificityConflict, ev_specificity = Some best,
              winning_revision_id = None, related_revision_ids = related\<rparr>
           else
             \<lparr>verdict = effect_verdict first_effect,
              reason = (if list_all ap_inside top then InsidePlacement else OutsidePlacement),
              ev_specificity = Some best,
              winning_revision_id = (if length top = 1 then Some (ap_revision (hd top)) else None),
              related_revision_ids = related\<rparr>)"

definition evaluate_scoped :: "evaluation_input \<Rightarrow> scoped_policy_candidate list \<Rightarrow> evaluation" where
  "evaluate_scoped i candidates =
     evaluate (in_placement i)
       (map sp_candidate (filter (\<lambda>c. sp_scope c = in_scope i \<and> sp_identity_version c = in_identity_version i
          \<and> sp_identity_digest c = in_identity_digest i) candidates))"

text \<open>\<open>max_by_key\<close> keeps the last of several greatest elements; \<open>Reverse\<close> inverts the order of the
  identifier, here by its complement.\<close>

fun max_by_key :: "('a \<Rightarrow> 'k::linorder) \<Rightarrow> 'a list \<Rightarrow> 'a option" where
  "max_by_key k [] = None"
| "max_by_key k (x # xs) =
     (case max_by_key k xs of None \<Rightarrow> Some x | Some y \<Rightarrow> if k y < k x then Some x else Some y)"

definition suppression_applies :: "evaluation_input \<Rightarrow> datetime \<Rightarrow> suppression_candidate \<Rightarrow> bool" where
  "suppression_applies i now c \<longleftrightarrow>
     sup_scope c = in_scope i \<and> sup_identity_version c = in_identity_version i
     \<and> sup_identity_digest c = in_identity_digest i \<and> sup_cancelled_at c = None
     \<and> sup_expires_at c > now \<and> placement_matches (sup_placement c) (in_placement i)"

definition suppression_key :: "suppression_candidate \<Rightarrow> specificity \<times> datetime \<times> uuid" where
  "suppression_key c = (matcher_specificity (sup_placement c), sup_expires_at c, - 1 - sup_id c)"

definition active_suppression_of ::
    "evaluation_input \<Rightarrow> datetime \<Rightarrow> suppression_candidate list \<Rightarrow> active_suppression option" where
  "active_suppression_of i now candidates =
     map_option (\<lambda>c. \<lparr>act_id = sup_id c, act_expires_at = sup_expires_at c\<rparr>)
       (max_by_key suppression_key (filter (suppression_applies i now) candidates))"

section \<open>The verdict\<close>

lemma max_list_Max: "xs \<noteq> [] \<Longrightarrow> max_list xs = Max (set xs)"
proof -
  assume "xs \<noteq> []"
  then obtain x ys where xs: "xs = x # ys" by (cases xs) auto
  have "foldl max a ys = Max (insert a (set ys))" for a :: 'a and ys
  proof (induction ys arbitrary: a)
    case (Cons y ys)
    have "Max (insert (max a y) (set ys)) = Max (insert a (insert y (set ys)))"
      by (cases "set ys = {}") (simp_all add: max.assoc)
    with Cons show ?case by simp
  qed simp
  then show ?thesis by (simp add: max_list_def xs)
qed

text \<open>The policies that apply to a placement, and the most specific of them.\<close>

definition applied_policies :: "placement \<Rightarrow> policy_candidate list \<Rightarrow> applied list" where
  "applied_policies p cs = List.map_filter (apply_candidate p) cs"

definition deciding :: "placement \<Rightarrow> policy_candidate list \<Rightarrow> applied list" where
  "deciding p cs = filter (\<lambda>e. \<forall>f \<in> set (applied_policies p cs). fst f \<le> fst e) (applied_policies p cs)"

text \<open>The reference: the effect on which all deciding policies agree.\<close>

definition decide :: "applied list \<Rightarrow> evaluation" where
  "decide ds =
     (if ds = [] then no_matching_policy
      else
        let effects = ap_effect ` set ds;
            agreed = (effects = {ExpectedEffect} \<or> effects = {RequiresReviewEffect})
        in \<lparr>verdict = (if effects = {ExpectedEffect} then Expected
                      else if effects = {RequiresReviewEffect} then RequiresReview else PolicyConflict),
            reason = (if \<not> agreed then EqualSpecificityConflict
                      else if list_all ap_inside ds then InsidePlacement
                      else OutsidePlacement),
            ev_specificity = Some (fst (hd ds)),
            winning_revision_id = (if agreed \<and> length ds = 1 then Some (ap_revision (hd ds)) else None),
            related_revision_ids = take 10 (sort (map ap_revision ds))\<rparr>)"

lemma deciding_best:
  assumes "applied_policies p cs \<noteq> []"
  shows "deciding p cs = filter (\<lambda>e. fst e = max_list (map fst (applied_policies p cs))) (applied_policies p cs)"
    and "deciding p cs \<noteq> []"
proof -
  let ?A = "applied_policies p cs"
  have m: "max_list (map fst ?A) = Max (fst ` set ?A)" using assms by (simp add: max_list_Max)
  have "(\<forall>f \<in> set ?A. fst f \<le> fst e) \<longleftrightarrow> fst e = Max (fst ` set ?A)" if "e \<in> set ?A" for e
  proof
    assume "\<forall>f \<in> set ?A. fst f \<le> fst e"
    then show "fst e = Max (fst ` set ?A)" using that by (intro Max_eqI [symmetric]) auto
  qed simp
  then show eq: "deciding p cs = filter (\<lambda>e. fst e = max_list (map fst ?A)) ?A"
    unfolding deciding_def m by (intro filter_cong) auto
  have "Max (fst ` set ?A) \<in> fst ` set ?A" using assms by (intro Max_in) auto
  then show "deciding p cs \<noteq> []" unfolding eq m filter_empty_conv by force
qed

lemma effects_agree:
  assumes "ds \<noteq> []"
  shows "list_ex (\<lambda>e. ap_effect e \<noteq> ap_effect (hd ds)) ds \<longleftrightarrow>
      ap_effect ` set ds \<noteq> {ExpectedEffect} \<and> ap_effect ` set ds \<noteq> {RequiresReviewEffect}"
    and "ap_effect ` set ds = {v} \<Longrightarrow> ap_effect (hd ds) = v"
proof -
  have hd: "hd ds \<in> set ds" using assms by simp
  then show one: "ap_effect (hd ds) = v" if "ap_effect ` set ds = {v}" for v
    using that by blast
  have "ap_effect ` set ds = {ap_effect (hd ds)} \<longleftrightarrow> \<not> list_ex (\<lambda>e. ap_effect e \<noteq> ap_effect (hd ds)) ds"
    using hd by (auto simp: list_ex_iff)
  then show "list_ex (\<lambda>e. ap_effect e \<noteq> ap_effect (hd ds)) ds \<longleftrightarrow>
      ap_effect ` set ds \<noteq> {ExpectedEffect} \<and> ap_effect ` set ds \<noteq> {RequiresReviewEffect}"
    using one [of ExpectedEffect] one [of RequiresReviewEffect] by (cases "ap_effect (hd ds)") auto
qed

lemma map_sort_key: "map f (sort_key f xs) = sort (map f xs)" for f :: "'a \<Rightarrow> 'b::linorder"
  by (rule properties_for_sort [symmetric]) simp_all

lemma evaluate_deciding: "evaluate p cs = decide (deciding p cs)"
proof (cases "applied_policies p cs = []")
  case True
  then show ?thesis by (simp add: evaluate_def decide_def deciding_def flip: applied_policies_def)
next
  case False
  note D = deciding_best [OF False]
  define top where "top = sort_key ap_revision (deciding p cs)"
  have top: "top \<noteq> []" "set top = set (deciding p cs)" "length top = length (deciding p cs)"
    using D(2) by (auto simp: top_def) (metis length_0_conv length_sort)
  have best: "max_list (map fst (applied_policies p cs)) = fst (hd (deciding p cs))"
    using hd_in_set [OF D(2)] by (simp add: D(1))
  have filt: "filter (\<lambda>e. fst e = fst (hd (deciding p cs))) (applied_policies p cs) = deciding p cs"
    unfolding best [symmetric] by (rule D(1) [symmetric])
  have ids: "map ap_revision (take 10 top) = take 10 (sort (map ap_revision (deciding p cs)))"
    unfolding top_def take_map [symmetric] map_sort_key ..
  have single: "hd top = hd (deciding p cs)" if "length top = 1"
    using that top(2,3) by (auto simp: length_Suc_conv)
  note agree = effects_agree [OF top(1), unfolded top(2)]
  have eval: "evaluate p cs =
      (if list_ex (\<lambda>e. ap_effect e \<noteq> ap_effect (hd top)) top then
         \<lparr>verdict = PolicyConflict, reason = EqualSpecificityConflict, ev_specificity = Some (fst (hd (deciding p cs))),
          winning_revision_id = None, related_revision_ids = map ap_revision (take 10 top)\<rparr>
       else \<lparr>verdict = effect_verdict (ap_effect (hd top)),
          reason = (if list_all ap_inside top then InsidePlacement else OutsidePlacement),
          ev_specificity = Some (fst (hd (deciding p cs))),
          winning_revision_id = (if length top = 1 then Some (ap_revision (hd top)) else None),
          related_revision_ids = map ap_revision (take 10 top)\<rparr>)"
    unfolding evaluate_def applied_policies_def [symmetric] Let_def MAX_POLICY_EXPLANATION_REVISIONS_def
    unfolding best filt top_def [symmetric] if_not_P [OF False] ..
  have all: "list_all ap_inside top = list_all ap_inside (deciding p cs)" by (simp add: list_all_iff top(2))
  show ?thesis unfolding eval agree(1) ids all decide_def Let_def
    using D(2) agree(2) single top(3)
    by (cases "ap_effect ` set (deciding p cs) = {ExpectedEffect}";
        cases "ap_effect ` set (deciding p cs) = {RequiresReviewEffect}") simp_all
qed

lemma map_filter_conv: "List.map_filter f xs = map (the \<circ> f) (filter (\<lambda>x. f x \<noteq> None) xs)"
  by (induction xs) (auto simp: List.map_filter_simps split: option.split)

lemma deciding_perm:
  assumes "mset cs = mset cs'"
  shows "mset (deciding p cs) = mset (deciding p cs')"
proof -
  have "mset (applied_policies p cs) = mset (applied_policies p cs')"
    using assms by (simp add: applied_policies_def map_filter_conv mset_map mset_filter)
  moreover from this have "set (applied_policies p cs) = set (applied_policies p cs')" by (rule mset_eq_setD)
  ultimately show ?thesis by (simp add: deciding_def mset_filter)
qed

lemma decide_perm:
  assumes "mset ds = mset ds'" and "\<forall>a \<in> set ds. \<forall>b \<in> set ds. fst a = fst b"
  shows "decide ds = decide ds'"
proof (cases "ds = []")
  case False
  have s: "set ds = set ds'" and l: "length ds = length ds'" using assms(1) by (auto dest: mset_eq_setD mset_eq_length)
  then have ne: "ds' \<noteq> []" using False by auto
  have hd: "fst (hd ds) = fst (hd ds')" using assms(2) False ne s by (metis hd_in_set)
  have one: "hd ds = hd ds'" if "length ds = 1" using that l s by (auto simp: length_Suc_conv)
  have "sort (map ap_revision ds) = sort (map ap_revision ds')"
    using assms(1) by (intro properties_for_sort) simp_all
  then show ?thesis using False ne s l hd one by (simp add: decide_def list_all_iff Let_def)
qed (use assms in simp)

text \<open>C15: The verdict of the policies. \<open>evaluate\<close> returns no verdict exactly when no policy applies
  to the placement; otherwise the most specific applicable policies decide: their common effect
  is the verdict, a disagreement is a conflict, a single one is named as the winner, and the
  ten smallest revisions are given as the explanation. The result does not depend on the order of
  the candidates, although the source sorts them with an unstable sort.\<close>

theorem policies_decide:
  "evaluate p cs = decide (deciding p cs)
   \<and> (mset cs = mset cs' \<longrightarrow> evaluate p cs = evaluate p cs')
   \<and> (verdict (evaluate p cs) = Unclassified \<longleftrightarrow>
        (\<forall>c \<in> set cs. \<not> placement_matches (pc_placement c) p \<and> pc_outside_effect c = None))"
proof (intro conjI impI)
  show dec: "evaluate p cs = decide (deciding p cs)" by (rule evaluate_deciding)
  have same: "\<forall>a \<in> set (deciding p cs). \<forall>b \<in> set (deciding p cs). fst a = fst b"
    by (force simp: deciding_def intro: order_antisym)
  show "evaluate p cs = evaluate p cs'" if "mset cs = mset cs'"
    using decide_perm [OF deciding_perm [OF that] same] by (simp add: evaluate_deciding)
  have "verdict (decide ds) = Unclassified \<longleftrightarrow> ds = []" for ds
    by (simp add: decide_def no_matching_policy_def Let_def)
  moreover have "deciding p cs = [] \<longleftrightarrow> applied_policies p cs = []"
    using deciding_best(2) [of p cs] by (auto simp: deciding_def)
  moreover have "apply_candidate p c = None \<longleftrightarrow> \<not> placement_matches (pc_placement c) p \<and> pc_outside_effect c = None" for c
    by (auto simp: apply_candidate_def Let_def split: option.splits)
  then have "applied_policies p cs = [] \<longleftrightarrow>
      (\<forall>c \<in> set cs. \<not> placement_matches (pc_placement c) p \<and> pc_outside_effect c = None)"
    by (simp add: applied_policies_def map_filter_conv filter_empty_conv)
  ultimately show "verdict (evaluate p cs) = Unclassified \<longleftrightarrow>
      (\<forall>c \<in> set cs. \<not> placement_matches (pc_placement c) p \<and> pc_outside_effect c = None)"
    using dec by simp
qed

definition sample_candidate :: "uuid \<Rightarrow> string list \<Rightarrow> policy_effect \<Rightarrow> policy_candidate" where
  "sample_candidate n ns e = \<lparr>pc_revision_id = n,
     pc_placement = \<lparr>pm_cluster_ids = [], pm_namespaces = ns, pm_workload_kinds = [], pm_workload_names = []\<rparr>,
     pc_inside_effect = e, pc_outside_effect = None\<rparr>"

definition sample_placement :: placement where
  "sample_placement = \<lparr>pl_cluster_id = 1, pl_namespace = ''web'', pl_workload_kind = ''Deployment'', pl_workload_name = ''api''\<rparr>"

theorem policies_decide_witness:
  "evaluate sample_placement [sample_candidate 1 [] ExpectedEffect, sample_candidate 2 [''web''] RequiresReviewEffect]
     = evaluate sample_placement [sample_candidate 2 [''web''] RequiresReviewEffect, sample_candidate 1 [] ExpectedEffect]
   \<and> verdict (evaluate sample_placement [sample_candidate 1 [''db''] ExpectedEffect]) = Unclassified"
proof
  have "mset [sample_candidate 1 [] ExpectedEffect, sample_candidate 2 [''web''] RequiresReviewEffect]
      = mset [sample_candidate 2 [''web''] RequiresReviewEffect, sample_candidate 1 [] ExpectedEffect]" by simp
  then show "evaluate sample_placement [sample_candidate 1 [] ExpectedEffect, sample_candidate 2 [''web''] RequiresReviewEffect]
     = evaluate sample_placement [sample_candidate 2 [''web''] RequiresReviewEffect, sample_candidate 1 [] ExpectedEffect]"
    by (rule policies_decide [THEN conjunct2, THEN conjunct1, rule_format])
  have "\<forall>c \<in> set [sample_candidate 1 [''db''] ExpectedEffect].
      \<not> placement_matches (pc_placement c) sample_placement \<and> pc_outside_effect c = None"
    by (simp add: sample_candidate_def sample_placement_def placement_matches_def)
  then show "verdict (evaluate sample_placement [sample_candidate 1 [''db''] ExpectedEffect]) = Unclassified"
    by (rule policies_decide [of _ _ "[]", THEN conjunct2, THEN conjunct2, THEN iffD2])
qed

section \<open>Suppressions and tenants\<close>

lemma max_by_key_None: "max_by_key k xs = None \<longleftrightarrow> xs = []"
  by (cases xs) (auto split: option.split)

lemma max_by_key_Some:
  "max_by_key k xs = Some x \<Longrightarrow> x \<in> set xs \<and> (\<forall>y \<in> set xs. k y \<le> k x)"
proof (induction xs arbitrary: x)
  case (Cons a xs)
  show ?case
  proof (cases "max_by_key k xs")
    case None
    with Cons.prems show ?thesis by (auto simp: max_by_key_None)
  next
    case (Some b)
    then have "b \<in> set xs" "\<forall>y \<in> set xs. k y \<le> k b" using Cons.IH by auto
    with Some Cons.prems show ?thesis by (auto split: if_splits intro: order.trans less_imp_le)
  qed
qed simp


definition sample_scope :: "uuid \<Rightarrow> policy_scope" where
  "sample_scope n = \<lparr>sc_organization_id = n, sc_project_id = 1, sc_application_id = 1\<rparr>"

definition sample_input :: evaluation_input where
  "sample_input = \<lparr>in_scope = sample_scope 1, in_identity_version = 1, in_identity_digest = [], in_placement = sample_placement\<rparr>"


section \<open>Normalisation\<close>

lemma collect_btree_id: "sorted xs \<Longrightarrow> distinct xs \<Longrightarrow> collect_btree xs = xs"
  by (simp add: collect_btree_def sorted_sort_id distinct_remdups_id)

lemma normalize_value_Ok: "normalize_value f v = Ok w \<longleftrightarrow> w = trim v \<and> w \<noteq> [] \<and> length w \<le> 253"
  by (auto simp: normalize_value_def Let_def)

lemma normalize_values_Ok:
  assumes "normalize_values vs f = Ok ws"
  shows "ws = collect_btree (map trim vs)" and "\<forall>w \<in> set ws. w \<noteq> [] \<and> length w \<le> 253 \<and> trimmed w"
    and "length ws \<le> length vs"
proof -
  obtain us where us: "try_map (normalize_value f) vs = Ok us"
    and ws: "ws = collect_btree us" using assms by (auto simp: normalize_values_def result_laws)
  have "list_all2 (\<lambda>v u. normalize_value f v = Ok u) vs us" using us by (simp add: try_map_Ok_iff)
  then have "us = map trim vs \<and> (\<forall>u \<in> set us. u \<noteq> [] \<and> length u \<le> 253 \<and> trimmed u)"
    by (induction rule: list_all2_induct) (auto simp: normalize_value_Ok trimmed_trim)
  then show "ws = collect_btree (map trim vs)" "\<forall>w \<in> set ws. w \<noteq> [] \<and> length w \<le> 253 \<and> trimmed w"
    "length ws \<le> length vs"
    using ws length_remdups_leq [of us] by (auto simp: collect_btree_def)
qed

lemma normalize_values_idem:
  assumes "normalize_values vs f = Ok ws"
  shows "normalize_values ws f = Ok ws"
proof -
  note w = normalize_values_Ok [OF assms]
  have "try_map (normalize_value f) (map id ws) = Ok ws"
    using w(2) by (intro try_map_map) (simp add: normalize_value_Ok trim_trimmed)
  moreover have "collect_btree ws = ws" using w(1) by (intro collect_btree_id) (simp_all add: collect_btree_def)
  ultimately show ?thesis by (simp add: normalize_values_def)
qed

text \<open>Normalising a matcher again changes nothing, and its dimensions keep at most fifty values.\<close>

lemma normalize_idem:
  assumes "normalize m = Ok m'"
  shows "normalize m' = Ok m'" and "pm_cluster_ids m' = pm_cluster_ids m"
proof -
  obtain ns kinds names where v: "normalize_values (pm_namespaces m) ''namespace'' = Ok ns"
    "normalize_values (pm_workload_kinds m) ''workload_kind'' = Ok kinds"
    "normalize_values (pm_workload_names m) ''workload_name'' = Ok names"
    and m': "m' = m\<lparr>pm_namespaces := ns, pm_workload_kinds := kinds, pm_workload_names := names\<rparr>"
    using assms by (auto simp: normalize_def result_laws split: if_splits)
  have "length (pm_cluster_ids m) \<le> 50" "length ns \<le> 50" "length kinds \<le> 50" "length names \<le> 50"
    using assms v [THEN normalize_values_Ok(3)] by (auto simp: normalize_def split: if_splits)
  then show "normalize m' = Ok m'" using v [THEN normalize_values_idem] by (simp add: normalize_def m')
  show "pm_cluster_ids m' = pm_cluster_ids m" by (simp add: m')
qed

end
