(* ===== verification/Process_Generations.thy ===== *)
theory Process_Generations
  imports Event_Payload
begin

text \<open>
  Process generations (\<open>crates/agent/src/process_runtime.rs\<close>): the agent numbers the processes
  it sees, remembers what they executed and gives that evidence to the exit event. The store is
  bounded: the oldest generation is evicted first. \<open>lru\<close> is the queue of allocations,
  \<open>evicted\<close> a set as a list without repetition whose order stands for the unspecified iteration
  order. A failing \<open>expect\<close> is the result \<open>None\<close> of \<open>consume_exit\<close>.

  The lemmas show that generations are fresh and the tables bounded, that an exit finds the
  evidence of its process unless as many other processes arrived as the store holds, and
  exactly when the exit handler panics.
\<close>

record gen_key =
  gk_cgroup :: u64
  gk_tgid :: u32

record exec_evidence =
  ee_event_id :: uuid
  ee_executable :: string

record process_generation =
  pg_identity :: process_generation_identity
  pg_observed_at_ns :: u64
  pg_exec :: "exec_evidence option"

record consumed_generation =
  cg_identity :: "process_generation_identity option"
  cg_correlation :: generation_correlation

record generation_store =
  gs_capacity :: nat
  gs_epoch :: uuid
  next_generation :: u64
  gs_entries :: "(gen_key \<times> process_generation) list"
  lru :: "(gen_key \<times> u64) list"
  gs_evicted :: "gen_key list"

definition generation_store_new :: "nat \<Rightarrow> uuid \<Rightarrow> generation_store" where
  "generation_store_new cap epoch =
     \<lparr>gs_capacity = cap, gs_epoch = epoch, next_generation = 1, gs_entries = [], lru = [], gs_evicted = []\<rparr>"

fun evict_loop ::
    "nat \<Rightarrow> (gen_key \<times> u64) list \<Rightarrow> (gen_key \<times> process_generation) list \<Rightarrow> gen_key list \<Rightarrow>
       (gen_key \<times> u64) list \<times> (gen_key \<times> process_generation) list \<times> gen_key list" where
  "evict_loop cap [] es ev = ([], es, ev)"
| "evict_loop cap ((k, g) # q) es ev =
     (if length es > cap then
        (case map_of es k of
           Some e \<Rightarrow> if generation (pg_identity e) = g
              then evict_loop cap q (AList.delete k es) (List.insert k ev)
              else evict_loop cap q es ev
         | None \<Rightarrow> evict_loop cap q es ev)
      else ((k, g) # q, es, ev))"

text \<open>The second loop removes arbitrary elements of the set until it fits.\<close>

definition trim_evicted :: "nat \<Rightarrow> gen_key list \<Rightarrow> gen_key list" where
  "trim_evicted cap ev = drop (length ev - max cap 1) ev"

definition enforce_capacity :: "generation_store \<Rightarrow> generation_store" where
  "enforce_capacity s =
     (case evict_loop (gs_capacity s) (lru s) (gs_entries s) (gs_evicted s) of
        (q, es, ev) \<Rightarrow> s\<lparr>lru := q, gs_entries := es, gs_evicted := trim_evicted (gs_capacity s) ev\<rparr>)"

definition allocate ::
    "gen_key \<Rightarrow> u64 \<Rightarrow> bool \<Rightarrow> generation_store \<Rightarrow> generation_store \<times> process_generation_identity" where
  "allocate k at started s =
     (let g = next_generation s;
          ident = \<lparr>generation = g, observation_epoch = gs_epoch s, start_observed = started\<rparr>
      in (enforce_capacity
            (s\<lparr>next_generation := max (saturating_add g 1) 1,
               gs_entries := AList.update k \<lparr>pg_identity = ident, pg_observed_at_ns = at, pg_exec = None\<rparr> (gs_entries s),
               gs_evicted := removeAll k (gs_evicted s),
               lru := lru s @ [(k, g)]\<rparr>),
          ident))"

definition observe_start :: "u64 \<Rightarrow> u32 \<Rightarrow> u64 \<Rightarrow> generation_store \<Rightarrow> generation_store \<times> process_generation_identity" where
  "observe_start cgroup p at s = allocate \<lparr>gk_cgroup = cgroup, gk_tgid = p\<rparr> at True s"

definition ensure_generation :: "u64 \<Rightarrow> u32 \<Rightarrow> u64 \<Rightarrow> generation_store \<Rightarrow> generation_store \<times> process_generation_identity" where
  "ensure_generation cgroup p at s =
     (let k = \<lparr>gk_cgroup = cgroup, gk_tgid = p\<rparr> in
      case map_of (gs_entries s) k of
        Some e \<Rightarrow> (s, pg_identity e)
      | None \<Rightarrow> allocate k at False s)"

definition observe_exec ::
    "u64 \<Rightarrow> u32 \<Rightarrow> u64 \<Rightarrow> uuid \<Rightarrow> string \<Rightarrow> generation_store \<Rightarrow> generation_store \<times> process_generation_identity" where
  "observe_exec cgroup p at event exe s0 =
     (let (s, ident) = ensure_generation cgroup p at s0; k = \<lparr>gk_cgroup = cgroup, gk_tgid = p\<rparr> in
      (s\<lparr>gs_entries := modify k (\<lambda>e. e\<lparr>pg_exec := Some \<lparr>ee_event_id = event, ee_executable = exe\<rparr>\<rparr>) (gs_entries s)\<rparr>,
       ident))"

definition unresolved :: "process_generation_identity option \<Rightarrow> unresolved_generation_reason \<Rightarrow> consumed_generation" where
  "unresolved i r = \<lparr>cg_identity = i, cg_correlation = Unresolved r\<rparr>"

definition consume_exit :: "u64 \<Rightarrow> u32 \<Rightarrow> u64 \<Rightarrow> generation_store \<Rightarrow> generation_store \<times> consumed_generation option" where
  "consume_exit cgroup p at s0 =
     (let k = \<lparr>gk_cgroup = cgroup, gk_tgid = p\<rparr> in
      if k \<in> set (gs_evicted s0) \<and> \<not> contains_key (gs_entries s0) k then (s0, Some (unresolved None Evicted))
      else
        let s = fst (ensure_generation cgroup p at s0) in
        case map_of (gs_entries s) k of
          None \<Rightarrow> (s, Some (unresolved None BeforeObservation))
        | Some e \<Rightarrow>
            if pg_observed_at_ns e > at then (s, Some (unresolved None GenerationMismatch))
            else
              let s' = s\<lparr>gs_entries := AList.delete k (gs_entries s)\<rparr> in
              case pg_exec e of
                None \<Rightarrow> (s', Some \<lparr>cg_identity = Some (pg_identity e), cg_correlation = Unresolved BeforeObservation\<rparr>)
              | Some x \<Rightarrow>
                  (case observed_generation (generation (pg_identity e)) (ee_event_id x) (ee_executable x) of
                     Ok c \<Rightarrow> (s', Some \<lparr>cg_identity = Some (pg_identity e), cg_correlation = c\<rparr>)
                   | Err _ \<Rightarrow> (s', None)))"

datatype gen_op =
    GStart u64 u32 u64
  | GEnsure u64 u32 u64
  | GExec u64 u32 u64 uuid string
  | GExit u64 u32 u64

datatype gen_out = GIdentity process_generation_identity | GConsumed "consumed_generation option"

fun gen_step :: "generation_store \<Rightarrow> gen_op \<Rightarrow> generation_store \<times> gen_out" where
  "gen_step s (GStart c p at) = map_prod id GIdentity (observe_start c p at s)"
| "gen_step s (GEnsure c p at) = map_prod id GIdentity (ensure_generation c p at s)"
| "gen_step s (GExec c p at i x) = map_prod id GIdentity (observe_exec c p at i x s)"
| "gen_step s (GExit c p at) = map_prod id GConsumed (consume_exit c p at s)"

fun gen_op_key :: "gen_op \<Rightarrow> gen_key" where
  "gen_op_key (GStart c p _) = \<lparr>gk_cgroup = c, gk_tgid = p\<rparr>"
| "gen_op_key (GEnsure c p _) = \<lparr>gk_cgroup = c, gk_tgid = p\<rparr>"
| "gen_op_key (GExec c p _ _ _) = \<lparr>gk_cgroup = c, gk_tgid = p\<rparr>"
| "gen_op_key (GExit c p _) = \<lparr>gk_cgroup = c, gk_tgid = p\<rparr>"

section \<open>Invariant\<close>

abbreviation gen_of :: "process_generation \<Rightarrow> nat" where
  "gen_of e \<equiv> unat (generation (pg_identity e))"

text \<open>
  After \<open>w\<close> operations: fewer than \<open>w + 2\<close> numbers are used, entries carry numbers in use and are
  queued, the queue is in the order of the numbers.
\<close>

definition gen_inv :: "nat \<Rightarrow> generation_store \<Rightarrow> bool" where
  "gen_inv w s \<longleftrightarrow>
     distinct (keys (gs_entries s)) \<and> length (gs_entries s) \<le> gs_capacity s
     \<and> length (gs_evicted s) \<le> max (gs_capacity s) 1
     \<and> 1 \<le> unat (next_generation s) \<and> unat (next_generation s) \<le> Suc w
     \<and> sorted_wrt (<) (map (unat \<circ> snd) (lru s))
     \<and> (\<forall>(k, g) \<in> set (lru s). unat g < unat (next_generation s))
     \<and> (\<forall>(k, e) \<in> set (gs_entries s). (k, generation (pg_identity e)) \<in> set (lru s)
          \<and> 1 \<le> gen_of e \<and> observation_epoch (pg_identity e) = gs_epoch s)"

lemma miss_queued:
  assumes "distinct (keys es)" "\<forall>(k', e) \<in> set es. (k', generation (pg_identity e)) \<in> set ((k, g) # q)"
    and "\<not> (\<exists>e. map_of es k = Some e \<and> generation (pg_identity e) = g)"
  shows "\<forall>(k', e) \<in> set es. (k', generation (pg_identity e)) \<in> set q"
proof -
  have "(k', generation (pg_identity e)) \<in> set q" if "(k', e) \<in> set es" for k' e
  proof -
    have "map_of es k' = Some e" using that assms(1) by simp
    then have "(k', generation (pg_identity e)) \<noteq> (k, g)" using assms(3) by auto
    with assms(2) that show ?thesis by auto
  qed
  then show ?thesis by blast
qed

lemma evict_loop_inv:
  assumes "evict_loop cap q es ev = (q', es', ev')" "distinct (keys es)"
    and "\<forall>(k, e) \<in> set es. (k, generation (pg_identity e)) \<in> set q"
  shows "distinct (keys es') \<and> length es' \<le> cap \<and> set es' \<subseteq> set es \<and> (\<exists>n. q' = drop n q)
    \<and> (\<forall>(k, e) \<in> set es'. (k, generation (pg_identity e)) \<in> set q')"
  using assms
proof (induction cap q es ev rule: evict_loop.induct)
  case (1 cap es ev)
  have "es = []"
  proof (rule ccontr)
    assume "es \<noteq> []"
    then obtain k e es0 where "es = (k, e) # es0" by (metis neq_Nil_conv surj_pair)
    with 1(3) show False by auto
  qed
  with 1 show ?case by simp
next
  case (2 cap k g q es ev)
  show ?case
  proof (cases "length es > cap")
    case False
    then have "q' = (k, g) # q" "es' = es" using "2.prems"(1) by auto
    moreover have "\<exists>n. (k, g) # q = drop n ((k, g) # q)" by (rule exI [of _ 0]) simp
    ultimately show ?thesis using False "2.prems"(2,3) by simp
  next
    case True
    have tail: "\<exists>n. q' = drop n ((k, g) # q)" if "\<exists>n. q' = drop n q"
      using that by (metis drop_Suc_Cons)
    show ?thesis
    proof (cases "\<exists>e. map_of es k = Some e \<and> generation (pg_identity e) = g")
      case hit: True
      then obtain e where e: "map_of es k = Some e" "generation (pg_identity e) = g" by blast
      have "\<forall>(k', e') \<in> set (AList.delete k es). (k', generation (pg_identity e')) \<in> set q"
        using "2.prems"(3) by (auto simp: delete_filter)
      with True e "2.prems" "2.IH"(2) [OF True e]
      have "distinct (keys es') \<and> length es' \<le> cap \<and> set es' \<subseteq> set (AList.delete k es) \<and> (\<exists>n. q' = drop n q)
        \<and> (\<forall>(k, e) \<in> set es'. (k, generation (pg_identity e)) \<in> set q')" by simp
      moreover have "set (AList.delete k es) \<subseteq> set es" by (auto simp: delete_filter)
      ultimately show ?thesis using tail by blast
    next
      case miss: False
      note left = miss_queued [OF "2.prems"(2,3) miss]
      show ?thesis
      proof (cases "map_of es k")
        case None
        then show ?thesis using True "2.prems"(1,2) "2.IH"(1) [OF True None _ _ left] tail by simp
      next
        case (Some e)
        moreover have "generation (pg_identity e) \<noteq> g" using Some miss by blast
        ultimately show ?thesis
          using True "2.prems"(1,2) "2.IH"(3) [OF True Some _ _ _ left] tail by simp
      qed
    qed
  qed
qed

lemma gen_inv_allocate:
  assumes "gen_inv w s" "Suc w \<le> 2 ^ 64 - 2"
  shows "gen_inv (Suc w) (fst (allocate k at st s))"
    and "snd (allocate k at st s) = \<lparr>generation = next_generation s, observation_epoch = gs_epoch s, start_observed = st\<rparr>"
proof -
  define ident where "ident = \<lparr>generation = next_generation s, observation_epoch = gs_epoch s, start_observed = st\<rparr>"
  define new where "new = \<lparr>pg_identity = ident, pg_observed_at_ns = at, pg_exec = None\<rparr>"
  define es where "es = AList.update k new (gs_entries s)"
  define q where "q = lru s @ [(k, next_generation s)]"
  define n where "n = max (saturating_add (next_generation s) 1) 1"
  obtain q' es' ev' where ev: "evict_loop (gs_capacity s) q es (removeAll k (gs_evicted s)) = (q', es', ev')"
    by (metis prod_cases3)
  have new: "generation (pg_identity new) = next_generation s" "observation_epoch (pg_identity new) = gs_epoch s"
    by (simp_all add: new_def ident_def)
  have n: "unat n = Suc (unat (next_generation s))"
    using assms by (simp add: n_def gen_inv_def max_def word_le_nat_alt unat_saturating_add)
  have mem: "e \<in> set (gs_entries s) \<or> e = (k, new)" if "e \<in> set es" for e
    using that set_update_subset unfolding es_def by fastforce
  have queued: "\<forall>(k', e) \<in> set es. (k', generation (pg_identity e)) \<in> set q \<and> 1 \<le> gen_of e
      \<and> observation_epoch (pg_identity e) = gs_epoch s"
    using mem assms(1) new by (fastforce simp: gen_inv_def q_def)
  have d: "distinct (keys es)" using assms(1) by (simp add: es_def gen_inv_def)
  have loop: "distinct (keys es')" "length es' \<le> gs_capacity s" "set es' \<subseteq> set es"
    "\<exists>m. q' = drop m q" "\<forall>(k, e) \<in> set es'. (k, generation (pg_identity e)) \<in> set q'"
    using evict_loop_inv [OF ev d] queued by auto
  obtain m where m: "q' = drop m q" using loop(4) by blast
  have sorted: "sorted_wrt (<) (map (unat \<circ> snd) q)" "\<forall>(k, g) \<in> set q. unat g < unat n"
    using assms(1) n by (force simp: gen_inv_def q_def sorted_wrt_append)+
  have "sorted_wrt (<) (map (unat \<circ> snd) q')" "\<forall>(k, g) \<in> set q'. unat g < unat n"
    using sorted by (auto simp: m drop_map [symmetric] sorted_wrt_drop dest: in_set_dropD)
  then show "gen_inv (Suc w) (fst (allocate k at st s))"
    using loop queued ev assms(1) n unfolding gen_inv_def
    by (auto simp: allocate_def enforce_capacity_def Let_def trim_evicted_def
        simp flip: ident_def new_def es_def q_def n_def)
  show "snd (allocate k at st s) = \<lparr>generation = next_generation s, observation_epoch = gs_epoch s, start_observed = st\<rparr>"
    by (simp add: allocate_def Let_def)
qed

section \<open>What the store keeps\<close>

text \<open>The processes numbered after an entry, and an entry that at most \<open>n\<close> of them can push out.\<close>

definition newer :: "process_generation \<Rightarrow> (gen_key \<times> process_generation) list \<Rightarrow> gen_key set" where
  "newer e es = {k. \<exists>e'. (k, e') \<in> set es \<and> gen_of e < gen_of e'}"

definition tracks :: "gen_key \<Rightarrow> process_generation \<Rightarrow> nat \<Rightarrow> generation_store \<Rightarrow> bool" where
  "tracks k e n s \<longleftrightarrow> map_of (gs_entries s) k = Some e \<and> card (newer e (gs_entries s)) \<le> n"

lemma finite_newer [simp, intro]: "finite (newer e es)"
  by (rule finite_subset [of _ "set (keys es)"]) (force simp: newer_def, simp)

lemma newer_mono: "set es' \<subseteq> set es \<Longrightarrow> card (newer e es') \<le> card (newer e es)"
  by (rule card_mono [OF finite_newer]) (auto simp: newer_def)

text \<open>At the front of the queue stands the oldest entry, all others are newer.\<close>

lemma oldest_length:
  assumes "distinct (keys es)" and "map_of es k = Some e"
    and queued: "\<forall>(k', e') \<in> set es. (k', generation (pg_identity e')) \<in> set ((k, generation (pg_identity e)) # q)"
    and sorted: "sorted_wrt (<) (map (unat \<circ> snd) ((k, generation (pg_identity e)) # q))"
  shows "length es \<le> Suc (card (newer e es))"
proof -
  have "set (keys es) \<subseteq> insert k (newer e es)"
  proof
    fix k' assume "k' \<in> set (keys es)"
    then obtain e' where e': "(k', e') \<in> set es" by auto
    with queued have "k' = k \<or> (k', generation (pg_identity e')) \<in> set q" by auto
    then show "k' \<in> insert k (newer e es)" using sorted e' by (auto simp: newer_def)
  qed
  then have "card (set (keys es)) \<le> card (insert k (newer e es))" by (intro card_mono) auto
  also have "\<dots> \<le> Suc (card (newer e es))" by (rule card_insert_le_m1) auto
  finally show ?thesis using distinct_card [OF assms(1)] by simp
qed

lemma evict_loop_keeps:
  assumes "evict_loop cap q es ev = (q', es', ev')" "distinct (keys es)"
    and "\<forall>(k, e) \<in> set es. (k, generation (pg_identity e)) \<in> set q"
    and "sorted_wrt (<) (map (unat \<circ> snd) q)" "map_of es k0 = Some e0" "Suc (card (newer e0 es)) \<le> cap"
  shows "map_of es' k0 = Some e0"
  using assms
proof (induction cap q es ev rule: evict_loop.induct)
  case (1 cap es ev)
  then show ?case by simp
next
  case (2 cap k g q es ev)
  show ?case
  proof (cases "length es > cap")
    case False
    then show ?thesis using "2.prems" by simp
  next
    case True
    have hit_other: "k \<noteq> k0" if "map_of es k = Some e" "generation (pg_identity e) = g" for e
    proof
      assume "k = k0"
      then have "e = e0" using that "2.prems"(5) by simp
      then have "length es \<le> Suc (card (newer e0 es))"
        using oldest_length [of es k0 e0 q] "2.prems"(2-5) that(2) \<open>k = k0\<close> by (simp add: comp_def)
      with True "2.prems"(6) show False by simp
    qed
    have s: "sorted_wrt (<) (map (unat \<circ> snd) q)" using "2.prems"(4) by (simp add: comp_def)
    show ?thesis
    proof (cases "\<exists>e. map_of es k = Some e \<and> generation (pg_identity e) = g")
      case hit: True
      then obtain e where e: "map_of es k = Some e" "generation (pg_identity e) = g" by blast
      have sub: "set (AList.delete k es) \<subseteq> set es" by (auto simp: delete_filter)
      have left: "\<forall>(k', e') \<in> set (AList.delete k es). (k', generation (pg_identity e')) \<in> set q"
        using "2.prems"(3) by (auto simp: delete_filter)
      have "Suc (card (newer e0 (AList.delete k es))) \<le> cap"
        using newer_mono [OF sub, of e0] "2.prems"(6) by simp
      then show ?thesis
        using "2.IH"(2) [OF True e _ _ left s] "2.prems"(1,2,5) True e hit_other [OF e]
        by (simp add: map_of_delete)
    next
      case miss: False
      note left = miss_queued [OF "2.prems"(2,3) miss]
      show ?thesis
      proof (cases "map_of es k")
        case None
        then show ?thesis using True "2.prems"(1,2,5,6) "2.IH"(1) [OF True None _ _ left s] by simp
      next
        case (Some e)
        moreover have "generation (pg_identity e) \<noteq> g" using Some miss by blast
        ultimately show ?thesis
          using True "2.prems"(1,2,5,6) "2.IH"(3) [OF True Some _ _ _ left s] by simp
      qed
    qed
  qed
qed

lemma allocate_keeps:
  assumes "gen_inv w s" "Suc w \<le> 2 ^ 64 - 2" "tracks k0 e0 n s" "k \<noteq> k0" "Suc n < gs_capacity s"
  shows "tracks k0 e0 (Suc n) (fst (allocate k at st s))"
proof -
  define new where "new = \<lparr>pg_identity = \<lparr>generation = next_generation s, observation_epoch = gs_epoch s,
    start_observed = st\<rparr>, pg_observed_at_ns = at, pg_exec = None\<rparr>"
  define es where "es = AList.update k new (gs_entries s)"
  define q where "q = lru s @ [(k, next_generation s)]"
  obtain q' es' ev' where ev: "evict_loop (gs_capacity s) q es (removeAll k (gs_evicted s)) = (q', es', ev')"
    by (metis prod_cases3)
  have mem: "e \<in> set (gs_entries s) \<or> e = (k, new)" if "e \<in> set es" for e
    using that set_update_subset unfolding es_def by fastforce
  have queued: "\<forall>(k', e) \<in> set es. (k', generation (pg_identity e)) \<in> set q"
    using mem assms(1) by (fastforce simp: gen_inv_def q_def new_def)
  have d: "distinct (keys es)" using assms(1) by (simp add: es_def gen_inv_def)
  have sorted: "sorted_wrt (<) (map (unat \<circ> snd) q)"
    using assms(1) by (force simp: gen_inv_def q_def sorted_wrt_append)
  have "newer e0 es \<subseteq> insert k (newer e0 (gs_entries s))" using mem by (auto simp: newer_def)
  then have "card (newer e0 es) \<le> card (insert k (newer e0 (gs_entries s)))" by (intro card_mono) auto
  also have "\<dots> \<le> Suc (card (newer e0 (gs_entries s)))" by (simp add: card_insert_if)
  finally have c: "card (newer e0 es) \<le> Suc n" using assms(3) by (simp add: tracks_def)
  have e0: "map_of es k0 = Some e0" using assms(3,4) by (simp add: es_def tracks_def)
  have "map_of es' k0 = Some e0" using evict_loop_keeps [OF ev d queued sorted e0] c assms(5) by simp
  moreover have "card (newer e0 es') \<le> Suc n"
    using evict_loop_inv [OF ev d queued] newer_mono [of es' es e0] c by simp
  ultimately show ?thesis
    using ev by (simp add: tracks_def allocate_def enforce_capacity_def Let_def flip: new_def es_def q_def)
qed

text \<open>One operation: the invariant, and an entry of another process stays.\<close>

lemma gen_inv_mono: "gen_inv w s \<Longrightarrow> w \<le> w' \<Longrightarrow> gen_inv w' s"
  by (auto simp: gen_inv_def)

lemma gen_inv_ensure:
  assumes "gen_inv w s" "Suc w \<le> 2 ^ 64 - 2"
  shows "gen_inv (Suc w) (fst (ensure_generation c p at s))"
  using gen_inv_allocate(1) [OF assms] gen_inv_mono [OF assms(1), of "Suc w"]
  by (simp add: ensure_generation_def Let_def split: option.split)

lemma gen_inv_modify_exec:
  assumes "gen_inv w s"
  shows "gen_inv w (s\<lparr>gs_entries := modify k (pg_exec_update (\<lambda>_. x)) (gs_entries s)\<rparr>)"
proof -
  have "\<exists>e. (k', e) \<in> set (gs_entries s) \<and> pg_identity e' = pg_identity e"
    if "(k', e') \<in> set (modify k (pg_exec_update (\<lambda>_. x)) (gs_entries s))" for k' e'
    using that by (auto simp: modify_def split: if_splits)
  with assms show ?thesis by (fastforce simp: gen_inv_def)
qed

lemma gen_inv_delete:
  assumes "gen_inv w s"
  shows "gen_inv w (s\<lparr>gs_entries := AList.delete k (gs_entries s)\<rparr>)"
proof -
  have "length (AList.delete k (gs_entries s)) \<le> length (gs_entries s)" by (rule AList.length_delete_le)
  moreover have "set (AList.delete k (gs_entries s)) \<subseteq> set (gs_entries s)" by (auto simp: delete_filter)
  ultimately show ?thesis using assms by (auto simp: gen_inv_def)
qed

lemma gen_inv_step:
  assumes "gen_inv w s" "Suc w \<le> 2 ^ 64 - 2"
  shows "gen_inv (Suc w) (fst (gen_step s x))"
proof (cases x)
  case (GStart c p at)
  then show ?thesis using gen_inv_allocate(1) [OF assms] by (simp add: observe_start_def)
next
  case (GEnsure c p at)
  then show ?thesis using gen_inv_ensure [OF assms] by simp
next
  case (GExec c p at i e)
  then show ?thesis using gen_inv_ensure [OF assms, of c p at] gen_inv_modify_exec
    by (simp add: observe_exec_def Let_def split: prod.split) (metis fst_conv)
next
  case (GExit c p at)
  then show ?thesis
    using gen_inv_ensure [OF assms, of c p at] gen_inv_mono [OF assms(1), of "Suc w"] gen_inv_delete
    by (simp add: consume_exit_def Let_def split: option.split result.split)
qed

lemma allocate_capacity [simp]: "gs_capacity (fst (allocate k at st s)) = gs_capacity s"
  by (simp add: allocate_def enforce_capacity_def Let_def split: prod.split)

lemma capacity_fixed [simp]: "gs_capacity (fst (gen_step s x)) = gs_capacity s"
  by (cases x)
    (simp_all add: observe_start_def ensure_generation_def observe_exec_def consume_exit_def allocate_def
      enforce_capacity_def Let_def split: option.split result.split prod.split)

lemma ensure_keeps:
  assumes "gen_inv w s" "Suc w \<le> 2 ^ 64 - 2" "tracks k0 e0 n s" "\<lparr>gk_cgroup = c, gk_tgid = p\<rparr> \<noteq> k0"
    "Suc n < gs_capacity s"
  shows "tracks k0 e0 (Suc n) (fst (ensure_generation c p at s))"
  using allocate_keeps [OF assms] assms(3)
  by (auto simp: ensure_generation_def Let_def tracks_def split: option.split)

lemma newer_modify: "newer e (modify k (pg_exec_update f) es) = newer e es"
  by (auto simp: newer_def modify_def split: if_splits)

lemma step_keeps:
  assumes "gen_inv w s" "Suc w \<le> 2 ^ 64 - 2" "tracks k0 e0 n s" "gen_op_key x \<noteq> k0" "Suc n < gs_capacity s"
  shows "tracks k0 e0 (Suc n) (fst (gen_step s x))"
proof (cases x)
  case (GStart c p at)
  then show ?thesis using allocate_keeps [OF assms(1-3)] assms(4,5) by (simp add: observe_start_def)
next
  case (GEnsure c p at)
  then show ?thesis using ensure_keeps [OF assms(1-3)] assms(4,5) by simp
next
  case (GExec c p at i e)
  then have "tracks k0 e0 (Suc n) (fst (ensure_generation c p at s))"
    using ensure_keeps [OF assms(1-3)] assms(4,5) by simp
  then show ?thesis using GExec assms(4)
    by (auto simp: observe_exec_def Let_def tracks_def map_of_modify newer_modify split: prod.split)
next
  case (GExit c p at)
  then have t: "tracks k0 e0 (Suc n) (fst (ensure_generation c p at s))"
    using ensure_keeps [OF assms(1-3)] assms(4,5) by simp
  have "card (newer e0 (AList.delete k es)) \<le> card (newer e0 es)" for k es
    by (rule newer_mono) (auto simp: delete_filter)
  then have "tracks k0 e0 (Suc n) (s'\<lparr>gs_entries := AList.delete k (gs_entries s')\<rparr>)"
    if "tracks k0 e0 (Suc n) s'" "k \<noteq> k0" for s' k
    using that by (auto simp: tracks_def intro: le_trans)
  with t GExit assms(3,4) show ?thesis
    by (auto simp: consume_exit_def Let_def split: option.split result.split) (auto simp: tracks_def)
qed

lemma run_keeps:
  assumes "gen_inv w s" "w + length ops \<le> 2 ^ 64 - 2" "tracks k e n s"
    and "list_all (\<lambda>x. gen_op_key x \<noteq> k) ops" "n + length ops < gs_capacity s"
  shows "gen_inv (w + length ops) (fst (run gen_step s ops))"
    and "tracks k e (n + length ops) (fst (run gen_step s ops))"
  using assms
proof (induction ops arbitrary: w n s)
  case (Cons x ops)
  { case 1
    with Cons.IH(1) [of "Suc w" "fst (gen_step s x)" "Suc n"] gen_inv_step [of w s x] step_keeps [of w s k e n x]
    show ?case by simp }
  { case 2
    with Cons.IH(2) [of "Suc w" "fst (gen_step s x)" "Suc n"] gen_inv_step [of w s x] step_keeps [of w s k e n x]
    show ?case by simp }
qed simp_all

lemma run_capacity: "gs_capacity (fst (run gen_step s ops)) = gs_capacity s"
  by (induction ops arbitrary: s) simp_all

lemma gen_inv_new: "gen_inv 0 (generation_store_new cap epoch)"
  by (simp add: gen_inv_def generation_store_new_def)

interpretation generations: metered gen_step "\<lambda>_. 1" "\<lambda>_. True" "2 ^ 64 - 2" gen_inv "\<lambda>_. True"
  by unfold_locales (simp_all add: gen_inv_step)

lemma run_gen_inv: "length ops \<le> 2 ^ 64 - 2 \<Longrightarrow> gen_inv (length ops) (fst (run gen_step (generation_store_new cap epoch) ops))"
  using generations.run_metered [OF gen_inv_new, of ops cap epoch]
  by (simp add: sum_list_triv list_all_iff)

lemma allocate_tracks_new:
  assumes "gen_inv w s" "Suc w \<le> 2 ^ 64 - 2" "0 < gs_capacity s"
  shows "tracks k \<lparr>pg_identity = snd (allocate k at st s), pg_observed_at_ns = at, pg_exec = None\<rparr> 0 (fst (allocate k at st s))"
proof -
  define new where "new = \<lparr>pg_identity = \<lparr>generation = next_generation s, observation_epoch = gs_epoch s,
    start_observed = st\<rparr>, pg_observed_at_ns = at, pg_exec = None\<rparr>"
  define es where "es = AList.update k new (gs_entries s)"
  define q where "q = lru s @ [(k, next_generation s)]"
  obtain q' es' ev' where ev: "evict_loop (gs_capacity s) q es (removeAll k (gs_evicted s)) = (q', es', ev')"
    by (metis prod_cases3)
  have mem: "e \<in> set (gs_entries s) \<or> e = (k, new)" if "e \<in> set es" for e
    using that set_update_subset unfolding es_def by fastforce
  have queued: "\<forall>(k', e) \<in> set es. (k', generation (pg_identity e)) \<in> set q"
    using mem assms(1) by (fastforce simp: gen_inv_def q_def new_def)
  have d: "distinct (keys es)" using assms(1) by (simp add: es_def gen_inv_def)
  have sorted: "sorted_wrt (<) (map (unat \<circ> snd) q)"
    using assms(1) by (force simp: gen_inv_def q_def sorted_wrt_append)
  have none: "newer new es = {}"
    using mem assms(1) by (fastforce simp: newer_def gen_inv_def new_def)
  have "map_of es k = Some new" by (simp add: es_def)
  then have "map_of es' k = Some new"
    using evict_loop_keeps [OF ev d queued sorted, of k new] none assms(3) by simp
  moreover have "card (newer new es') \<le> 0"
    using evict_loop_inv [OF ev d queued] newer_mono [of es' es new] none by simp
  moreover have "fst (allocate k at st s) = enforce_capacity
      (s\<lparr>next_generation := max (saturating_add (next_generation s) 1) 1, gs_entries := es,
         gs_evicted := removeAll k (gs_evicted s), lru := q\<rparr>)"
    by (simp add: allocate_def Let_def es_def q_def new_def)
  ultimately show ?thesis using ev gen_inv_allocate(2) [OF assms(1,2)]
    by (simp add: tracks_def enforce_capacity_def flip: new_def)
qed



text \<open>C33: The exit handler panics exactly on an invalid path. In every store the agent can reach,
  \<open>consume_exit\<close> fails its \<open>expect\<close> if and only if the exiting process is stored with an executed
  path that is empty, longer than 256 bytes or contains a zero byte.\<close>

theorem exit_panics_iff:
  assumes "length ops < 2 ^ 64 - 2" and "s = fst (run gen_step (generation_store_new cap epoch) ops)"
  shows "snd (consume_exit c p at s) = None \<longleftrightarrow>
    (\<exists>e x. map_of (gs_entries s) \<lparr>gk_cgroup = c, gk_tgid = p\<rparr> = Some e \<and> pg_observed_at_ns e \<le> at
       \<and> pg_exec e = Some x \<and> \<not> valid_text (ee_executable x))"
proof -
  let ?k = "\<lparr>gk_cgroup = c, gk_tgid = p\<rparr>"
  have inv: "gen_inv (length ops) s" using assms run_gen_inv by simp
  show ?thesis
  proof (cases "map_of (gs_entries s) ?k")
    case None
    show ?thesis
    proof (cases "map_of (gs_entries (fst (allocate ?k at False s))) ?k")
      case new: (Some e)
      then have "gs_entries (fst (allocate ?k at False s)) \<noteq> []" by auto
      then have "0 < length (gs_entries (fst (allocate ?k at False s)))" by simp
      also have "\<dots> \<le> gs_capacity s"
        using gen_inv_allocate(1) [OF inv, of ?k at False] assms(1) by (simp add: gen_inv_def)
      finally have "0 < gs_capacity s" .
      then have "tracks ?k \<lparr>pg_identity = snd (allocate ?k at False s), pg_observed_at_ns = at, pg_exec = None\<rparr> 0
          (fst (allocate ?k at False s))"
        using allocate_tracks_new [OF inv] assms(1) by simp
      then show ?thesis using None new
        by (auto simp: tracks_def consume_exit_def ensure_generation_def Let_def)
    qed (simp add: None consume_exit_def ensure_generation_def Let_def)
  next
    case (Some e)
    then have "(?k, e) \<in> set (gs_entries s)" by (rule map_of_SomeD)
    then have "generation (pg_identity e) \<noteq> 0" using inv by (force simp: gen_inv_def)
    then show ?thesis using Some
      by (auto simp: consume_exit_def ensure_generation_def contains_key_def observed_generation_def Let_def
          split: option.splits)
  qed
qed

lemma exit_panics_iff_witness:
  "snd (consume_exit 1 2 9 (fst (run gen_step (generation_store_new 1 3) [GExec 1 2 5 7 (replicate 257 (CHR ''a''))]))) = None"
proof -
  have "gs_entries (fst (run gen_step (generation_store_new 1 3) [GExec 1 2 5 7 x]))
    = [(\<lparr>gk_cgroup = 1, gk_tgid = 2\<rparr>, \<lparr>pg_identity = \<lparr>generation = 1, observation_epoch = 3, start_observed = False\<rparr>,
        pg_observed_at_ns = 5, pg_exec = Some \<lparr>ee_event_id = 7, ee_executable = x\<rparr>\<rparr>)]" for x
    by (simp add: generation_store_new_def observe_exec_def ensure_generation_def allocate_def enforce_capacity_def
        Let_def modify_def)
  then show ?thesis
    using exit_panics_iff [OF _ refl, of "[GExec 1 2 5 7 (replicate 257 (CHR ''a''))]" 1 2 9 1 3]
    by (simp add: valid_text_def MAX_TERMINATION_TEXT_BYTES_def)
qed

text \<open>The queue of allocations is not bounded by the capacity: starts and exits leave it growing.\<close>

lemma lru_grows:
  assumes "gs_entries s = []" "gs_capacity s \<noteq> 0" "gs_evicted s = []"
  shows "let s' = fst (gen_step (fst (gen_step s (GStart c p at))) (GExit c p at)) in
    length (lru s') = Suc (length (lru s)) \<and> gs_entries s' = [] \<and> gs_evicted s' = [] \<and> gs_capacity s' = gs_capacity s"
proof -
  have "evict_loop cap q [e] ev = (q, [e], ev)" if "cap \<noteq> 0" for cap q e ev
    using that by (cases q) auto
  with assms show ?thesis
    by (simp add: observe_start_def allocate_def enforce_capacity_def consume_exit_def ensure_generation_def
        trim_evicted_def Let_def)
qed

fun start_numbers :: "gen_op list \<Rightarrow> gen_out list \<Rightarrow> nat list" where
  "start_numbers (GStart _ _ _ # xs) (GIdentity i # rs) = unat (generation i) # start_numbers xs rs"
| "start_numbers (_ # xs) (_ # rs) = start_numbers xs rs"
| "start_numbers _ _ = []"

lemma next_generation_step:
  assumes "gen_inv w s" "Suc w \<le> 2 ^ 64 - 2"
  shows "next_generation s \<le> next_generation (fst (gen_step s x))"
    and "x = GStart c p at \<Longrightarrow> \<exists>i. snd (gen_step s x) = GIdentity i \<and> generation i = next_generation s
      \<and> unat (next_generation s) < unat (next_generation (fst (gen_step s x)))"
proof -
  have n: "next_generation (fst (allocate k at st s)) = max (saturating_add (next_generation s) 1) 1" for k at st
    by (simp add: allocate_def enforce_capacity_def Let_def split: prod.split)
  have grow: "unat (max (saturating_add (next_generation s) 1) 1) = Suc (unat (next_generation s))"
    using assms by (simp add: gen_inv_def max_def word_le_nat_alt unat_saturating_add)
  then have le: "next_generation s \<le> max (saturating_add (next_generation s) 1) 1" by (simp add: word_le_nat_alt)
  have "next_generation s \<le> next_generation (fst (ensure_generation c p at s))" for c p at
    using n le by (simp add: ensure_generation_def Let_def split: option.split)
  then show "next_generation s \<le> next_generation (fst (gen_step s x))"
    using n le by (cases x) (auto simp: observe_start_def observe_exec_def consume_exit_def Let_def
      split: option.split result.split prod.split, metis fst_conv)
  show "\<exists>i. snd (gen_step s x) = GIdentity i \<and> generation i = next_generation s
      \<and> unat (next_generation s) < unat (next_generation (fst (gen_step s x)))" if "x = GStart c p at"
    using that n grow gen_inv_allocate(2) [OF assms] by (simp add: observe_start_def)
qed

lemma start_numbers_run:
  assumes "gen_inv w s" "w + length ops \<le> 2 ^ 64 - 2"
  shows "sorted_wrt (<) (start_numbers ops (snd (run gen_step s ops)))
    \<and> (\<forall>n \<in> set (start_numbers ops (snd (run gen_step s ops))). unat (next_generation s) \<le> n)"
  using assms
proof (induction ops arbitrary: w s)
  case (Cons x ops)
  let ?s = "fst (gen_step s x)"
  have w: "Suc w \<le> 2 ^ 64 - 2" using Cons.prems(2) by simp
  have IH: "sorted_wrt (<) (start_numbers ops (snd (run gen_step ?s ops)))"
    "\<forall>n \<in> set (start_numbers ops (snd (run gen_step ?s ops))). unat (next_generation ?s) \<le> n"
    using Cons.IH [of "Suc w" ?s] gen_inv_step [OF Cons.prems(1) w] Cons.prems(2) by auto
  have le: "unat (next_generation s) \<le> unat (next_generation ?s)"
    using next_generation_step(1) [OF Cons.prems(1) w, of x] by (simp add: word_le_nat_alt)
  show ?case
  proof (cases "\<exists>c p at. x = GStart c p at")
    case True
    then obtain c p at i where x: "x = GStart c p at" and i: "snd (gen_step s x) = GIdentity i"
      "generation i = next_generation s" "unat (next_generation s) < unat (next_generation ?s)"
      using next_generation_step(2) [OF Cons.prems(1) w] by blast
    have "start_numbers (x # ops) (snd (run gen_step s (x # ops)))
        = unat (next_generation s) # start_numbers ops (snd (run gen_step ?s ops))"
      using i(1,2) by (simp add: x)
    with IH i(3) show ?thesis by fastforce
  next
    case False
    then have "start_numbers (x # ops) (snd (run gen_step s (x # ops))) = start_numbers ops (snd (run gen_step ?s ops))"
      by (cases x) simp_all
    with IH le show ?thesis by (auto intro: le_trans)
  qed
qed simp

text \<open>Process generations are fresh and their tables bounded. In every history of up to
  \<open>2^64 - 2\<close> operations the started processes get strictly increasing numbers, so no two share an
  identity even when their process identifier is reused. The store holds at most its capacity
  of processes and remembers at most that many, or one, evicted ones.\<close>

theorem generations_fresh_bounded:
  assumes "length ops \<le> 2 ^ 64 - 2"
  shows "sorted_wrt (<) (start_numbers ops (snd (run gen_step (generation_store_new cap epoch) ops)))
    \<and> length (gs_entries (fst (run gen_step (generation_store_new cap epoch) ops))) \<le> cap
    \<and> length (gs_evicted (fst (run gen_step (generation_store_new cap epoch) ops))) \<le> max cap 1"
  using run_gen_inv [OF assms, of cap epoch] start_numbers_run [OF gen_inv_new, of ops cap epoch] assms
    run_capacity [of "generation_store_new cap epoch" ops]
  by (simp add: gen_inv_def generation_store_new_def)

lemma generations_fresh_bounded_witness:
  "let r = run gen_step (generation_store_new 1 3) [GStart 1 2 5, GStart 1 2 6, GStart 1 4 7] in
     sorted_wrt (<) (start_numbers [GStart 1 2 5, GStart 1 2 6, GStart 1 4 7] (snd r))
     \<and> length (gs_entries (fst r)) \<le> 1 \<and> length (gs_evicted (fst r)) \<le> 1"
  using generations_fresh_bounded [of "[GStart 1 2 5, GStart 1 2 6, GStart 1 4 7]" 1 3]
  by (simp add: Let_def)

end
