(* ===== verification/Resource_Model.thy ===== *)
theory Resource_Model
  imports Release
begin

text \<open>
  Resource aggregates (\<open>crates/event-model/src/resource.rs\<close>): the data of one aggregation
  interval of a workload's container and its validation. Times are nanoseconds;
  \<open>num_seconds\<close> and \<open>num_microseconds\<close> truncate towards zero.
\<close>

definition RESOURCE_SCHEMA_VERSION :: u16 where "RESOURCE_SCHEMA_VERSION = 1"
definition MAX_RESOURCE_BATCH_AGGREGATES :: nat where "MAX_RESOURCE_BATCH_AGGREGATES = 256"
definition MAX_RESOURCE_INTERVAL_SECONDS :: int where "MAX_RESOURCE_INTERVAL_SECONDS = 300"

record resource_values =
  cpu_usage_usec :: "u64 option"
  cpu_nr_periods :: "u64 option"
  cpu_nr_throttled :: "u64 option"
  cpu_throttled_usec :: "u64 option"
  cpu_quota_usec :: "u64 option"
  cpu_period_usec :: "u64 option"
  memory_current_sum_bytes :: "u64 option"
  memory_current_min_bytes :: "u64 option"
  memory_current_max_bytes :: "u64 option"
  memory_anon_sum_bytes :: "u64 option"
  memory_file_sum_bytes :: "u64 option"
  memory_limit_bytes :: "u64 option"
  memory_high_events :: "u64 option"
  memory_max_events :: "u64 option"
  memory_oom_events :: "u64 option"
  memory_oom_kill_events :: "u64 option"
  cpu_psi_some_usec :: "u64 option"
  cpu_psi_full_usec :: "u64 option"
  memory_psi_some_usec :: "u64 option"
  memory_psi_full_usec :: "u64 option"
  io_psi_some_usec :: "u64 option"
  io_psi_full_usec :: "u64 option"
  io_read_bytes :: "u64 option"
  io_write_bytes :: "u64 option"
  io_read_operations :: "u64 option"
  io_write_operations :: "u64 option"
  pids_current_sum :: "u64 option"
  pids_current_max :: "u64 option"
  pids_limit :: "u64 option"
  pids_max_events :: "u64 option"

definition resource_values_default :: resource_values where
  "resource_values_default =
     \<lparr>cpu_usage_usec = None, cpu_nr_periods = None, cpu_nr_throttled = None, cpu_throttled_usec = None,
      cpu_quota_usec = None, cpu_period_usec = None, memory_current_sum_bytes = None,
      memory_current_min_bytes = None, memory_current_max_bytes = None, memory_anon_sum_bytes = None,
      memory_file_sum_bytes = None, memory_limit_bytes = None, memory_high_events = None,
      memory_max_events = None, memory_oom_events = None, memory_oom_kill_events = None,
      cpu_psi_some_usec = None, cpu_psi_full_usec = None, memory_psi_some_usec = None,
      memory_psi_full_usec = None, io_psi_some_usec = None, io_psi_full_usec = None,
      io_read_bytes = None, io_write_bytes = None, io_read_operations = None,
      io_write_operations = None, pids_current_sum = None, pids_current_max = None,
      pids_limit = None, pids_max_events = None\<rparr>"

record resource_aggregate =
  ra_id :: uuid
  ra_schema_version :: u16
  interval_start :: datetime
  interval_end :: datetime
  covered_usec :: u64
  sample_count :: u32
  contributing_containers :: u32
  ready_containers :: u32
  ra_namespace :: string
  ra_workload_uid :: string
  ra_workload_kind :: string
  ra_workload_name :: string
  ra_container_name :: string
  ra_node_name :: string
  ra_release_identity :: "release_identity option"
  unavailable_sources :: u64
  ra_values :: resource_values

datatype resource_validation_error =
  SchemaVersion | Interval | Coverage | Empty | Identity string | CpuLimit

definition validate_identity :: "string \<Rightarrow> string \<Rightarrow> nat \<Rightarrow> (unit, resource_validation_error) result" where
  "validate_identity field v limit =
     (if v = [] \<or> length v > limit \<or> has_control v then Err (Identity field) else Ok ())"

definition trunc_div :: "int \<Rightarrow> int \<Rightarrow> int" where
  "trunc_div a b = (if a < 0 then - ((- a) div b) else a div b)"

definition num_seconds :: "int \<Rightarrow> int" where
  "num_seconds d = trunc_div d 1000000000"

text \<open>\<open>num_microseconds\<close> is \<open>None\<close> when the value does not fit \<open>i64\<close>; \<open>u64::try_from\<close> refuses
  negative values.\<close>

definition interval_usec :: "int \<Rightarrow> u64" where
  "interval_usec d =
     (let us = trunc_div d 1000;
          us' = (if - (2 ^ 63) \<le> us \<and> us < 2 ^ 63 then us else 2 ^ 63 - 1)
      in if us' < 0 then - 1 else of_int us')"

definition validate_aggregate :: "resource_aggregate \<Rightarrow> (unit, resource_validation_error) result" where
  "validate_aggregate a =
     (if ra_schema_version a \<noteq> RESOURCE_SCHEMA_VERSION then Err SchemaVersion
      else
        let d = interval_end a - interval_start a in
        if num_seconds d \<le> 0 \<or> num_seconds d > MAX_RESOURCE_INTERVAL_SECONDS then Err Interval
        else if covered_usec a > saturating_mul (interval_usec d) (ucast (contributing_containers a))
        then Err Coverage
        else if sample_count a = 0 \<or> contributing_containers a = 0 then Err Empty
        else if ready_containers a > contributing_containers a then Err Coverage
        else
          res_bind (validate_identity ''namespace'' (ra_namespace a) 253) (\<lambda>_.
          res_bind (validate_identity ''workload_uid'' (ra_workload_uid a) 253) (\<lambda>_.
          res_bind (validate_identity ''workload_kind'' (ra_workload_kind a) 64) (\<lambda>_.
          res_bind (validate_identity ''workload_name'' (ra_workload_name a) 253) (\<lambda>_.
          res_bind (validate_identity ''container_name'' (ra_container_name a) 256) (\<lambda>_.
          res_bind (validate_identity ''node_name'' (ra_node_name a) 253) (\<lambda>_.
          if (cpu_quota_usec (ra_values a) \<noteq> None) \<noteq> (cpu_period_usec (ra_values a) \<noteq> None)
          then Err CpuLimit else Ok ())))))))"

section \<open>What validation guarantees\<close>

lemma interval_usec_small:
  assumes "1000000000 \<le> d" "d < 301000000000"
  shows "unat (interval_usec d) = nat (d div 1000)"
proof -
  have us: "0 \<le> d div 1000" "d div 1000 < 301000000" using assms by linarith+
  then have "interval_usec d = of_int (d div 1000)"
    using assms by (simp add: interval_usec_def trunc_div_def Let_def)
  also have "\<dots> = of_nat (nat (d div 1000))" using us(1) by simp
  finally have eq: "interval_usec d = of_nat (nat (d div 1000))" .
  have "nat (d div 1000) < 2 ^ LENGTH(64)" using us by simp
  then show ?thesis unfolding eq by (rule unat_of_nat_small)
qed

lemma num_seconds_range:
  "\<not> (num_seconds d \<le> 0 \<or> num_seconds d > 300) \<longleftrightarrow> 1000000000 \<le> d \<and> d < 301000000000"
  unfolding num_seconds_def trunc_div_def by (auto; linarith)

lemma validate_aggregate_Ok:
  assumes "validate_aggregate a = Ok ()"
  shows "1000000000 \<le> interval_end a - interval_start a"
    and "interval_end a - interval_start a < 301000000000"
    and "unat (covered_usec a) \<le> nat ((interval_end a - interval_start a) div 1000) * unat (contributing_containers a)"
    and "0 < unat (sample_count a)" "0 < unat (contributing_containers a)"
    and "unat (ready_containers a) \<le> unat (contributing_containers a)"
    and "cpu_quota_usec (ra_values a) = None \<longleftrightarrow> cpu_period_usec (ra_values a) = None"
proof -
  let ?d = "interval_end a - interval_start a"
  from assms have range: "\<not> (num_seconds ?d \<le> 0 \<or> num_seconds ?d > 300)"
    and cov: "covered_usec a \<le> saturating_mul (interval_usec ?d) (ucast (contributing_containers a))"
    and rest: "sample_count a \<noteq> 0" "contributing_containers a \<noteq> 0"
      "ready_containers a \<le> contributing_containers a"
      "cpu_quota_usec (ra_values a) = None \<longleftrightarrow> cpu_period_usec (ra_values a) = None"
    by (auto simp: validate_aggregate_def Let_def MAX_RESOURCE_INTERVAL_SECONDS_def result_laws
        split: if_splits)
  show d: "1000000000 \<le> ?d" "?d < 301000000000" using range unfolding num_seconds_range by auto
  have "unat (saturating_mul (interval_usec ?d) (ucast (contributing_containers a)))
      \<le> unat (interval_usec ?d) * unat (ucast (contributing_containers a) :: u64)"
    by (simp add: unat_saturating_mul)
  moreover have "unat (ucast (contributing_containers a) :: u64) = unat (contributing_containers a)"
    by (simp add: unat_ucast_up)
  ultimately show "unat (covered_usec a) \<le> nat (?d div 1000) * unat (contributing_containers a)"
    using cov interval_usec_small [OF d] by (simp add: word_le_nat_alt)
  show "0 < unat (sample_count a)" "0 < unat (contributing_containers a)"
    using rest by (simp_all add: unat_gt_0)
  show "unat (ready_containers a) \<le> unat (contributing_containers a)"
    using rest by (simp add: word_le_nat_alt)
  show "cpu_quota_usec (ra_values a) = None \<longleftrightarrow> cpu_period_usec (ra_values a) = None"
    by (rule rest)
qed

end
