(* ===== verification/Wire_Messages.thy ===== *)
theory Wire_Messages
  imports Event_Payload Resource_Model Rust_Text
begin

text \<open>
  The messages of the agent protocol (\<open>crates/protocol/proto/okoscope/v1/agent.proto\<close>) as the
  code generator renders them: a message is a record, a \<open>oneof\<close> a datatype, a sub-message, an
  \<open>optional\<close> field and a \<open>oneof\<close> are options, a \<open>repeated\<close> field is a list, \<open>bytes\<close> are a list of
  bytes, an enumeration is its \<open>i32\<close> number, an \<open>int64\<close> is a 64-bit word read with \<open>sint\<close>.

  \<open>wire_lib\<close> collects the functions of third-party crates that the conversions call: the text of a
  \<open>Uuid\<close>, the conversions of \<open>chrono\<close> between seconds or nanoseconds and a \<open>DateTime\<close>, and SHA-256.
  \<open>lib_ok\<close> states what their documentation promises. \<open>codec\<close> is the contract of a pair of
  conversions, interpreted by every message of the protocol.
\<close>

type_synonym i64 = "64 word"

record wire_lib =
  uuid_to_string :: "uuid \<Rightarrow> string"
  uuid_parse_str :: "string \<Rightarrow> uuid option"
  from_timestamp :: "int \<Rightarrow> u32 \<Rightarrow> datetime option"
  timestamp_nanos_opt :: "datetime \<Rightarrow> i64 option"
  sha256 :: "u8 list \<Rightarrow> u8 list"

definition in_i64 :: "int \<Rightarrow> bool" where
  "in_i64 t \<longleftrightarrow> - (2 ^ 63) \<le> t \<and> t < 2 ^ 63"

definition lib_ok :: "wire_lib \<Rightarrow> bool" where
  "lib_ok L \<longleftrightarrow>
     (\<forall>u. uuid_parse_str L (uuid_to_string L u) = Some u)
     \<and> (\<forall>s n. n < 1000000000 \<and> in_i64 (s * 1000000000 + uint n) \<longrightarrow>
          from_timestamp L s n = Some (s * 1000000000 + uint n))
     \<and> (\<forall>t. timestamp_nanos_opt L t = (if in_i64 t then Some (word_of_int t) else None))"

section \<open>Messages\<close>

record v1_container_image =
  v1_category :: i32
  v1_ci_name :: string
  v1_ci_digest :: "u8 list"
  v1_image :: "string option"

record v1_release_identity =
  v1_version :: u32
  v1_digest :: "u8 list"
  v1_containers :: "v1_container_image list"

record v1_workload_revision_evidence =
  v1_evidence_id :: string
  v1_we_observed_at :: i64
  v1_we_namespace :: string
  v1_we_workload_uid :: string
  v1_we_workload_kind :: string
  v1_we_workload_name :: string
  v1_replica_set_uid :: string
  v1_replica_set_name :: string
  v1_we_pod_uid :: string
  v1_pod_template_hash :: "string option"
  v1_we_release_identity :: "v1_release_identity option"
  v1_ready :: bool

record v1_revision_readiness_snapshot =
  v1_snapshot_id :: string
  v1_rs_observed_at :: i64
  v1_initialized :: bool
  v1_continuous :: bool
  v1_revision_digest :: "u8 list"
  v1_pod_count :: u32
  v1_ready_pod_count :: u32
  v1_workload_ready_pod_count :: u32

record v1_resource_values =
  v1_cpu_usage_usec :: "u64 option"
  v1_cpu_nr_periods :: "u64 option"
  v1_cpu_nr_throttled :: "u64 option"
  v1_cpu_throttled_usec :: "u64 option"
  v1_cpu_quota_usec :: "u64 option"
  v1_cpu_period_usec :: "u64 option"
  v1_memory_current_sum_bytes :: "u64 option"
  v1_memory_current_min_bytes :: "u64 option"
  v1_memory_current_max_bytes :: "u64 option"
  v1_memory_anon_sum_bytes :: "u64 option"
  v1_memory_file_sum_bytes :: "u64 option"
  v1_memory_limit_bytes :: "u64 option"
  v1_memory_high_events :: "u64 option"
  v1_memory_max_events :: "u64 option"
  v1_memory_oom_events :: "u64 option"
  v1_memory_oom_kill_events :: "u64 option"
  v1_cpu_psi_some_usec :: "u64 option"
  v1_cpu_psi_full_usec :: "u64 option"
  v1_memory_psi_some_usec :: "u64 option"
  v1_memory_psi_full_usec :: "u64 option"
  v1_io_psi_some_usec :: "u64 option"
  v1_io_psi_full_usec :: "u64 option"
  v1_io_read_bytes :: "u64 option"
  v1_io_write_bytes :: "u64 option"
  v1_io_read_operations :: "u64 option"
  v1_io_write_operations :: "u64 option"
  v1_pids_current_sum :: "u64 option"
  v1_pids_current_max :: "u64 option"
  v1_pids_limit :: "u64 option"
  v1_pids_max_events :: "u64 option"

record v1_resource_aggregate =
  v1_aggregate_id :: string
  v1_ra_schema_version :: u32
  v1_interval_start :: i64
  v1_interval_end :: i64
  v1_covered_usec :: u64
  v1_sample_count :: u32
  v1_contributing_containers :: u32
  v1_ra_namespace :: string
  v1_ra_workload_uid :: string
  v1_ra_workload_kind :: string
  v1_ra_workload_name :: string
  v1_ra_container_name :: string
  v1_ra_node_name :: string
  v1_ra_release_identity :: "v1_release_identity option"
  v1_unavailable_sources :: u64
  v1_values :: "v1_resource_values option"
  v1_ready_containers :: u32

record v1_generation =
  v1_generation_number :: u64
  v1_observation_epoch :: string
  v1_start_observed :: bool

record v1_process_start =
  v1_ps_generation :: "v1_generation option"
  v1_parent_pid :: u32
  v1_parent_tgid :: u32
  v1_ps_parent_command :: string

record v1_thread_name =
  v1_tn_name :: string
  v1_tn_created :: u64
  v1_tn_exited :: u64
  v1_tn_active :: u64

record v1_thread_window =
  v1_window_id :: string
  v1_tw_generation :: "v1_generation option"
  v1_window_started_at :: i64
  v1_window_ended_at :: i64
  v1_created :: u64
  v1_exited :: u64
  v1_active_at_start :: u64
  v1_active_at_end :: u64
  v1_peak_active :: u64
  v1_names :: "v1_thread_name list"
  v1_baseline_provenance :: i32
  v1_baseline_complete :: bool
  v1_name_overflow :: u64
  v1_gaps :: "i32 list"

record v1_process_exec =
  v1_executable :: string
  v1_parent_command :: string
  v1_exec_generation :: "v1_generation option"

datatype v1_termination =
    V1Exited (v1_status: u32)
  | V1Signaled (v1_signal: u32) (v1_signal_name: string) (v1_core_dump_flag: bool)

datatype v1_correlation =
    V1Observed (v1_cor_generation: u64) (v1_exec_event_id: string) (v1_cor_executable: string)
  | V1Unresolved (v1_reason: i32)

text \<open>\<open>GenerationCorrelation\<close> holds one \<open>oneof\<close>: a present message without it is \<open>Some None\<close>.\<close>

record v1_process_exit =
  v1_px_source :: i32
  v1_raw_wait_status :: i32
  v1_px_termination :: "v1_termination option"
  v1_correlation_of :: "v1_correlation option option"
  v1_classification :: i32
  v1_px_generation :: "v1_generation option"

record v1_container_termination =
  v1_ct_source :: i32
  v1_ct_container_id :: string
  v1_ct_reason :: string
  v1_exit_code :: i32
  v1_started_at :: "i64 option"
  v1_finished_at :: "i64 option"

record v1_container_restart =
  v1_cr_source :: i32
  v1_cr_container_id :: string
  v1_restart_count :: u32
  v1_restart_delta :: u32
  v1_observation_gap :: bool
  v1_previous_termination :: "v1_container_termination option"
  v1_waiting_reason :: "string option"

record v1_dns_context =
  v1_ctx_names :: "string list"
  v1_ctx_observed_at :: i64
  v1_ctx_expires_at :: i64
  v1_confidence :: i32
  v1_ambiguous :: bool

record v1_network_connect =
  v1_address_family :: i32
  v1_destination_address :: "u8 list"
  v1_destination_port :: u32
  v1_outcome :: i32
  v1_errno :: "u32 option"
  v1_dns_context_of :: "v1_dns_context option"

record v1_network_listen =
  v1_l_transport :: i32
  v1_l_family :: i32
  v1_l_address :: "u8 list"
  v1_l_port :: u32

record v1_network_accept =
  v1_a_transport :: i32
  v1_a_family :: i32
  v1_a_local_address :: "u8 list"
  v1_a_local_port :: u32
  v1_a_remote_address :: "u8 list"
  v1_a_remote_port :: u32

record v1_dns_query =
  v1_q_transaction_id :: u32
  v1_q_direction :: i32
  v1_q_transport :: i32
  v1_q_resolver :: "u8 list"
  v1_q_name :: string
  v1_q_type :: i32

record v1_dns_answer =
  v1_ans_name :: string
  v1_ans_address :: "u8 list"
  v1_ans_ttl :: u32

record v1_dns_cname =
  v1_alias :: string
  v1_canonical :: string
  v1_cn_ttl :: u32

record v1_dns_response =
  v1_r_transaction_id :: u32
  v1_r_direction :: i32
  v1_r_transport :: i32
  v1_r_resolver :: "u8 list"
  v1_r_name :: string
  v1_r_type :: i32
  v1_response_code :: i32
  v1_truncated :: bool
  v1_answers :: "v1_dns_answer list"
  v1_cname_chain :: "v1_dns_cname list"
  v1_effective_ttl :: "u32 option"

record v1_file_rename =
  v1_old_path :: string
  v1_new_path :: string
  v1_replaced :: "bool option"

datatype v1_payload =
    V1ProcessExec v1_process_exec
  | V1Syscall string
  | V1NetworkConnect v1_network_connect
  | V1NetworkDnsQuery v1_dns_query
  | V1NetworkDnsResponse v1_dns_response
  | V1NetworkListen v1_network_listen
  | V1NetworkAccept v1_network_accept
  | V1FileCreate string
  | V1FileModify string
  | V1FileDelete string
  | V1FileRename v1_file_rename
  | V1ProcessExit v1_process_exit
  | V1ContainerTermination v1_container_termination
  | V1ContainerRestart v1_container_restart
  | V1ProcessStart v1_process_start
  | V1ThreadActivityWindow v1_thread_window

record v1_attribution =
  v1_node_name :: string
  v1_namespace :: string
  v1_pod_uid :: string
  v1_pod_name :: string
  v1_container_id :: string
  v1_container_name :: string
  v1_workload_uid :: string
  v1_workload_kind :: string
  v1_workload_name :: string
  v1_release :: "string option"
  v1_release_identity_of :: "v1_release_identity option"

record v1_process_identity =
  v1_cgroup_id :: u64
  v1_pid :: u32
  v1_tgid :: u32
  v1_command :: string

record v1_runtime_event =
  v1_event_id :: string
  v1_observed_at :: i64
  v1_schema_version :: u32
  v1_attribution_of :: "v1_attribution option"
  v1_process :: "v1_process_identity option"
  v1_payload_of :: "v1_payload option"

section \<open>Errors\<close>

datatype protocol_error =
    UnsupportedProtocol u32
  | UnsupportedEventSchema u32
  | Missing string
  | InvalidUuid string string
  | InvalidTimestamp
  | InvalidNetwork string
  | InvalidDns string
  | InvalidFile string
  | InvalidTermination string
  | InvalidReleaseIdentity
  | InvalidResource string

section \<open>The contract of a pair of conversions\<close>

text \<open>\<open>transpose\<close> of an optional conversion.\<close>

fun opt_try :: "('m \<Rightarrow> ('a, 'e) result) \<Rightarrow> 'm option \<Rightarrow> ('a option, 'e) result" where
  "opt_try f None = Ok None"
| "opt_try f (Some m) = res_bind (f m) (\<lambda>x. Ok (Some x))"

lemma opt_try_Ok_iff [result_laws]:
  "opt_try f m = Ok x \<longleftrightarrow> (m = None \<and> x = None) \<or> (\<exists>y z. m = Some y \<and> x = Some z \<and> f y = Ok z)"
  by (cases m) (auto simp: res_bind_Ok_iff)

locale codec =
  fixes encode :: "'a \<Rightarrow> 'm" and decode :: "'m \<Rightarrow> ('a, 'e) result" and wf :: "'a \<Rightarrow> bool"
  assumes decode_encode: "wf x \<Longrightarrow> decode (encode x) = Ok x"
    and decode_wf: "decode m = Ok x \<Longrightarrow> wf x"
begin

lemma decode_stable: "decode m = Ok x \<Longrightarrow> decode (encode x) = Ok x"
  by (rule decode_encode) (rule decode_wf)

lemma encode_inj: "wf x \<Longrightarrow> wf y \<Longrightarrow> encode x = encode y \<Longrightarrow> x = y"
  by (metis decode_encode result.inject(1))

lemma decodes_iff: "(\<exists>m. decode m = Ok x) \<longleftrightarrow> wf x"
  using decode_encode decode_wf by blast

lemma option_roundtrip: "pred_option wf x \<Longrightarrow> opt_try decode (map_option encode x) = Ok x"
  by (cases x) (simp_all add: decode_encode)

lemma option_wf: "opt_try decode m = Ok x \<Longrightarrow> pred_option wf x"
  by (cases m) (auto simp: result_laws dest: decode_wf)

lemma list_roundtrip: "list_all wf xs \<Longrightarrow> try_map decode (map encode xs) = Ok xs"
  by (rule try_map_map) (simp add: list_all_iff decode_encode)

lemma list_wf: "try_map decode ms = Ok xs \<Longrightarrow> list_all wf xs"
proof (induction ms arbitrary: xs)
  case (Cons m ms)
  then show ?case by (auto simp: result_laws dest: decode_wf)
qed simp

end

end
