(* ===== verification/Protocol_Values.thy ===== *)
theory Protocol_Values
  imports Wire_Messages
begin

text \<open>
  The conversions of the parts of an event (\<open>crates/protocol/src/lib.rs\<close>): enumerations,
  identifiers, times, addresses, release identities, DNS, network, file, termination and thread
  payloads. Every \<open>encode\<close> and \<open>decode\<close> function of the source is a definition; each pair is a
  \<open>codec\<close>: what \<open>decode\<close> accepts is well formed, and a well-formed value survives the trip.
\<close>

unbundle bit_operations_syntax

section \<open>Enumerations\<close>

text \<open>The numbers are those of \<open>agent.proto\<close>; zero is the unspecified value.\<close>

fun encode_source :: "evidence_source \<Rightarrow> i32" where
  "encode_source Kernel = 1"
| "encode_source Kubernetes = 2"
| "encode_source Derived = 3"

definition decode_source :: "i32 \<Rightarrow> (evidence_source, protocol_error) result" where
  "decode_source v =
     (if v = 1 then Ok Kernel else if v = 2 then Ok Kubernetes else if v = 3 then Ok Derived
      else Err (InvalidTermination ''source''))"

fun encode_direction :: "dns_direction \<Rightarrow> i32" where
  "encode_direction Egress = 1"
| "encode_direction Ingress = 2"

definition decode_direction :: "i32 \<Rightarrow> (dns_direction, protocol_error) result" where
  "decode_direction v =
     (if v = 1 then Ok Egress else if v = 2 then Ok Ingress else Err (InvalidDns ''direction''))"

fun encode_transport :: "dns_transport \<Rightarrow> i32" where
  "encode_transport Udp = 1"
| "encode_transport Tcp = 2"

definition decode_transport :: "i32 \<Rightarrow> (dns_transport, protocol_error) result" where
  "decode_transport v =
     (if v = 1 then Ok Udp else if v = 2 then Ok Tcp else Err (InvalidDns ''transport''))"

fun encode_query_type :: "dns_query_type \<Rightarrow> i32" where
  "encode_query_type A = 1"
| "encode_query_type Aaaa = 2"

definition decode_query_type :: "i32 \<Rightarrow> (dns_query_type, protocol_error) result" where
  "decode_query_type v =
     (if v = 1 then Ok A else if v = 2 then Ok Aaaa else Err (InvalidDns ''query_type''))"

fun encode_response_code :: "dns_response_code \<Rightarrow> i32" where
  "encode_response_code NoError = 1"
| "encode_response_code FormErr = 2"
| "encode_response_code ServFail = 3"
| "encode_response_code NxDomain = 4"
| "encode_response_code NotImp = 5"
| "encode_response_code Refused = 6"

definition decode_response_code :: "i32 \<Rightarrow> (dns_response_code, protocol_error) result" where
  "decode_response_code v =
     (if v = 1 then Ok NoError else if v = 2 then Ok FormErr else if v = 3 then Ok ServFail
      else if v = 4 then Ok NxDomain else if v = 5 then Ok NotImp else if v = 6 then Ok Refused
      else Err (InvalidDns ''response_code''))"

fun encode_category :: "container_category \<Rightarrow> i32" where
  "encode_category Init = 1"
| "encode_category Application = 2"

definition decode_category :: "i32 \<Rightarrow> (container_category, protocol_error) result" where
  "decode_category v =
     (if v = 1 then Ok Init else if v = 2 then Ok Application else Err InvalidReleaseIdentity)"

fun encode_provenance :: "baseline_provenance \<Rightarrow> i32" where
  "encode_provenance Observed = 1"
| "encode_provenance Snapshot = 2"
| "encode_provenance Unavailable = 3"

definition decode_provenance :: "i32 \<Rightarrow> (baseline_provenance, protocol_error) result" where
  "decode_provenance v =
     (if v = 1 then Ok Observed else if v = 2 then Ok Snapshot else if v = 3 then Ok Unavailable
      else Err (InvalidTermination ''thread_window.baseline_provenance''))"

fun encode_gap :: "thread_gap_reason \<Rightarrow> i32" where
  "encode_gap KernelLoss = 1"
| "encode_gap DecodeFailure = 2"
| "encode_gap AttributionFailure = 3"
| "encode_gap StateCapacity = 4"
| "encode_gap SnapshotRace = 5"
| "encode_gap SnapshotPermission = 6"
| "encode_gap SnapshotTruncated = 7"
| "encode_gap DeliveryGap = 8"

definition decode_gap :: "i32 \<Rightarrow> (thread_gap_reason, protocol_error) result" where
  "decode_gap v =
     (if v = 1 then Ok KernelLoss else if v = 2 then Ok DecodeFailure
      else if v = 3 then Ok AttributionFailure else if v = 4 then Ok StateCapacity
      else if v = 5 then Ok SnapshotRace else if v = 6 then Ok SnapshotPermission
      else if v = 7 then Ok SnapshotTruncated else if v = 8 then Ok DeliveryGap
      else Err (InvalidTermination ''thread_window.gap''))"

fun encode_reason :: "unresolved_generation_reason \<Rightarrow> i32" where
  "encode_reason BeforeObservation = 1"
| "encode_reason Evicted = 2"
| "encode_reason GenerationMismatch = 3"
| "encode_reason ContainerLifetimeMismatch = 4"

definition decode_reason :: "i32 \<Rightarrow> (unresolved_generation_reason, protocol_error) result" where
  "decode_reason v =
     (if v = 1 then Ok BeforeObservation else if v = 2 then Ok Evicted
      else if v = 3 then Ok GenerationMismatch else if v = 4 then Ok ContainerLifetimeMismatch
      else Err (InvalidTermination ''generation_correlation.reason''))"

text \<open>Zero is a value of this enumeration.\<close>

fun encode_classification :: "process_exit_classification \<Rightarrow> i32" where
  "encode_classification LegacyUnclassified = 0"
| "encode_classification Leader = 1"

definition decode_classification :: "i32 \<Rightarrow> (process_exit_classification, protocol_error) result" where
  "decode_classification v =
     (if v = 0 then Ok LegacyUnclassified else if v = 1 then Ok Leader
      else Err (InvalidTermination ''process_exit.classification''))"

fun encode_outcome :: "network_connect_outcome \<Rightarrow> i32" where
  "encode_outcome Succeeded = 1"
| "encode_outcome InProgress = 2"
| "encode_outcome Failed = 3"

definition decode_outcome :: "i32 \<Rightarrow> (network_connect_outcome, protocol_error) result" where
  "decode_outcome v =
     (if v = 1 then Ok Succeeded else if v = 2 then Ok InProgress else if v = 3 then Ok Failed
      else Err (InvalidNetwork ''outcome''))"

lemmas decode_enum_defs =
  decode_source_def decode_direction_def decode_transport_def decode_query_type_def
  decode_response_code_def decode_category_def decode_provenance_def decode_gap_def
  decode_reason_def decode_classification_def decode_outcome_def

lemma enum_roundtrip [simp]:
  "decode_source (encode_source a) = Ok a" "decode_direction (encode_direction b) = Ok b"
  "decode_transport (encode_transport c) = Ok c" "decode_query_type (encode_query_type d) = Ok d"
  "decode_response_code (encode_response_code e) = Ok e" "decode_category (encode_category f) = Ok f"
  "decode_provenance (encode_provenance g) = Ok g" "decode_gap (encode_gap h) = Ok h"
  "decode_reason (encode_reason i) = Ok i" "decode_classification (encode_classification j) = Ok j"
  "decode_outcome (encode_outcome k) = Ok k"
  by ((cases a; simp add: decode_enum_defs),
      (cases b; simp add: decode_enum_defs),
      (cases c; simp add: decode_enum_defs),
      (cases d; simp add: decode_enum_defs),
      (cases e; simp add: decode_enum_defs),
      (cases f; simp add: decode_enum_defs),
      (cases g; simp add: decode_enum_defs),
      (cases h; simp add: decode_enum_defs),
      (cases i; simp add: decode_enum_defs),
      (cases j; simp add: decode_enum_defs),
      (cases k; simp add: decode_enum_defs))

section \<open>Numbers, identifiers and times\<close>

text \<open>\<open>u16::try_from\<close> and \<open>u8::try_from\<close> of an unsigned 32-bit number.\<close>

definition try_u16 :: "protocol_error \<Rightarrow> u32 \<Rightarrow> (u16, protocol_error) result" where
  "try_u16 e v = (if unat v < 2 ^ 16 then Ok (ucast v) else Err e)"

definition try_u8 :: "protocol_error \<Rightarrow> u32 \<Rightarrow> (u8, protocol_error) result" where
  "try_u8 e v = (if unat v < 2 ^ 8 then Ok (ucast v) else Err e)"

text \<open>The fixed-size arrays of the source.\<close>

definition try_array :: "protocol_error \<Rightarrow> nat \<Rightarrow> u8 list \<Rightarrow> (u8 list, protocol_error) result" where
  "try_array e n bs = (if length bs = n then Ok bs else Err e)"

definition parse_uuid :: "wire_lib \<Rightarrow> string \<Rightarrow> string \<Rightarrow> (uuid, protocol_error) result" where
  "parse_uuid L field v = ok_or (InvalidUuid field v) (uuid_parse_str L v)"

definition timestamp :: "wire_lib \<Rightarrow> i64 \<Rightarrow> (datetime, protocol_error) result" where
  "timestamp L v =
     (let r = sint v mod 1000000000 in
      if 0 \<le> r \<and> r < 2 ^ 32
      then ok_or InvalidTimestamp (from_timestamp L (sint v div 1000000000) (of_int r))
      else Err InvalidTimestamp)"

definition decode_optional_timestamp :: "wire_lib \<Rightarrow> i64 option \<Rightarrow> (datetime option, protocol_error) result" where
  "decode_optional_timestamp L v = opt_try (timestamp L) v"

text \<open>\<open>timestamp_nanos_opt().unwrap_or_default()\<close>.\<close>

definition encode_time :: "wire_lib \<Rightarrow> datetime \<Rightarrow> i64" where
  "encode_time L t = (case timestamp_nanos_opt L t of None \<Rightarrow> 0 | Some n \<Rightarrow> n)"

text \<open>The non-blank check of required text, and the bounded one.\<close>

definition require_text :: "string \<Rightarrow> string \<Rightarrow> (unit, protocol_error) result" where
  "require_text field v = (if trim v = [] then Err (Missing field) else Ok ())"

definition require_bounded :: "string \<Rightarrow> string \<Rightarrow> nat \<Rightarrow> (unit, protocol_error) result" where
  "require_bounded field v limit =
     (if v = [] \<or> length v > limit \<or> trim v \<noteq> v then Err (Missing field) else Ok ())"

definition validate_protocol :: "u32 \<Rightarrow> (unit, protocol_error) result" where
  "validate_protocol version =
     (if version = PROTOCOL_VERSION then Ok () else Err (UnsupportedProtocol version))"

lemma ucast_roundtrip:
  "try_u16 e (ucast (a :: u16)) = Ok a" "try_u8 e (ucast (b :: u8)) = Ok b"
proof -
  have "unat a < 2 ^ LENGTH(16)" "unat b < 2 ^ LENGTH(8)" by (rule unsigned_less)+
  then show "try_u16 e (ucast a) = Ok a" "try_u8 e (ucast b) = Ok b"
    by (simp_all add: try_u16_def try_u8_def unat_ucast_up ucast_up_ucast_id is_up)
qed

lemma uuid_roundtrip: "lib_ok L \<Longrightarrow> parse_uuid L f (uuid_to_string L u) = Ok u"
  by (simp add: parse_uuid_def lib_ok_def)

lemma timestamp_eq:
  assumes "lib_ok L"
  shows "timestamp L v = Ok (sint v)"
proof -
  let ?r = "sint v mod 1000000000"
  have r: "0 \<le> ?r" "?r < 1000000000" by simp_all
  then have u: "uint (of_int ?r :: u32) = ?r" by (simp add: uint_word_of_int)
  then have "(of_int ?r :: u32) < 1000000000" using r by (simp add: word_less_def)
  moreover have "sint v div 1000000000 * 1000000000 + ?r = sint v" by simp
  moreover have "in_i64 (sint v)"
    using sint_greater_eq [of v] sint_less [of v] by (simp add: in_i64_def)
  ultimately have "from_timestamp L (sint v div 1000000000) (of_int ?r) = Some (sint v)"
    using assms u unfolding lib_ok_def by (metis (no_types, lifting))
  moreover have "?r < 2 ^ 32" using r(2) by (rule order.strict_trans) simp
  ultimately show ?thesis using r(1) by (simp add: timestamp_def)
qed

lemma encode_time_roundtrip:
  assumes "lib_ok L" "in_i64 t"
  shows "sint (encode_time L t) = t"
  using assms by (simp add: lib_ok_def encode_time_def in_i64_def int_word_sint)

lemma sint_in_i64 [simp]: "in_i64 (sint (v :: i64))"
  using sint_greater_eq [of v] sint_less [of v] by (simp add: in_i64_def)

section \<open>Generations and releases\<close>

definition encode_generation :: "wire_lib \<Rightarrow> process_generation_identity \<Rightarrow> v1_generation" where
  "encode_generation L g =
     \<lparr>v1_generation_number = generation g, v1_observation_epoch = uuid_to_string L (observation_epoch g),
      v1_start_observed = start_observed g\<rparr>"

definition decode_generation :: "wire_lib \<Rightarrow> v1_generation \<Rightarrow> (process_generation_identity, protocol_error) result" where
  "decode_generation L g =
     res_bind (parse_uuid L ''observation_epoch'' (v1_observation_epoch g)) (\<lambda>epoch.
       let ident = \<lparr>generation = v1_generation_number g, observation_epoch = epoch,
                    start_observed = v1_start_observed g\<rparr>
       in res_bind (map_err (\<lambda>_. InvalidTermination ''process_generation'') (validate_generation ident)) (\<lambda>_.
            Ok ident))"

definition encode_container_image :: "container_image_identity \<Rightarrow> v1_container_image" where
  "encode_container_image c =
     \<lparr>v1_category = encode_category (ci_category c), v1_ci_name = ci_name c, v1_ci_digest = ci_digest c,
      v1_image = ci_image c\<rparr>"

definition decode_container_image :: "v1_container_image \<Rightarrow> (container_image_identity, protocol_error) result" where
  "decode_container_image c =
     res_bind (decode_category (v1_category c)) (\<lambda>cat.
     res_bind (try_array InvalidReleaseIdentity 32 (v1_ci_digest c)) (\<lambda>d.
       Ok (ContainerImage cat (v1_ci_name c) (v1_image c) d)))"

definition encode_release_identity :: "release_identity \<Rightarrow> v1_release_identity" where
  "encode_release_identity r =
     \<lparr>v1_version = ucast (ri_version r), v1_digest = ri_digest r,
      v1_containers = map encode_container_image (ri_containers r)\<rparr>"

definition decode_release_identity :: "wire_lib \<Rightarrow> v1_release_identity \<Rightarrow> (release_identity, protocol_error) result" where
  "decode_release_identity L r =
     res_bind (try_array InvalidReleaseIdentity 32 (v1_digest r)) (\<lambda>digest.
     res_bind (try_map decode_container_image (v1_containers r)) (\<lambda>containers.
     res_bind (try_u16 InvalidReleaseIdentity (v1_version r)) (\<lambda>version.
       let ident = \<lparr>ri_version = version, ri_digest = digest, ri_containers = containers\<rparr> in
       res_bind (map_err (\<lambda>_. InvalidReleaseIdentity) (validate_release (sha256 L) ident)) (\<lambda>_. Ok ident))))"

section \<open>Addresses\<close>

fun encode_ip :: "ip_addr \<Rightarrow> u8 list" where
  "encode_ip (V4 a) = to_be_bytes 4 a"
| "encode_ip (V6 a) = to_be_bytes 16 a"

definition decode_ip :: "u8 list \<Rightarrow> (ip_addr, protocol_error) result" where
  "decode_ip bs =
     (if length bs = 4 then Ok (V4 (from_be_bytes bs))
      else if length bs = 16 then Ok (V6 (from_be_bytes bs))
      else Err (InvalidDns ''address''))"

fun encode_network_ip :: "ip_addr \<Rightarrow> i32 \<times> u8 list" where
  "encode_network_ip (V4 a) = (1, to_be_bytes 4 a)"
| "encode_network_ip (V6 a) = (2, to_be_bytes 16 a)"

definition decode_network_ip ::
    "i32 \<Rightarrow> u8 list \<Rightarrow> string \<Rightarrow> (network_address_family \<times> ip_addr, protocol_error) result" where
  "decode_network_ip family address field =
     (if family = 1 then
        res_bind (try_array (InvalidNetwork field) 4 address) (\<lambda>bs. Ok (Ipv4, V4 (from_be_bytes bs)))
      else if family = 2 then
        res_bind (try_array (InvalidNetwork field) 16 address) (\<lambda>bs. Ok (Ipv6, V6 (from_be_bytes bs)))
      else Err (InvalidNetwork ''address_family''))"

definition require_tcp :: "i32 \<Rightarrow> (unit, protocol_error) result" where
  "require_tcp v = (if v = 1 then Ok () else Err (InvalidNetwork ''transport''))"

section \<open>DNS\<close>

definition decode_dns_name :: "string \<Rightarrow> string \<Rightarrow> (dns_name, protocol_error) result" where
  "decode_dns_name field v = map_err (\<lambda>_. InvalidDns field) (dns_name_new v)"

definition encode_dns_query :: "network_dns_query \<Rightarrow> v1_dns_query" where
  "encode_dns_query q =
     \<lparr>v1_q_transaction_id = ucast (q_transaction_id q), v1_q_direction = encode_direction (q_direction q),
      v1_q_transport = encode_transport (q_transport q), v1_q_resolver = encode_ip (q_resolver q),
      v1_q_name = dns_str (q_name q), v1_q_type = encode_query_type (q_type q)\<rparr>"

definition decode_dns_query :: "v1_dns_query \<Rightarrow> (event_payload, protocol_error) result" where
  "decode_dns_query q =
     res_bind (try_u16 (InvalidDns ''transaction_id'') (v1_q_transaction_id q)) (\<lambda>tid.
     res_bind (decode_direction (v1_q_direction q)) (\<lambda>dir.
     res_bind (decode_transport (v1_q_transport q)) (\<lambda>tr.
     res_bind (decode_ip (v1_q_resolver q)) (\<lambda>res.
     res_bind (decode_dns_name ''name'' (v1_q_name q)) (\<lambda>name.
     res_bind (decode_query_type (v1_q_type q)) (\<lambda>ty.
       Ok (NetworkDnsQuery \<lparr>q_transaction_id = tid, q_direction = dir, q_transport = tr, q_resolver = res,
         q_name = name, q_type = ty\<rparr>)))))))"

definition encode_dns_answer :: "dns_address_answer \<Rightarrow> v1_dns_answer" where
  "encode_dns_answer a =
     \<lparr>v1_ans_name = dns_str (ans_name a), v1_ans_address = encode_ip (ans_address a), v1_ans_ttl = ans_ttl a\<rparr>"

definition decode_dns_answer :: "v1_dns_answer \<Rightarrow> (dns_address_answer, protocol_error) result" where
  "decode_dns_answer a =
     res_bind (decode_dns_name ''answer.name'' (v1_ans_name a)) (\<lambda>name.
     res_bind (decode_ip (v1_ans_address a)) (\<lambda>address.
       map_err (\<lambda>_. InvalidDns ''answer.ttl'') (dns_address_answer_new name address (v1_ans_ttl a))))"

definition encode_dns_cname :: "dns_cname \<Rightarrow> v1_dns_cname" where
  "encode_dns_cname c =
     \<lparr>v1_alias = dns_str (cn_alias c), v1_canonical = dns_str (cn_canonical c), v1_cn_ttl = cn_ttl c\<rparr>"

definition decode_dns_cname :: "v1_dns_cname \<Rightarrow> (dns_cname, protocol_error) result" where
  "decode_dns_cname c =
     res_bind (decode_dns_name ''cname.alias'' (v1_alias c)) (\<lambda>alias.
     res_bind (decode_dns_name ''cname.canonical'' (v1_canonical c)) (\<lambda>canonical.
       map_err (\<lambda>_. InvalidDns ''cname.ttl'') (dns_cname_new alias canonical (v1_cn_ttl c))))"

definition encode_dns_response :: "network_dns_response \<Rightarrow> v1_dns_response" where
  "encode_dns_response r =
     \<lparr>v1_r_transaction_id = ucast (r_transaction_id r), v1_r_direction = encode_direction (r_direction r),
      v1_r_transport = encode_transport (r_transport r), v1_r_resolver = encode_ip (r_resolver r),
      v1_r_name = dns_str (r_name r), v1_r_type = encode_query_type (r_type r),
      v1_response_code = encode_response_code (r_code r), v1_truncated = r_truncated r,
      v1_answers = map encode_dns_answer (r_answers r),
      v1_cname_chain = map encode_dns_cname (r_cname_chain r), v1_effective_ttl = r_effective_ttl r\<rparr>"

definition decode_dns_response :: "v1_dns_response \<Rightarrow> (event_payload, protocol_error) result" where
  "decode_dns_response r =
     res_bind (try_u16 (InvalidDns ''transaction_id'') (v1_r_transaction_id r)) (\<lambda>tid.
     res_bind (decode_direction (v1_r_direction r)) (\<lambda>dir.
     res_bind (decode_transport (v1_r_transport r)) (\<lambda>tr.
     res_bind (decode_ip (v1_r_resolver r)) (\<lambda>res.
     res_bind (decode_dns_name ''name'' (v1_r_name r)) (\<lambda>name.
     res_bind (decode_query_type (v1_r_type r)) (\<lambda>ty.
     res_bind (decode_response_code (v1_response_code r)) (\<lambda>code.
     res_bind (try_map decode_dns_answer (v1_answers r)) (\<lambda>answers.
     res_bind (try_map decode_dns_cname (v1_cname_chain r)) (\<lambda>cnames.
       let response = \<lparr>r_transaction_id = tid, r_direction = dir, r_transport = tr, r_resolver = res,
         r_name = name, r_type = ty, r_code = code, r_truncated = v1_truncated r, r_answers = answers,
         r_cname_chain = cnames, r_effective_ttl = v1_effective_ttl r\<rparr> in
       res_bind (map_err (\<lambda>_. InvalidDns ''response'') (validate_response response)) (\<lambda>_.
         Ok (NetworkDnsResponse response)))))))))))"

definition encode_dns_context :: "wire_lib \<Rightarrow> dns_context \<Rightarrow> v1_dns_context" where
  "encode_dns_context L c =
     \<lparr>v1_ctx_names = map dns_str (ctx_names c), v1_ctx_observed_at = encode_time L (ctx_observed_at c),
      v1_ctx_expires_at = encode_time L (ctx_expires_at c), v1_confidence = 1,
      v1_ambiguous = ctx_ambiguous c\<rparr>"

definition context_timestamp :: "wire_lib \<Rightarrow> i64 \<Rightarrow> (datetime, protocol_error) result" where
  "context_timestamp L v = map_err (\<lambda>_. InvalidDns ''context.timestamp'') (timestamp L v)"

definition decode_dns_context :: "wire_lib \<Rightarrow> v1_dns_context \<Rightarrow> (dns_context, protocol_error) result" where
  "decode_dns_context L c =
     (if v1_confidence c \<noteq> 1 then Err (InvalidDns ''context.confidence'')
      else
        res_bind (try_map (decode_dns_name ''context.name'') (v1_ctx_names c)) (\<lambda>names.
        res_bind (context_timestamp L (v1_ctx_observed_at c)) (\<lambda>obs.
        res_bind (context_timestamp L (v1_ctx_expires_at c)) (\<lambda>ex.
        res_bind (map_err (\<lambda>_. InvalidDns ''context'') (dns_context_new names obs ex)) (\<lambda>context.
          if ctx_ambiguous context \<noteq> v1_ambiguous c then Err (InvalidDns ''context.ambiguous'')
          else Ok context)))))"

section \<open>Network\<close>

definition encode_listen :: "network_listen \<Rightarrow> v1_network_listen" where
  "encode_listen n =
     (let (family, address) = encode_network_ip (listen_address n) in
      \<lparr>v1_l_transport = 1, v1_l_family = family, v1_l_address = address, v1_l_port = ucast (listen_port n)\<rparr>)"

definition decode_listen :: "v1_network_listen \<Rightarrow> (event_payload, protocol_error) result" where
  "decode_listen n =
     res_bind (require_tcp (v1_l_transport n)) (\<lambda>_.
     res_bind (decode_network_ip (v1_l_family n) (v1_l_address n) ''local_address'') (\<lambda>(family, address).
     res_bind (try_u16 (InvalidNetwork ''local_port'') (v1_l_port n)) (\<lambda>port.
     res_bind (map_err (\<lambda>_. InvalidNetwork ''network_listen'') (network_listen_new family address port)) (\<lambda>v.
       Ok (NetworkListen v)))))"

definition encode_accept :: "network_accept \<Rightarrow> v1_network_accept" where
  "encode_accept n =
     (let (family, address) = encode_network_ip (accept_local_address n) in
      \<lparr>v1_a_transport = 1, v1_a_family = family, v1_a_local_address = address,
       v1_a_local_port = ucast (accept_local_port n),
       v1_a_remote_address = encode_ip (accept_remote_address n),
       v1_a_remote_port = ucast (accept_remote_port n)\<rparr>)"

definition decode_accept :: "v1_network_accept \<Rightarrow> (event_payload, protocol_error) result" where
  "decode_accept n =
     res_bind (require_tcp (v1_a_transport n)) (\<lambda>_.
     res_bind (decode_network_ip (v1_a_family n) (v1_a_local_address n) ''local_address'') (\<lambda>(family, local).
     res_bind (decode_network_ip (v1_a_family n) (v1_a_remote_address n) ''remote_address'') (\<lambda>(_, remote).
     res_bind (try_u16 (InvalidNetwork ''local_port'') (v1_a_local_port n)) (\<lambda>lport.
     res_bind (try_u16 (InvalidNetwork ''remote_port'') (v1_a_remote_port n)) (\<lambda>rport.
     res_bind (map_err (\<lambda>_. InvalidNetwork ''network_accept'')
         (network_accept_new family local lport remote rport)) (\<lambda>v. Ok (NetworkAccept v)))))))"

definition encode_connect :: "wire_lib \<Rightarrow> network_connect \<Rightarrow> v1_network_connect" where
  "encode_connect L n =
     (let (family, address) = encode_network_ip (destination_address n) in
      \<lparr>v1_address_family = family, v1_destination_address = address,
       v1_destination_port = ucast (destination_port n), v1_outcome = encode_outcome (outcome n),
       v1_errno = map_option ucast (errno n),
       v1_dns_context_of = map_option (encode_dns_context L) (dns_context_of n)\<rparr>)"

definition decode_network :: "wire_lib \<Rightarrow> v1_network_connect \<Rightarrow> (event_payload, protocol_error) result" where
  "decode_network L n =
     res_bind (decode_network_ip (v1_address_family n) (v1_destination_address n) ''destination_address'')
       (\<lambda>(family, address).
     res_bind (try_u16 (InvalidNetwork ''destination_port'') (v1_destination_port n)) (\<lambda>port.
     res_bind (decode_outcome (v1_outcome n)) (\<lambda>oc.
     res_bind (opt_try (try_u16 (InvalidNetwork ''errno'')) (v1_errno n)) (\<lambda>en.
     res_bind (map_err (\<lambda>_. InvalidNetwork ''network_connect'')
         (network_connect_new family address port oc en)) (\<lambda>v.
       case v1_dns_context_of n of
         None \<Rightarrow> Ok (NetworkConnect v)
       | Some c \<Rightarrow> res_bind (decode_dns_context L c) (\<lambda>context.
           Ok (NetworkConnect (with_dns_context v context))))))))"

section \<open>Round trips of the parts\<close>

text \<open>A library with the documented behaviour; \<open>fixed\<close> replaces one without it.\<close>

definition simple_lib :: wire_lib where
  "simple_lib =
     \<lparr>uuid_to_string = (\<lambda>u. replicate (unat u) (CHR ''a'')), uuid_parse_str = (\<lambda>s. Some (of_nat (length s))),
      from_timestamp = (\<lambda>s n. Some (s * 1000000000 + uint n)),
      timestamp_nanos_opt = (\<lambda>t. if in_i64 t then Some (word_of_int t) else None), sha256 = id\<rparr>"

definition fixed :: "wire_lib \<Rightarrow> wire_lib" where
  "fixed L = (if lib_ok L then L else simple_lib)"

lemma lib_ok_simple: "lib_ok simple_lib"
  by (simp add: lib_ok_def simple_lib_def)

lemma lib_ok_fixed [simp]: "lib_ok (fixed L)"
  by (simp add: fixed_def lib_ok_simple)

lemma fixed_id: "lib_ok L \<Longrightarrow> fixed L = L"
  by (simp add: fixed_def)

definition generation_ok :: "process_generation_identity \<Rightarrow> bool" where
  "generation_ok g \<longleftrightarrow> validate_generation g = Ok ()"

definition image_ok :: "container_image_identity \<Rightarrow> bool" where
  "image_ok c \<longleftrightarrow> length (ci_digest c) = 32"

definition release_ok :: "wire_lib \<Rightarrow> release_identity \<Rightarrow> bool" where
  "release_ok L r \<longleftrightarrow>
     length (ri_digest r) = 32 \<and> list_all image_ok (ri_containers r) \<and> validate_release (sha256 L) r = Ok ()"

definition name_ok :: "dns_name \<Rightarrow> bool" where
  "name_ok n \<longleftrightarrow> dns_name_new (dns_str n) = Ok n"

definition answer_ok :: "dns_address_answer \<Rightarrow> bool" where
  "answer_ok a \<longleftrightarrow> name_ok (ans_name a) \<and> validate_ttl (ans_ttl a) = Ok ()"

definition cname_ok :: "dns_cname \<Rightarrow> bool" where
  "cname_ok c \<longleftrightarrow> name_ok (cn_alias c) \<and> name_ok (cn_canonical c) \<and> validate_ttl (cn_ttl c) = Ok ()"

definition response_ok :: "network_dns_response \<Rightarrow> bool" where
  "response_ok r \<longleftrightarrow>
     name_ok (r_name r) \<and> list_all answer_ok (r_answers r) \<and> list_all cname_ok (r_cname_chain r)
     \<and> validate_response r = Ok ()"

definition context_ok :: "dns_context \<Rightarrow> bool" where
  "context_ok c \<longleftrightarrow>
     list_all name_ok (ctx_names c) \<and> in_i64 (ctx_observed_at c) \<and> in_i64 (ctx_expires_at c)
     \<and> validate_context c = Ok ()"

definition listen_ok :: "network_listen \<Rightarrow> bool" where
  "listen_ok n \<longleftrightarrow> network_listen_new (listen_family n) (listen_address n) (listen_port n) = Ok n"

definition accept_ok :: "network_accept \<Rightarrow> bool" where
  "accept_ok n \<longleftrightarrow>
     network_accept_new (accept_family n) (accept_local_address n) (accept_local_port n)
       (accept_remote_address n) (accept_remote_port n) = Ok n"

definition connect_ok :: "network_connect \<Rightarrow> bool" where
  "connect_ok n \<longleftrightarrow>
     network_connect_new (address_family n) (destination_address n) (destination_port n) (outcome n) (errno n)
       = Ok (n\<lparr>dns_context_of := None\<rparr>)
     \<and> pred_option context_ok (dns_context_of n)"

lemma try_array_Ok_iff [result_laws]: "try_array e n bs = Ok cs \<longleftrightarrow> length bs = n \<and> cs = bs"
  by (auto simp: try_array_def)

lemma ip_roundtrip: "decode_ip (encode_ip a) = Ok a"
  by (cases a) (simp_all add: decode_ip_def from_to_be_bytes)

lemma network_ip_roundtrip:
  "family_matches fam a \<Longrightarrow> encode_network_ip a = (c, bs) \<Longrightarrow> decode_network_ip c bs field = Ok (fam, a)"
  by (cases fam; cases a) (auto simp: decode_network_ip_def try_array_def from_to_be_bytes)

lemma network_ip_remote:
  "family_matches fam a \<Longrightarrow> family_matches fam b \<Longrightarrow> encode_network_ip a = (c, bs) \<Longrightarrow>
     decode_network_ip c (encode_ip b) field = Ok (fam, b)"
  by (cases fam; cases a; cases b) (auto simp: decode_network_ip_def try_array_def from_to_be_bytes)

lemma decode_dns_name_Ok [result_laws]: "decode_dns_name f s = Ok n \<longleftrightarrow> name_ok n \<and> dns_str n = s"
  using dns_name_newD(1) [of s n] by (auto simp: decode_dns_name_def result_laws name_ok_def)

lemma name_roundtrip [simp]: "name_ok n \<Longrightarrow> decode_dns_name f (dns_str n) = Ok n"
  by (simp add: result_laws)

interpretation generation_codec: codec "encode_generation (fixed L)" "decode_generation (fixed L)" generation_ok
proof
  show "generation_ok x \<Longrightarrow> decode_generation (fixed L) (encode_generation (fixed L) x) = Ok x" for x
    by (cases x) (simp add: decode_generation_def encode_generation_def uuid_roundtrip generation_ok_def Let_def)
  show "decode_generation (fixed L) m = Ok x \<Longrightarrow> generation_ok x" for m x
    by (auto simp: decode_generation_def result_laws generation_ok_def Let_def)
qed

interpretation image_codec: codec encode_container_image decode_container_image image_ok
proof
  show "image_ok x \<Longrightarrow> decode_container_image (encode_container_image x) = Ok x" for x
    by (simp add: encode_container_image_def decode_container_image_def image_ok_def try_array_def)
  show "decode_container_image m = Ok x \<Longrightarrow> image_ok x" for m x
    by (auto simp: decode_container_image_def result_laws image_ok_def)
qed

interpretation release_codec: codec encode_release_identity "decode_release_identity L" "release_ok L"
proof
  show "release_ok L x \<Longrightarrow> decode_release_identity L (encode_release_identity x) = Ok x" for x
    by (cases x) (simp add: encode_release_identity_def decode_release_identity_def release_ok_def try_array_def
        image_codec.list_roundtrip ucast_roundtrip Let_def)
  show "decode_release_identity L m = Ok x \<Longrightarrow> release_ok L x" for m x
    by (auto simp: decode_release_identity_def result_laws release_ok_def Let_def dest: image_codec.list_wf)
qed

interpretation answer_codec: codec encode_dns_answer decode_dns_answer answer_ok
proof
  show "answer_ok x \<Longrightarrow> decode_dns_answer (encode_dns_answer x) = Ok x" for x
    by (simp add: encode_dns_answer_def decode_dns_answer_def answer_ok_def ip_roundtrip
        dns_address_answer_new_def)
  show "decode_dns_answer m = Ok x \<Longrightarrow> answer_ok x" for m x
    by (auto simp: decode_dns_answer_def result_laws answer_ok_def dns_address_answer_new_def)
qed

interpretation cname_codec: codec encode_dns_cname decode_dns_cname cname_ok
proof
  show "cname_ok x \<Longrightarrow> decode_dns_cname (encode_dns_cname x) = Ok x" for x
    by (simp add: encode_dns_cname_def decode_dns_cname_def cname_ok_def dns_cname_new_def)
  show "decode_dns_cname m = Ok x \<Longrightarrow> cname_ok x" for m x
    by (auto simp: decode_dns_cname_def result_laws cname_ok_def dns_cname_new_def)
qed

interpretation name_codec: codec dns_str "decode_dns_name field" name_ok
  by unfold_locales (auto simp: result_laws)

lemma context_timestamp_eq: "lib_ok L \<Longrightarrow> context_timestamp L v = Ok (sint v)"
  by (simp add: context_timestamp_def timestamp_eq)

interpretation context_codec: codec "encode_dns_context (fixed L)" "decode_dns_context (fixed L)" context_ok
proof
  show "context_ok x \<Longrightarrow> decode_dns_context (fixed L) (encode_dns_context (fixed L) x) = Ok x" for x
    by (auto simp: encode_dns_context_def decode_dns_context_def context_ok_def context_timestamp_eq
        name_codec.list_roundtrip encode_time_roundtrip dns_context_new_def validate_context_def
        split: if_splits intro: dns_confidence.exhaust)
  show "decode_dns_context (fixed L) m = Ok x \<Longrightarrow> context_ok x" for m x
    by (auto simp: decode_dns_context_def result_laws context_ok_def context_timestamp_eq
        validate_context_def dns_context_new_def
        dest: name_codec.list_wf split: if_splits)
qed

lemma dns_query_roundtrip: "name_ok (q_name q) \<Longrightarrow> decode_dns_query (encode_dns_query q) = Ok (NetworkDnsQuery q)"
  by (simp add: encode_dns_query_def decode_dns_query_def ip_roundtrip ucast_roundtrip)

lemma dns_query_wf: "decode_dns_query m = Ok p \<Longrightarrow> \<exists>q. p = NetworkDnsQuery q \<and> name_ok (q_name q)"
  by (auto simp: decode_dns_query_def result_laws)

lemma dns_response_roundtrip: "response_ok r \<Longrightarrow> decode_dns_response (encode_dns_response r) = Ok (NetworkDnsResponse r)"
  by (cases r) (simp add: encode_dns_response_def decode_dns_response_def ip_roundtrip ucast_roundtrip
      response_ok_def answer_codec.list_roundtrip cname_codec.list_roundtrip Let_def)

lemma dns_response_wf: "decode_dns_response m = Ok p \<Longrightarrow> \<exists>r. p = NetworkDnsResponse r \<and> response_ok r"
  by (auto simp: decode_dns_response_def result_laws response_ok_def Let_def
      dest: answer_codec.list_wf cname_codec.list_wf)

lemma listen_roundtrip: "listen_ok n \<Longrightarrow> decode_listen (encode_listen n) = Ok (NetworkListen n)"
  by (auto simp: listen_ok_def network_listen_new_def validate_endpoint_def encode_listen_def decode_listen_def
      require_tcp_def network_ip_roundtrip ucast_roundtrip result_laws split: prod.split if_splits)

lemma listen_wf: "decode_listen m = Ok p \<Longrightarrow> \<exists>n. p = NetworkListen n \<and> listen_ok n"
  by (auto simp: decode_listen_def result_laws listen_ok_def network_listen_new_def)

lemma accept_roundtrip: "accept_ok n \<Longrightarrow> decode_accept (encode_accept n) = Ok (NetworkAccept n)"
proof -
  assume ok: "accept_ok n"
  then have fam: "family_matches (accept_family n) (accept_local_address n)"
      "family_matches (accept_family n) (accept_remote_address n)"
    by (auto simp: accept_ok_def network_accept_new_def validate_endpoint_def result_laws split: if_splits)
  then show ?thesis
    using ok by (auto simp: encode_accept_def decode_accept_def require_tcp_def network_ip_roundtrip [OF fam(1)]
        network_ip_remote [OF fam] ucast_roundtrip accept_ok_def split: prod.split)
qed

lemma accept_wf: "decode_accept m = Ok p \<Longrightarrow> \<exists>n. p = NetworkAccept n \<and> accept_ok n"
  by (auto simp: decode_accept_def result_laws accept_ok_def network_accept_new_def)

lemma connect_new_family: "network_connect_new f a p oc en = Ok n \<Longrightarrow> family_matches f a"
  by (auto simp: network_connect_new_def split: if_splits)

lemma connect_new_fields:
  "network_connect_new f a p oc en = Ok n \<Longrightarrow>
     n = \<lparr>address_family = f, destination_address = a, destination_port = p, outcome = oc, errno = en, dns_context_of = None\<rparr>"
  by (auto simp: network_connect_new_def split: if_splits)

lemma connect_roundtrip:
  assumes "connect_ok n" "lib_ok L"
  shows "decode_network L (encode_connect L n) = Ok (NetworkConnect n)"
proof -
  have new: "network_connect_new (address_family n) (destination_address n) (destination_port n) (outcome n) (errno n)
      = Ok (n\<lparr>dns_context_of := None\<rparr>)" and ctx: "pred_option context_ok (dns_context_of n)"
    using assms(1) by (auto simp: connect_ok_def)
  have en: "opt_try (try_u16 e) (map_option ucast (errno n)) = Ok (errno n)" for e
    by (cases "errno n") (simp_all add: ucast_roundtrip)
  have ip: "decode_network_ip c bs f = Ok (address_family n, destination_address n)"
    if "encode_network_ip (destination_address n) = (c, bs)" for c bs f
    using network_ip_roundtrip [OF connect_new_family [OF new] that] .
  have ctx': "decode_dns_context L (encode_dns_context L c) = Ok c" if "dns_context_of n = Some c" for c
    using context_codec.decode_encode [of c L] that ctx fixed_id [OF assms(2)] by simp
  show ?thesis
    by (auto simp: encode_connect_def decode_network_def ip en new ucast_roundtrip ctx' with_dns_context_def
        split: prod.split option.split)
qed

lemma connect_wf:
  assumes "decode_network L m = Ok p" "lib_ok L"
  shows "\<exists>n. p = NetworkConnect n \<and> connect_ok n"
proof -
  from assms(1) obtain f a pt oc en v where new: "network_connect_new f a pt oc en = Ok v"
    and p: "p = NetworkConnect v \<or> (\<exists>c. p = NetworkConnect (with_dns_context v c)
      \<and> (\<exists>m'. decode_dns_context L m' = Ok c))"
    by (auto simp: decode_network_def result_laws split: option.splits) blast+
  have "context_ok c" if "decode_dns_context L m' = Ok c" for c m'
    using context_codec.decode_wf [of L m' c] that fixed_id [OF assms(2)] by simp
  with p new show ?thesis using connect_new_fields [OF new]
    by (auto simp: connect_ok_def with_dns_context_def)
qed

end
