(* ===== verification/Protocol.thy ===== *)
theory Protocol
  imports Protocol_Values
begin

text \<open>
  The conversions between the events of the model and the messages of the wire
  (\<open>crates/protocol/src/lib.rs\<close>): process exits, container lifecycles and thread windows, the
  sixteen payloads, \<open>RuntimeEvent\<close>, resource aggregates, revision evidence and readiness
  snapshots. \<open>event_ok\<close> and its companions say what the server may rely on after decoding.
\<close>

unbundle bit_operations_syntax

section \<open>Terminations\<close>

fun encode_termination :: "process_termination \<Rightarrow> v1_termination" where
  "encode_termination (Exited status) = V1Exited (ucast status)"
| "encode_termination (Signaled signal name core) = V1Signaled (ucast signal) name core"

fun encode_correlation :: "wire_lib \<Rightarrow> generation_correlation \<Rightarrow> v1_correlation" where
  "encode_correlation L (ObservedGeneration g event exe) = V1Observed g (uuid_to_string L event) exe"
| "encode_correlation L (Unresolved reason) = V1Unresolved (encode_reason reason)"

definition encode_process_exit :: "wire_lib \<Rightarrow> process_exit \<Rightarrow> v1_process_exit" where
  "encode_process_exit L e =
     \<lparr>v1_px_source = encode_source (pe_source e), v1_raw_wait_status = raw_wait_status e,
      v1_px_termination = Some (encode_termination (exit_termination e)),
      v1_correlation_of = Some (Some (encode_correlation L (correlation e))),
      v1_classification = encode_classification (classification e),
      v1_px_generation = map_option (encode_generation L) (pe_generation e)\<rparr>"

definition encode_container_termination :: "wire_lib \<Rightarrow> container_termination \<Rightarrow> v1_container_termination" where
  "encode_container_termination L t =
     \<lparr>v1_ct_source = encode_source (ct_source t), v1_ct_container_id = ct_container_id t,
      v1_ct_reason = ct_reason t, v1_exit_code = exit_code t,
      v1_started_at = Option.bind (started_at t) (timestamp_nanos_opt L),
      v1_finished_at = Option.bind (finished_at t) (timestamp_nanos_opt L)\<rparr>"

definition encode_container_restart :: "wire_lib \<Rightarrow> container_restart \<Rightarrow> v1_container_restart" where
  "encode_container_restart L r =
     \<lparr>v1_cr_source = encode_source (cr_source r), v1_cr_container_id = cr_container_id r,
      v1_restart_count = restart_count r, v1_restart_delta = restart_delta r,
      v1_observation_gap = observation_gap r,
      v1_previous_termination = map_option (encode_container_termination L) (previous_termination r),
      v1_waiting_reason = waiting_reason r\<rparr>"

fun decode_termination :: "i32 \<Rightarrow> v1_termination \<Rightarrow> (process_termination, protocol_error) result" where
  "decode_termination raw (V1Exited st) =
     res_bind (try_u8 (InvalidTermination ''exit.status'') st) (\<lambda>status.
       if raw \<noteq> push_bit 8 (uint status) then Err (InvalidTermination ''exit.raw_wait_status'')
       else Ok (exited status))"
| "decode_termination raw (V1Signaled sg name core) =
     res_bind (try_u8 (InvalidTermination ''signal'') sg) (\<lambda>signal.
       if raw \<noteq> (uint signal OR (if core then 128 else 0)) then Err (InvalidTermination ''signal.raw_wait_status'')
       else map_err (\<lambda>_. InvalidTermination ''signal'') (signaled signal name core))"

fun decode_generation_correlation ::
    "wire_lib \<Rightarrow> v1_correlation option \<Rightarrow> (generation_correlation, protocol_error) result" where
  "decode_generation_correlation L None = Err (Missing ''generation_correlation.result'')"
| "decode_generation_correlation L (Some (V1Observed g event exe)) =
     res_bind (parse_uuid L ''exec_event_id'' event) (\<lambda>ev.
       map_err (\<lambda>_. InvalidTermination ''generation_correlation.observed'') (observed_generation g ev exe))"
| "decode_generation_correlation L (Some (V1Unresolved r)) =
     res_bind (decode_reason r) (\<lambda>reason. Ok (Unresolved reason))"

definition decode_process_exit :: "wire_lib \<Rightarrow> v1_process_exit \<Rightarrow> (process_exit, protocol_error) result" where
  "decode_process_exit L e =
     res_bind (decode_source (v1_px_source e)) (\<lambda>source.
     if source \<noteq> Kernel then Err (InvalidTermination ''process_exit.source'')
     else
       res_bind (ok_or (Missing ''process_exit.termination'') (v1_px_termination e)) (\<lambda>t.
       res_bind (decode_termination (v1_raw_wait_status e) t) (\<lambda>term.
       res_bind (ok_or (Missing ''process_exit.correlation'') (v1_correlation_of e)) (\<lambda>c.
       res_bind (decode_generation_correlation L c) (\<lambda>cor.
       res_bind (decode_classification (v1_classification e)) (\<lambda>cls.
       res_bind (opt_try (decode_generation L) (v1_px_generation e)) (\<lambda>gen.
         let decoded = (process_exit_new (v1_raw_wait_status e) term cor)
               \<lparr>classification := cls, pe_generation := gen\<rparr> in
         if (case (gen, cor) of
               (Some g, ObservedGeneration correlated _ _) \<Rightarrow> generation g \<noteq> correlated
             | _ \<Rightarrow> False)
         then Err (InvalidTermination ''process_exit.generation'')
         else Ok decoded)))))))"

definition decode_container_termination ::
    "wire_lib \<Rightarrow> v1_container_termination \<Rightarrow> (container_termination, protocol_error) result" where
  "decode_container_termination L t =
     res_bind (decode_source (v1_ct_source t)) (\<lambda>source.
     if source \<noteq> Kubernetes then Err (InvalidTermination ''container_termination.source'')
     else
       res_bind (decode_optional_timestamp L (v1_started_at t)) (\<lambda>start.
       res_bind (decode_optional_timestamp L (v1_finished_at t)) (\<lambda>finish.
         map_err (\<lambda>_. InvalidTermination ''container_termination'')
           (container_termination_new (v1_ct_container_id t) (v1_ct_reason t) (v1_exit_code t) start finish))))"

definition decode_container_restart ::
    "wire_lib \<Rightarrow> v1_container_restart \<Rightarrow> (container_restart, protocol_error) result" where
  "decode_container_restart L r =
     res_bind (decode_source (v1_cr_source r)) (\<lambda>source.
     if source \<noteq> Kubernetes then Err (InvalidTermination ''container_restart.source'')
     else
       res_bind (opt_try (decode_container_termination L) (v1_previous_termination r)) (\<lambda>prev.
       res_bind (map_err (\<lambda>_. InvalidTermination ''container_restart'')
           (container_restart_new (v1_cr_container_id r) (v1_restart_count r) (v1_restart_delta r) prev
             (v1_waiting_reason r))) (\<lambda>restart.
         if observation_gap restart \<noteq> v1_observation_gap r
         then Err (InvalidTermination ''container_restart.observation_gap'')
         else Ok restart)))"

section \<open>Thread windows\<close>

definition encode_thread_name :: "thread_name_aggregate \<Rightarrow> v1_thread_name" where
  "encode_thread_name n =
     \<lparr>v1_tn_name = tn_name n, v1_tn_created = tn_created n, v1_tn_exited = tn_exited n, v1_tn_active = tn_active n\<rparr>"

definition decode_thread_name :: "v1_thread_name \<Rightarrow> thread_name_aggregate" where
  "decode_thread_name n =
     \<lparr>tn_name = v1_tn_name n, tn_created = v1_tn_created n, tn_exited = v1_tn_exited n, tn_active = v1_tn_active n\<rparr>"

definition encode_thread_window :: "wire_lib \<Rightarrow> thread_activity_window \<Rightarrow> v1_thread_window" where
  "encode_thread_window L w =
     \<lparr>v1_window_id = uuid_to_string L (tw_id w),
      v1_tw_generation = Some (encode_generation L (tw_generation w)),
      v1_window_started_at = encode_time L (window_started_at w),
      v1_window_ended_at = encode_time L (window_ended_at w),
      v1_created = tw_created w, v1_exited = tw_exited w, v1_active_at_start = tw_active_at_start w,
      v1_active_at_end = tw_active_at_end w, v1_peak_active = tw_peak_active w,
      v1_names = map encode_thread_name (tw_names w),
      v1_baseline_provenance = encode_provenance (tw_baseline_provenance w),
      v1_baseline_complete = tw_baseline_complete w, v1_name_overflow = name_overflow w,
      v1_gaps = map encode_gap (tw_gaps w)\<rparr>"

definition decode_thread_window ::
    "wire_lib \<Rightarrow> v1_thread_window \<Rightarrow> process_identity \<Rightarrow> (thread_activity_window, protocol_error) result" where
  "decode_thread_window L w process =
     res_bind (ok_or (Missing ''thread_window.generation'') (v1_tw_generation w)) (\<lambda>g.
     res_bind (decode_provenance (v1_baseline_provenance w)) (\<lambda>provenance.
     res_bind (try_map decode_gap (v1_gaps w)) (\<lambda>gaps.
     res_bind (parse_uuid L ''window_id'' (v1_window_id w)) (\<lambda>wid.
     res_bind (parse_uuid L ''observation_epoch'' (v1_observation_epoch g)) (\<lambda>epoch.
     res_bind (timestamp L (v1_window_started_at w)) (\<lambda>start.
     res_bind (timestamp L (v1_window_ended_at w)) (\<lambda>finish.
       let window = \<lparr>tw_id = wid, tw_process = process,
             tw_generation = \<lparr>generation = v1_generation_number g, observation_epoch = epoch,
               start_observed = v1_start_observed g\<rparr>,
             window_started_at = start, window_ended_at = finish,
             tw_created = v1_created w, tw_exited = v1_exited w, tw_active_at_start = v1_active_at_start w,
             tw_active_at_end = v1_active_at_end w, tw_peak_active = v1_peak_active w,
             tw_names = map decode_thread_name (v1_names w), tw_baseline_provenance = provenance,
             tw_baseline_complete = v1_baseline_complete w, name_overflow = v1_name_overflow w,
             tw_gaps = gaps\<rparr> in
       res_bind (map_err (\<lambda>_. InvalidTermination ''thread_window'') (validate_window window)) (\<lambda>_.
         Ok window))))))))"

section \<open>Payloads\<close>

definition encode_exec :: "wire_lib \<Rightarrow> process_exec \<Rightarrow> v1_process_exec" where
  "encode_exec L e =
     \<lparr>v1_executable = executable e,
      v1_parent_command = (case exec_parent_command e of None \<Rightarrow> [] | Some c \<Rightarrow> c),
      v1_exec_generation = map_option (encode_generation L) (exec_generation e)\<rparr>"

definition encode_start :: "wire_lib \<Rightarrow> process_start \<Rightarrow> v1_process_start" where
  "encode_start L p =
     \<lparr>v1_ps_generation = Some (encode_generation L (ps_generation p)), v1_parent_pid = parent_pid p,
      v1_parent_tgid = parent_tgid p, v1_ps_parent_command = parent_command p\<rparr>"

definition encode_rename :: "file_rename \<Rightarrow> v1_file_rename" where
  "encode_rename f =
     \<lparr>v1_old_path = path_str (old_path f), v1_new_path = path_str (new_path f), v1_replaced = replaced f\<rparr>"

fun encode_payload :: "wire_lib \<Rightarrow> event_payload \<Rightarrow> v1_payload" where
  "encode_payload L (ProcessStart v) = V1ProcessStart (encode_start L v)"
| "encode_payload L (ThreadActivityWindow v) = V1ThreadActivityWindow (encode_thread_window L v)"
| "encode_payload L (ProcessExec v) = V1ProcessExec (encode_exec L v)"
| "encode_payload L (Syscall v) = V1Syscall (syscall_name v)"
| "encode_payload L (NetworkConnect v) = V1NetworkConnect (encode_connect L v)"
| "encode_payload L (NetworkListen v) = V1NetworkListen (encode_listen v)"
| "encode_payload L (NetworkAccept v) = V1NetworkAccept (encode_accept v)"
| "encode_payload L (NetworkDnsQuery v) = V1NetworkDnsQuery (encode_dns_query v)"
| "encode_payload L (NetworkDnsResponse v) = V1NetworkDnsResponse (encode_dns_response v)"
| "encode_payload L (FileCreate v) = V1FileCreate (path_str (create_path v))"
| "encode_payload L (FileModify v) = V1FileModify (path_str (modify_path v))"
| "encode_payload L (FileDelete v) = V1FileDelete (path_str (delete_path v))"
| "encode_payload L (FileRename v) = V1FileRename (encode_rename v)"
| "encode_payload L (ProcessExit v) = V1ProcessExit (encode_process_exit L v)"
| "encode_payload L (ContainerTermination v) = V1ContainerTermination (encode_container_termination L v)"
| "encode_payload L (ContainerRestart v) = V1ContainerRestart (encode_container_restart L v)"

definition decode_file_path :: "string \<Rightarrow> string \<Rightarrow> (file_activity_path, protocol_error) result" where
  "decode_file_path v field = map_err (\<lambda>_. InvalidFile field) (file_activity_path_new v)"

definition decode_start :: "wire_lib \<Rightarrow> v1_process_start \<Rightarrow> (process_start, protocol_error) result" where
  "decode_start L v =
     res_bind (ok_or (Missing ''process_start.generation'') (v1_ps_generation v)) (\<lambda>g.
     res_bind (parse_uuid L ''observation_epoch'' (v1_observation_epoch g)) (\<lambda>epoch.
       let start = \<lparr>ps_generation = \<lparr>generation = v1_generation_number g, observation_epoch = epoch,
               start_observed = v1_start_observed g\<rparr>,
             parent_pid = v1_parent_pid v, parent_tgid = v1_parent_tgid v,
             parent_command = v1_ps_parent_command v\<rparr> in
       res_bind (map_err (\<lambda>_. InvalidTermination ''process_start'') (validate_start start)) (\<lambda>_. Ok start)))"

definition decode_exec :: "wire_lib \<Rightarrow> v1_process_exec \<Rightarrow> (process_exec, protocol_error) result" where
  "decode_exec L v =
     res_bind (require_text ''executable'' (v1_executable v)) (\<lambda>_.
     res_bind (opt_try (decode_generation L) (v1_exec_generation v)) (\<lambda>gen.
       Ok \<lparr>executable = v1_executable v,
           exec_parent_command = (if v1_parent_command v = [] then None else Some (v1_parent_command v)),
           exec_generation = gen\<rparr>))"

definition decode_rename :: "v1_file_rename \<Rightarrow> (file_rename, protocol_error) result" where
  "decode_rename v =
     res_bind (decode_file_path (v1_old_path v) ''old_path'') (\<lambda>old.
     res_bind (decode_file_path (v1_new_path v) ''new_path'') (\<lambda>new.
       map_err (\<lambda>_. InvalidFile ''rename'') (file_rename_new old new (v1_replaced v))))"

fun decode_payload :: "wire_lib \<Rightarrow> v1_payload \<Rightarrow> process_identity \<Rightarrow> (event_payload, protocol_error) result" where
  "decode_payload L (V1ProcessStart v) p = res_bind (decode_start L v) (\<lambda>x. Ok (ProcessStart x))"
| "decode_payload L (V1ThreadActivityWindow v) p =
     res_bind (decode_thread_window L v p) (\<lambda>x. Ok (ThreadActivityWindow x))"
| "decode_payload L (V1ProcessExec v) p = res_bind (decode_exec L v) (\<lambda>x. Ok (ProcessExec x))"
| "decode_payload L (V1Syscall name) p =
     res_bind (require_text ''syscall.name'' name) (\<lambda>_. Ok (Syscall \<lparr>syscall_name = name\<rparr>))"
| "decode_payload L (V1NetworkConnect v) p = decode_network L v"
| "decode_payload L (V1NetworkListen v) p = decode_listen v"
| "decode_payload L (V1NetworkAccept v) p = decode_accept v"
| "decode_payload L (V1NetworkDnsQuery v) p = decode_dns_query v"
| "decode_payload L (V1NetworkDnsResponse v) p = decode_dns_response v"
| "decode_payload L (V1FileCreate v) p =
     res_bind (decode_file_path v ''path'') (\<lambda>x. Ok (FileCreate \<lparr>create_path = x\<rparr>))"
| "decode_payload L (V1FileModify v) p =
     res_bind (decode_file_path v ''path'') (\<lambda>x. Ok (FileModify \<lparr>modify_path = x\<rparr>))"
| "decode_payload L (V1FileDelete v) p =
     res_bind (decode_file_path v ''path'') (\<lambda>x. Ok (FileDelete \<lparr>delete_path = x\<rparr>))"
| "decode_payload L (V1FileRename v) p = res_bind (decode_rename v) (\<lambda>x. Ok (FileRename x))"
| "decode_payload L (V1ProcessExit v) p = res_bind (decode_process_exit L v) (\<lambda>x. Ok (ProcessExit x))"
| "decode_payload L (V1ContainerTermination v) p =
     res_bind (decode_container_termination L v) (\<lambda>x. Ok (ContainerTermination x))"
| "decode_payload L (V1ContainerRestart v) p =
     res_bind (decode_container_restart L v) (\<lambda>x. Ok (ContainerRestart x))"

section \<open>Events\<close>

definition encode_attribution :: "kubernetes_attribution \<Rightarrow> v1_attribution" where
  "encode_attribution a =
     \<lparr>v1_node_name = node_name a, v1_namespace = namespace a, v1_pod_uid = pod_uid a, v1_pod_name = pod_name a,
      v1_container_id = container_id a, v1_container_name = container_name a,
      v1_workload_uid = workload_uid a, v1_workload_kind = workload_kind a,
      v1_workload_name = workload_name a, v1_release = release a,
      v1_release_identity_of = map_option encode_release_identity (release_identity_of a)\<rparr>"

definition encode_process :: "process_identity \<Rightarrow> v1_process_identity" where
  "encode_process p = \<lparr>v1_cgroup_id = cgroup_id p, v1_pid = pid p, v1_tgid = tgid p, v1_command = command p\<rparr>"

definition encode_event :: "wire_lib \<Rightarrow> runtime_event \<Rightarrow> v1_runtime_event" where
  "encode_event L e =
     \<lparr>v1_event_id = uuid_to_string L (event_id e), v1_observed_at = encode_time L (event_observed_at e),
      v1_schema_version = schema_version e, v1_attribution_of = Some (encode_attribution (attribution e)),
      v1_process = Some (encode_process (event_process e)),
      v1_payload_of = Some (encode_payload L (payload e))\<rparr>"

definition decode_process :: "v1_process_identity \<Rightarrow> process_identity" where
  "decode_process p = \<lparr>cgroup_id = v1_cgroup_id p, pid = v1_pid p, tgid = v1_tgid p, command = v1_command p\<rparr>"

definition clean_release :: "string option \<Rightarrow> string option" where
  "clean_release r =
     Option.bind r (\<lambda>v. let t = trim v in if t \<noteq> [] \<and> length t \<le> 200 then Some t else None)"

definition decode_attribution :: "wire_lib \<Rightarrow> v1_attribution \<Rightarrow> (kubernetes_attribution, protocol_error) result" where
  "decode_attribution L a =
     res_bind (require_text ''node_name'' (v1_node_name a)) (\<lambda>_.
     res_bind (require_text ''namespace'' (v1_namespace a)) (\<lambda>_.
     res_bind (require_text ''pod_uid'' (v1_pod_uid a)) (\<lambda>_.
     res_bind (require_text ''container_id'' (v1_container_id a)) (\<lambda>_.
     res_bind (require_text ''workload_uid'' (v1_workload_uid a)) (\<lambda>_.
     res_bind (opt_try (decode_release_identity L) (v1_release_identity_of a)) (\<lambda>ri.
       Ok \<lparr>project_id = 0, application_id = 0, node_name = v1_node_name a, namespace = v1_namespace a,
           pod_uid = v1_pod_uid a, pod_name = v1_pod_name a, container_id = v1_container_id a,
           container_name = v1_container_name a, workload_uid = v1_workload_uid a,
           workload_kind = v1_workload_kind a, workload_name = v1_workload_name a,
           release = clean_release (v1_release a), release_identity_of = ri\<rparr>))))))"

definition decode_event :: "wire_lib \<Rightarrow> v1_runtime_event \<Rightarrow> (runtime_event, protocol_error) result" where
  "decode_event L e =
     (if v1_schema_version e \<noteq> EVENT_SCHEMA_VERSION then Err (UnsupportedEventSchema (v1_schema_version e))
      else
        res_bind (parse_uuid L ''event_id'' (v1_event_id e)) (\<lambda>eid.
        res_bind (timestamp L (v1_observed_at e)) (\<lambda>observed.
        res_bind (ok_or (Missing ''attribution'') (v1_attribution_of e)) (\<lambda>a.
        res_bind (decode_attribution L a) (\<lambda>attr.
        res_bind (ok_or (Missing ''process'') (v1_process e)) (\<lambda>p.
        res_bind (ok_or (Missing ''payload'') (v1_payload_of e)) (\<lambda>pl.
        res_bind (decode_payload L pl (decode_process p)) (\<lambda>payload.
          Ok \<lparr>event_id = eid, event_observed_at = observed, schema_version = v1_schema_version e,
              attribution = attr, event_process = decode_process p, payload = payload\<rparr>))))))))"

section \<open>Well-formed values\<close>

fun termination_ok :: "i32 \<Rightarrow> process_termination \<Rightarrow> bool" where
  "termination_ok raw (Exited st) \<longleftrightarrow> raw = push_bit 8 (uint st)"
| "termination_ok raw (Signaled sg name core) \<longleftrightarrow>
     raw = (uint sg OR (if core then 128 else 0)) \<and> signaled sg name core = Ok (Signaled sg name core)"

fun correlation_ok :: "generation_correlation \<Rightarrow> bool" where
  "correlation_ok (ObservedGeneration g event exe) \<longleftrightarrow>
     observed_generation g event exe = Ok (ObservedGeneration g event exe)"
| "correlation_ok (Unresolved _) \<longleftrightarrow> True"

definition exit_ok :: "process_exit \<Rightarrow> bool" where
  "exit_ok e \<longleftrightarrow>
     pe_source e = Kernel \<and> termination_ok (raw_wait_status e) (exit_termination e) \<and> correlation_ok (correlation e)
     \<and> pred_option generation_ok (pe_generation e)
     \<and> (case (pe_generation e, correlation e) of
          (Some g, ObservedGeneration n _ _) \<Rightarrow> generation g = n | _ \<Rightarrow> True)"

definition container_ok :: "container_termination \<Rightarrow> bool" where
  "container_ok t \<longleftrightarrow>
     container_termination_new (ct_container_id t) (ct_reason t) (exit_code t) (started_at t) (finished_at t) = Ok t
     \<and> pred_option in_i64 (started_at t) \<and> pred_option in_i64 (finished_at t)"

definition restart_ok :: "container_restart \<Rightarrow> bool" where
  "restart_ok r \<longleftrightarrow>
     container_restart_new (cr_container_id r) (restart_count r) (restart_delta r) (previous_termination r)
       (waiting_reason r) = Ok r
     \<and> pred_option container_ok (previous_termination r)"

definition window_ok :: "process_identity \<Rightarrow> thread_activity_window \<Rightarrow> bool" where
  "window_ok p w \<longleftrightarrow>
     tw_process w = p \<and> in_i64 (window_started_at w) \<and> in_i64 (window_ended_at w) \<and> validate_window w = Ok ()"

definition exec_ok :: "process_exec \<Rightarrow> bool" where
  "exec_ok e \<longleftrightarrow>
     trim (executable e) \<noteq> [] \<and> exec_parent_command e \<noteq> Some [] \<and> pred_option generation_ok (exec_generation e)"

definition path_ok :: "file_activity_path \<Rightarrow> bool" where
  "path_ok p \<longleftrightarrow> file_activity_path_new (path_str p) = Ok p"

definition rename_ok :: "file_rename \<Rightarrow> bool" where
  "rename_ok f \<longleftrightarrow> path_ok (old_path f) \<and> path_ok (new_path f) \<and> old_path f \<noteq> new_path f"

fun payload_ok :: "process_identity \<Rightarrow> event_payload \<Rightarrow> bool" where
  "payload_ok p (ProcessStart v) \<longleftrightarrow> validate_start v = Ok ()"
| "payload_ok p (ThreadActivityWindow v) \<longleftrightarrow> window_ok p v"
| "payload_ok p (ProcessExec v) \<longleftrightarrow> exec_ok v"
| "payload_ok p (Syscall v) \<longleftrightarrow> trim (syscall_name v) \<noteq> []"
| "payload_ok p (NetworkConnect v) \<longleftrightarrow> connect_ok v"
| "payload_ok p (NetworkListen v) \<longleftrightarrow> listen_ok v"
| "payload_ok p (NetworkAccept v) \<longleftrightarrow> accept_ok v"
| "payload_ok p (NetworkDnsQuery v) \<longleftrightarrow> name_ok (q_name v)"
| "payload_ok p (NetworkDnsResponse v) \<longleftrightarrow> response_ok v"
| "payload_ok p (FileCreate v) \<longleftrightarrow> path_ok (create_path v)"
| "payload_ok p (FileModify v) \<longleftrightarrow> path_ok (modify_path v)"
| "payload_ok p (FileDelete v) \<longleftrightarrow> path_ok (delete_path v)"
| "payload_ok p (FileRename v) \<longleftrightarrow> rename_ok v"
| "payload_ok p (ProcessExit v) \<longleftrightarrow> exit_ok v"
| "payload_ok p (ContainerTermination v) \<longleftrightarrow> container_ok v"
| "payload_ok p (ContainerRestart v) \<longleftrightarrow> restart_ok v"

definition release_text_ok :: "string \<Rightarrow> bool" where
  "release_text_ok v \<longleftrightarrow> v \<noteq> [] \<and> length v \<le> 200 \<and> trimmed v"

definition attribution_ok :: "wire_lib \<Rightarrow> kubernetes_attribution \<Rightarrow> bool" where
  "attribution_ok L a \<longleftrightarrow>
     project_id a = 0 \<and> application_id a = 0
     \<and> list_all (\<lambda>v. trim v \<noteq> []) [node_name a, namespace a, pod_uid a, container_id a, workload_uid a]
     \<and> pred_option release_text_ok (release a) \<and> pred_option (release_ok L) (release_identity_of a)"

definition event_ok :: "wire_lib \<Rightarrow> runtime_event \<Rightarrow> bool" where
  "event_ok L e \<longleftrightarrow>
     schema_version e = EVENT_SCHEMA_VERSION \<and> in_i64 (event_observed_at e)
     \<and> attribution_ok L (attribution e) \<and> payload_ok (event_process e) (payload e)"

section \<open>Round trips\<close>

lemma opt_generation:
  assumes "lib_ok L"
  shows "pred_option generation_ok x \<Longrightarrow> opt_try (decode_generation L) (map_option (encode_generation L) x) = Ok x"
    and "opt_try (decode_generation L) m = Ok x \<Longrightarrow> pred_option generation_ok x"
  using generation_codec.option_roundtrip [of x L] generation_codec.option_wf [of L m x] fixed_id [OF assms] by simp_all

lemma termination_roundtrip: "termination_ok raw t \<Longrightarrow> decode_termination raw (encode_termination t) = Ok t"
  by (cases t) (auto simp: ucast_roundtrip exited_def)

lemma termination_wf: "decode_termination raw m = Ok t \<Longrightarrow> termination_ok raw t"
  by (cases m) (auto simp: exited_def signaled_def result_laws split: if_splits)

lemma correlation_roundtrip:
  "lib_ok L \<Longrightarrow> correlation_ok c \<Longrightarrow> decode_generation_correlation L (Some (encode_correlation L c)) = Ok c"
  by (cases c) (auto simp: uuid_roundtrip)

lemma correlation_wf: "decode_generation_correlation L m = Ok c \<Longrightarrow> correlation_ok c"
  by (cases "(L, m)" rule: decode_generation_correlation.cases)
    (auto simp: result_laws observed_generation_def split: if_splits)

interpretation exit_codec: codec "encode_process_exit (fixed L)" "decode_process_exit (fixed L)" exit_ok
proof
  show "decode_process_exit (fixed L) (encode_process_exit (fixed L) x) = Ok x" if "exit_ok x" for x
  proof -
    have "process_exit_new (raw_wait_status x) (exit_termination x) (correlation x)
        \<lparr>classification := classification x, pe_generation := pe_generation x\<rparr> = x"
      using that by (cases x) (simp add: process_exit_new_def exit_ok_def)
    with that show ?thesis
      by (auto simp: encode_process_exit_def decode_process_exit_def exit_ok_def termination_roundtrip
          correlation_roundtrip opt_generation Let_def decode_source_def
          split: option.split generation_correlation.split)
  qed
  show "decode_process_exit (fixed L) m = Ok x \<Longrightarrow> exit_ok x" for m x
    by (auto simp: decode_process_exit_def result_laws exit_ok_def process_exit_new_def Let_def
        split: if_splits option.splits generation_correlation.splits
        dest: termination_wf correlation_wf generation_codec.decode_wf)
qed

lemma optional_time_roundtrip:
  "lib_ok L \<Longrightarrow> pred_option in_i64 t \<Longrightarrow> decode_optional_timestamp L (Option.bind t (timestamp_nanos_opt L)) = Ok t"
  using encode_time_roundtrip [of L "the t"]
  by (cases t) (auto simp: decode_optional_timestamp_def lib_ok_def encode_time_def timestamp_eq [unfolded lib_ok_def])

lemma optional_time_wf: "lib_ok L \<Longrightarrow> decode_optional_timestamp L m = Ok t \<Longrightarrow> pred_option in_i64 t"
  by (cases m) (auto simp: decode_optional_timestamp_def result_laws timestamp_eq)

interpretation container_codec:
  codec "encode_container_termination (fixed L)" "decode_container_termination (fixed L)" container_ok
proof
  show "decode_container_termination (fixed L) (encode_container_termination (fixed L) x) = Ok x"
    if "container_ok x" for x
  proof -
    have "ct_source x = Kubernetes"
      using that by (cases x) (auto simp: container_ok_def container_termination_new_def split: if_splits)
    with that show ?thesis
      by (auto simp: encode_container_termination_def decode_container_termination_def container_ok_def
          optional_time_roundtrip decode_source_def)
  qed
  show "decode_container_termination (fixed L) m = Ok x \<Longrightarrow> container_ok x" for m x
    by (auto simp: decode_container_termination_def result_laws container_ok_def container_termination_new_def
        split: if_splits option.splits dest!: optional_time_wf [OF lib_ok_fixed])
qed

interpretation restart_codec:
  codec "encode_container_restart (fixed L)" "decode_container_restart (fixed L)" restart_ok
proof
  show "decode_container_restart (fixed L) (encode_container_restart (fixed L) x) = Ok x" if "restart_ok x" for x
  proof -
    have "cr_source x = Kubernetes"
      using that by (cases x) (auto simp: restart_ok_def container_restart_new_def split: if_splits)
    with that show ?thesis
      by (auto simp: encode_container_restart_def decode_container_restart_def restart_ok_def
          container_codec.option_roundtrip decode_source_def)
  qed
  show "decode_container_restart (fixed L) m = Ok x \<Longrightarrow> restart_ok x" for m x
    by (auto simp: decode_container_restart_def result_laws restart_ok_def container_restart_new_def
        split: if_splits dest: container_codec.decode_wf)
qed

lemma generation_eta [simp]:
  "\<lparr>generation = generation g, observation_epoch = observation_epoch g, start_observed = start_observed g\<rparr> = g"
  by simp

lemma thread_name_roundtrip: "decode_thread_name (encode_thread_name n) = n"
  by (simp add: decode_thread_name_def encode_thread_name_def)

lemma window_roundtrip:
  assumes "lib_ok L" "window_ok p w"
  shows "decode_thread_window L (encode_thread_window L w) p = Ok w"
proof -
  have "map decode_thread_name (map encode_thread_name (tw_names w)) = tw_names w"
    by (simp add: comp_def thread_name_roundtrip)
  moreover have "try_map decode_gap (map encode_gap (tw_gaps w)) = Ok (tw_gaps w)" by (rule try_map_map) simp
  ultimately show ?thesis using assms
    by (cases w) (simp add: encode_thread_window_def decode_thread_window_def window_ok_def encode_generation_def
        uuid_roundtrip timestamp_eq encode_time_roundtrip Let_def)
qed

lemma window_wf: "lib_ok L \<Longrightarrow> decode_thread_window L m p = Ok w \<Longrightarrow> window_ok p w"
  by (auto simp: decode_thread_window_def result_laws window_ok_def timestamp_eq Let_def)

lemma decode_file_path_Ok [result_laws]: "decode_file_path v f = Ok p \<longleftrightarrow> path_ok p \<and> path_str p = v"
  by (auto simp: decode_file_path_def result_laws path_ok_def file_activity_path_new_def split: if_splits)

lemma path_roundtrip [simp]: "path_ok p \<Longrightarrow> decode_file_path (path_str p) f = Ok p"
  by (simp add: result_laws)

lemma require_text_Ok [result_laws]: "require_text f v = Ok u \<longleftrightarrow> trim v \<noteq> []"
  by (simp add: require_text_def)

lemma exec_roundtrip: "lib_ok L \<Longrightarrow> exec_ok v \<Longrightarrow> decode_exec L (encode_exec L v) = Ok v"
  by (cases v) (auto simp: encode_exec_def decode_exec_def exec_ok_def require_text_def opt_generation
      split: option.split)

lemma exec_wf: "lib_ok L \<Longrightarrow> decode_exec L m = Ok v \<Longrightarrow> exec_ok v"
  using generation_codec.decode_wf [of L] fixed_id [of L]
  by (auto simp: decode_exec_def result_laws exec_ok_def split: if_splits)

lemma start_roundtrip: "lib_ok L \<Longrightarrow> validate_start v = Ok () \<Longrightarrow> decode_start L (encode_start L v) = Ok v"
  by (cases v) (simp add: encode_start_def decode_start_def encode_generation_def uuid_roundtrip Let_def)

lemma start_wf: "decode_start L m = Ok v \<Longrightarrow> validate_start v = Ok ()"
  by (auto simp: decode_start_def result_laws Let_def)

lemma rename_roundtrip: "rename_ok v \<Longrightarrow> decode_rename (encode_rename v) = Ok v"
  by (cases v) (simp add: rename_ok_def encode_rename_def decode_rename_def file_rename_new_def)

lemma rename_wf: "decode_rename m = Ok v \<Longrightarrow> rename_ok v"
  by (auto simp: decode_rename_def result_laws rename_ok_def file_rename_new_def split: if_splits)

lemma payload_roundtrip:
  assumes "lib_ok L" "payload_ok p v"
  shows "decode_payload L (encode_payload L v) p = Ok v"
  using assms fixed_id [OF assms(1)] exit_codec.decode_encode [of _ L] container_codec.decode_encode [of _ L]
    restart_codec.decode_encode [of _ L]
  by (cases v) (simp_all add: window_roundtrip exec_roundtrip start_roundtrip rename_roundtrip connect_roundtrip
      listen_roundtrip accept_roundtrip dns_query_roundtrip dns_response_roundtrip require_text_def)

lemma payload_wf:
  assumes "lib_ok L" "decode_payload L m p = Ok v"
  shows "payload_ok p v"
  using assms fixed_id [OF assms(1)] exit_codec.decode_wf [of L] container_codec.decode_wf [of L]
    restart_codec.decode_wf [of L]
  by (cases m) (auto simp: result_laws dest: window_wf exec_wf start_wf rename_wf connect_wf listen_wf accept_wf
      dns_query_wf dns_response_wf)

lemma clean_release_ok: "pred_option release_text_ok r \<Longrightarrow> clean_release r = r"
  by (cases r) (auto simp: clean_release_def release_text_ok_def trim_trimmed)

lemma clean_release_wf: "pred_option release_text_ok (clean_release r)"
  by (cases r) (auto simp: clean_release_def release_text_ok_def trimmed_trim Let_def)

interpretation attribution_codec: codec encode_attribution "decode_attribution L" "attribution_ok L"
proof
  show "attribution_ok L x \<Longrightarrow> decode_attribution L (encode_attribution x) = Ok x" for x
    by (cases x) (simp add: attribution_ok_def encode_attribution_def decode_attribution_def require_text_def
        release_codec.option_roundtrip clean_release_ok)
  show "decode_attribution L m = Ok x \<Longrightarrow> attribution_ok L x" for m x
    by (auto simp: decode_attribution_def result_laws attribution_ok_def clean_release_wf
        dest: release_codec.decode_wf)
qed

lemma process_roundtrip: "decode_process (encode_process p) = p"
  by (simp add: decode_process_def encode_process_def)

interpretation event_codec: codec "encode_event (fixed L)" "decode_event (fixed L)" "event_ok (fixed L)"
proof
  show "event_ok (fixed L) x \<Longrightarrow> decode_event (fixed L) (encode_event (fixed L) x) = Ok x" for x
    by (cases x) (simp add: event_ok_def encode_event_def decode_event_def uuid_roundtrip timestamp_eq
        encode_time_roundtrip attribution_codec.decode_encode process_roundtrip payload_roundtrip)
  show "decode_event (fixed L) m = Ok x \<Longrightarrow> event_ok (fixed L) x" for m x
    by (auto simp: decode_event_def result_laws event_ok_def timestamp_eq
        dest: attribution_codec.decode_wf payload_wf [OF lib_ok_fixed] split: if_splits)
qed

text \<open>The identifiers of project and application do not travel: the server sets them.\<close>

definition anonymous :: "runtime_event \<Rightarrow> runtime_event" where
  "anonymous e = e\<lparr>attribution := (attribution e)\<lparr>project_id := 0, application_id := 0\<rparr>\<rparr>"

lemma encode_anonymous: "encode_event L (anonymous e) = encode_event L e"
  by (simp add: encode_event_def anonymous_def encode_attribution_def)

lemma event_roundtrip:
  assumes "lib_ok L" "event_ok L (anonymous e)"
  shows "decode_event L (encode_event L e) = Ok (anonymous e)"
  using event_codec.decode_encode [of L "anonymous e"] assms fixed_id [OF assms(1)] by (simp add: encode_anonymous)

text \<open>C9: The server reads what the agent wrote. Every well-formed event, of each of the sixteen
  kinds, is decoded to the event that was encoded, up to the identifiers of the project and of
  the application, which the encoding leaves out and the decoding sets to zero.\<close>

theorem event_survives_the_wire:
  assumes "lib_ok L" and "event_ok L (anonymous e)"
  shows "decode_event L (encode_event L e) = Ok (anonymous e)"
  using assms by (rule event_roundtrip)

text \<open>C34: The server accepts only well-formed events. Whatever message arrives, a decoded event has
  the supported schema, an attribution whose node, namespace, pod, container and workload are not
  blank, no project or application of the sender's choice, a valid release identity with the
  digest of its containers, and a payload that satisfies the validation of its kind; encoding it
  again and decoding gives the same event.\<close>

theorem decoded_events_well_formed:
  assumes "lib_ok L" and "decode_event L m = Ok e"
  shows "event_ok L e \<and> anonymous e = e \<and> decode_event L (encode_event L e) = Ok e"
proof -
  have wf: "event_ok L e"
    using event_codec.decode_wf [of L m e] assms fixed_id [OF assms(1)] by simp
  then have "anonymous e = e" by (cases e) (simp add: anonymous_def event_ok_def attribution_ok_def)
  with wf event_roundtrip [OF assms(1), of e] show ?thesis by simp
qed

definition sample_event :: runtime_event where
  "sample_event = \<lparr>event_id = 3, event_observed_at = 1700000000000000000, schema_version = 1,
     attribution = \<lparr>project_id = 7, application_id = 8, node_name = ''n'', namespace = ''ns'', pod_uid = ''u'',
       pod_name = ''p'', container_id = ''c'', container_name = ''app'', workload_uid = ''w'',
       workload_kind = ''Deployment'', workload_name = ''web'', release = None, release_identity_of = None\<rparr>,
     event_process = \<lparr>cgroup_id = 1, pid = 2, tgid = 2, command = ''app''\<rparr>,
     payload = ProcessExit (classified_leader 256 (Exited 1) (Unresolved Evicted))\<rparr>"

lemma sample_event_ok: "event_ok simple_lib (anonymous sample_event)"
  by (simp add: event_ok_def anonymous_def sample_event_def EVENT_SCHEMA_VERSION_def in_i64_def attribution_ok_def
      lowercase_trim is_ascii_lowercase_def byte_def exit_ok_def classified_leader_def process_exit_new_def)

theorem event_survives_the_wire_witness:
  "decode_event simple_lib (encode_event simple_lib sample_event) = Ok (anonymous sample_event)"
  by (rule event_survives_the_wire) (rule lib_ok_simple, rule sample_event_ok)

theorem decoded_events_well_formed_witness:
  "event_ok simple_lib (anonymous sample_event) \<and> anonymous (anonymous sample_event) = anonymous sample_event"
  using decoded_events_well_formed [OF lib_ok_simple event_roundtrip [OF lib_ok_simple sample_event_ok]] by simp

end
