(* ===== verification/Protocol_Resources.thy ===== *)
theory Protocol_Resources
  imports Protocol_Values
begin

text \<open>
  The other messages an agent sends (\<open>crates/protocol/src/lib.rs\<close>): resource aggregates, the
  evidence of a workload's revision and the readiness snapshots of a revision. Each pair of
  conversions is a \<open>codec\<close>.
\<close>

section \<open>Resource aggregates\<close>

fun resource_error_text :: "resource_validation_error \<Rightarrow> string" where
  "resource_error_text SchemaVersion = ''unsupported resource schema version''"
| "resource_error_text Interval = ''resource interval is invalid or outside bounds''"
| "resource_error_text Coverage = ''resource coverage exceeds the aggregate interval''"
| "resource_error_text Empty = ''resource aggregate contains no samples''"
| "resource_error_text (Identity field) = ''resource identity field '' @ field @ '' is invalid''"
| "resource_error_text CpuLimit = ''resource limit pair is incomplete''"

text \<open>The text of a failed integer conversion.\<close>

definition try_from_int_error :: string where
  "try_from_int_error = ''out of range integral type conversion attempted''"

definition decode_resource_values :: "v1_resource_values \<Rightarrow> resource_values" where
  "decode_resource_values v =
     \<lparr>cpu_usage_usec = v1_cpu_usage_usec v, cpu_nr_periods = v1_cpu_nr_periods v,
      cpu_nr_throttled = v1_cpu_nr_throttled v, cpu_throttled_usec = v1_cpu_throttled_usec v,
      cpu_quota_usec = v1_cpu_quota_usec v, cpu_period_usec = v1_cpu_period_usec v,
      memory_current_sum_bytes = v1_memory_current_sum_bytes v,
      memory_current_min_bytes = v1_memory_current_min_bytes v,
      memory_current_max_bytes = v1_memory_current_max_bytes v,
      memory_anon_sum_bytes = v1_memory_anon_sum_bytes v,
      memory_file_sum_bytes = v1_memory_file_sum_bytes v, memory_limit_bytes = v1_memory_limit_bytes v,
      memory_high_events = v1_memory_high_events v, memory_max_events = v1_memory_max_events v,
      memory_oom_events = v1_memory_oom_events v, memory_oom_kill_events = v1_memory_oom_kill_events v,
      cpu_psi_some_usec = v1_cpu_psi_some_usec v, cpu_psi_full_usec = v1_cpu_psi_full_usec v,
      memory_psi_some_usec = v1_memory_psi_some_usec v, memory_psi_full_usec = v1_memory_psi_full_usec v,
      io_psi_some_usec = v1_io_psi_some_usec v, io_psi_full_usec = v1_io_psi_full_usec v,
      io_read_bytes = v1_io_read_bytes v, io_write_bytes = v1_io_write_bytes v,
      io_read_operations = v1_io_read_operations v, io_write_operations = v1_io_write_operations v,
      pids_current_sum = v1_pids_current_sum v, pids_current_max = v1_pids_current_max v,
      pids_limit = v1_pids_limit v, pids_max_events = v1_pids_max_events v\<rparr>"

definition encode_resource_values :: "resource_values \<Rightarrow> v1_resource_values" where
  "encode_resource_values v =
     \<lparr>v1_cpu_usage_usec = cpu_usage_usec v, v1_cpu_nr_periods = cpu_nr_periods v,
      v1_cpu_nr_throttled = cpu_nr_throttled v, v1_cpu_throttled_usec = cpu_throttled_usec v,
      v1_cpu_quota_usec = cpu_quota_usec v, v1_cpu_period_usec = cpu_period_usec v,
      v1_memory_current_sum_bytes = memory_current_sum_bytes v,
      v1_memory_current_min_bytes = memory_current_min_bytes v,
      v1_memory_current_max_bytes = memory_current_max_bytes v,
      v1_memory_anon_sum_bytes = memory_anon_sum_bytes v,
      v1_memory_file_sum_bytes = memory_file_sum_bytes v, v1_memory_limit_bytes = memory_limit_bytes v,
      v1_memory_high_events = memory_high_events v, v1_memory_max_events = memory_max_events v,
      v1_memory_oom_events = memory_oom_events v, v1_memory_oom_kill_events = memory_oom_kill_events v,
      v1_cpu_psi_some_usec = cpu_psi_some_usec v, v1_cpu_psi_full_usec = cpu_psi_full_usec v,
      v1_memory_psi_some_usec = memory_psi_some_usec v, v1_memory_psi_full_usec = memory_psi_full_usec v,
      v1_io_psi_some_usec = io_psi_some_usec v, v1_io_psi_full_usec = io_psi_full_usec v,
      v1_io_read_bytes = io_read_bytes v, v1_io_write_bytes = io_write_bytes v,
      v1_io_read_operations = io_read_operations v, v1_io_write_operations = io_write_operations v,
      v1_pids_current_sum = pids_current_sum v, v1_pids_current_max = pids_current_max v,
      v1_pids_limit = pids_limit v, v1_pids_max_events = pids_max_events v\<rparr>"

definition encode_aggregate :: "wire_lib \<Rightarrow> resource_aggregate \<Rightarrow> v1_resource_aggregate" where
  "encode_aggregate L a =
     \<lparr>v1_aggregate_id = uuid_to_string L (ra_id a), v1_ra_schema_version = ucast (ra_schema_version a),
      v1_interval_start = encode_time L (interval_start a), v1_interval_end = encode_time L (interval_end a),
      v1_covered_usec = covered_usec a, v1_sample_count = sample_count a,
      v1_contributing_containers = contributing_containers a,
      v1_ra_namespace = ra_namespace a, v1_ra_workload_uid = ra_workload_uid a,
      v1_ra_workload_kind = ra_workload_kind a, v1_ra_workload_name = ra_workload_name a,
      v1_ra_container_name = ra_container_name a, v1_ra_node_name = ra_node_name a,
      v1_ra_release_identity = map_option encode_release_identity (ra_release_identity a),
      v1_unavailable_sources = unavailable_sources a,
      v1_values = Some (encode_resource_values (ra_values a)), v1_ready_containers = ready_containers a\<rparr>"

definition decode_aggregate :: "wire_lib \<Rightarrow> v1_resource_aggregate \<Rightarrow> (resource_aggregate, protocol_error) result" where
  "decode_aggregate L a =
     res_bind (ok_or (Missing ''resource.values'') (v1_values a)) (\<lambda>values.
     res_bind (parse_uuid L ''aggregate_id'' (v1_aggregate_id a)) (\<lambda>aid.
     res_bind (try_u16 (InvalidResource try_from_int_error) (v1_ra_schema_version a)) (\<lambda>version.
     res_bind (timestamp L (v1_interval_start a)) (\<lambda>start.
     res_bind (timestamp L (v1_interval_end a)) (\<lambda>finish.
     res_bind (opt_try (decode_release_identity L) (v1_ra_release_identity a)) (\<lambda>ri.
       let aggregate = \<lparr>ra_id = aid, ra_schema_version = version, interval_start = start,
             interval_end = finish, covered_usec = v1_covered_usec a, sample_count = v1_sample_count a,
             contributing_containers = v1_contributing_containers a,
             ready_containers = v1_ready_containers a, ra_namespace = v1_ra_namespace a,
             ra_workload_uid = v1_ra_workload_uid a, ra_workload_kind = v1_ra_workload_kind a,
             ra_workload_name = v1_ra_workload_name a, ra_container_name = v1_ra_container_name a,
             ra_node_name = v1_ra_node_name a, ra_release_identity = ri,
             unavailable_sources = v1_unavailable_sources a,
             ra_values = decode_resource_values values\<rparr> in
       res_bind (map_err (\<lambda>e. InvalidResource (resource_error_text e)) (validate_aggregate aggregate)) (\<lambda>_.
         Ok aggregate)))))))"

section \<open>Revision evidence\<close>

definition encode_revision :: "wire_lib \<Rightarrow> workload_revision_evidence \<Rightarrow> v1_workload_revision_evidence" where
  "encode_revision L e =
     \<lparr>v1_evidence_id = evidence_id e, v1_we_observed_at = encode_time L (wr_observed_at e),
      v1_we_namespace = wr_namespace e, v1_we_workload_uid = wr_workload_uid e,
      v1_we_workload_kind = wr_workload_kind e, v1_we_workload_name = wr_workload_name e,
      v1_replica_set_uid = replica_set_uid e, v1_replica_set_name = replica_set_name e,
      v1_we_pod_uid = wr_pod_uid e, v1_pod_template_hash = pod_template_hash e,
      v1_we_release_identity = Some (encode_release_identity (wr_release_identity e)),
      v1_ready = ready e\<rparr>"

definition decode_revision ::
    "wire_lib \<Rightarrow> v1_workload_revision_evidence \<Rightarrow> (workload_revision_evidence, protocol_error) result" where
  "decode_revision L e =
     res_bind (require_bounded ''evidence_id'' (v1_evidence_id e) 200) (\<lambda>_.
     res_bind (require_bounded ''namespace'' (v1_we_namespace e) 253) (\<lambda>_.
     res_bind (require_bounded ''workload_uid'' (v1_we_workload_uid e) 253) (\<lambda>_.
     res_bind (require_bounded ''workload_kind'' (v1_we_workload_kind e) 64) (\<lambda>_.
     res_bind (require_bounded ''workload_name'' (v1_we_workload_name e) 253) (\<lambda>_.
     res_bind (require_bounded ''replica_set_uid'' (v1_replica_set_uid e) 253) (\<lambda>_.
     res_bind (require_bounded ''replica_set_name'' (v1_replica_set_name e) 253) (\<lambda>_.
     res_bind (require_bounded ''pod_uid'' (v1_we_pod_uid e) 253) (\<lambda>_.
     if (case v1_pod_template_hash e of None \<Rightarrow> False | Some v \<Rightarrow> v = [] \<or> length v > 253)
     then Err InvalidReleaseIdentity
     else
       res_bind (timestamp L (v1_we_observed_at e)) (\<lambda>observed.
       res_bind (ok_or (Missing ''release_identity'') (v1_we_release_identity e)) (\<lambda>r.
       res_bind (decode_release_identity L r) (\<lambda>ri.
         Ok \<lparr>evidence_id = v1_evidence_id e, wr_observed_at = observed, wr_namespace = v1_we_namespace e,
             wr_workload_uid = v1_we_workload_uid e, wr_workload_kind = v1_we_workload_kind e,
             wr_workload_name = v1_we_workload_name e, replica_set_uid = v1_replica_set_uid e,
             replica_set_name = v1_replica_set_name e, wr_pod_uid = v1_we_pod_uid e,
             pod_template_hash = v1_pod_template_hash e, wr_release_identity = ri,
             ready = v1_ready e\<rparr>)))))))))))"

definition encode_snapshot :: "wire_lib \<Rightarrow> revision_readiness_snapshot \<Rightarrow> v1_revision_readiness_snapshot" where
  "encode_snapshot L s =
     \<lparr>v1_snapshot_id = snapshot_id s, v1_rs_observed_at = encode_time L (rs_observed_at s),
      v1_initialized = initialized s, v1_continuous = continuous s,
      v1_revision_digest = rs_revision_digest s, v1_pod_count = pod_count s,
      v1_ready_pod_count = ready_pod_count s, v1_workload_ready_pod_count = workload_ready_pod_count s\<rparr>"

definition decode_snapshot ::
    "wire_lib \<Rightarrow> v1_revision_readiness_snapshot \<Rightarrow> (revision_readiness_snapshot, protocol_error) result" where
  "decode_snapshot L s =
     res_bind (require_bounded ''snapshot_id'' (v1_snapshot_id s) 200) (\<lambda>_.
     if v1_ready_pod_count s > v1_pod_count s \<or> v1_ready_pod_count s > v1_workload_ready_pod_count s
     then Err InvalidReleaseIdentity
     else
       res_bind (timestamp L (v1_rs_observed_at s)) (\<lambda>observed.
       res_bind (try_array InvalidReleaseIdentity 32 (v1_revision_digest s)) (\<lambda>digest.
         Ok \<lparr>snapshot_id = v1_snapshot_id s, rs_observed_at = observed, initialized = v1_initialized s,
             continuous = v1_continuous s, rs_revision_digest = digest, pod_count = v1_pod_count s,
             ready_pod_count = v1_ready_pod_count s,
             workload_ready_pod_count = v1_workload_ready_pod_count s\<rparr>)))"

section \<open>Round trips\<close>

definition aggregate_ok :: "wire_lib \<Rightarrow> resource_aggregate \<Rightarrow> bool" where
  "aggregate_ok L a \<longleftrightarrow>
     in_i64 (interval_start a) \<and> in_i64 (interval_end a)
     \<and> pred_option (release_ok L) (ra_release_identity a) \<and> validate_aggregate a = Ok ()"

definition bounded_ok :: "nat \<Rightarrow> string \<Rightarrow> bool" where
  "bounded_ok limit v \<longleftrightarrow> v \<noteq> [] \<and> length v \<le> limit \<and> trimmed v"

definition revision_ok :: "wire_lib \<Rightarrow> workload_revision_evidence \<Rightarrow> bool" where
  "revision_ok L e \<longleftrightarrow>
     bounded_ok 200 (evidence_id e) \<and> bounded_ok 64 (wr_workload_kind e)
     \<and> list_all (bounded_ok 253) [wr_namespace e, wr_workload_uid e, wr_workload_name e, replica_set_uid e,
         replica_set_name e, wr_pod_uid e]
     \<and> pred_option (\<lambda>v. v \<noteq> [] \<and> length v \<le> 253) (pod_template_hash e)
     \<and> in_i64 (wr_observed_at e) \<and> release_ok L (wr_release_identity e)"

definition snapshot_ok :: "revision_readiness_snapshot \<Rightarrow> bool" where
  "snapshot_ok s \<longleftrightarrow>
     bounded_ok 200 (snapshot_id s) \<and> in_i64 (rs_observed_at s) \<and> length (rs_revision_digest s) = 32
     \<and> ready_pod_count s \<le> pod_count s \<and> ready_pod_count s \<le> workload_ready_pod_count s"

lemma resource_values_roundtrip: "decode_resource_values (encode_resource_values v) = v"
  by (simp add: decode_resource_values_def encode_resource_values_def)

lemma require_bounded_Ok [result_laws]: "require_bounded f v n = Ok u \<longleftrightarrow> bounded_ok n v"
  by (auto simp: require_bounded_def bounded_ok_def trim_eq_iff)

lemma require_bounded_simp [simp]: "bounded_ok n v \<Longrightarrow> require_bounded f v n = Ok ()"
  by (simp add: result_laws)

interpretation aggregate_codec: codec "encode_aggregate (fixed L)" "decode_aggregate (fixed L)" "aggregate_ok (fixed L)"
proof
  show "aggregate_ok (fixed L) x \<Longrightarrow> decode_aggregate (fixed L) (encode_aggregate (fixed L) x) = Ok x" for x
    by (cases x) (simp add: aggregate_ok_def encode_aggregate_def decode_aggregate_def uuid_roundtrip timestamp_eq
        encode_time_roundtrip ucast_roundtrip release_codec.option_roundtrip resource_values_roundtrip Let_def)
  show "decode_aggregate (fixed L) m = Ok x \<Longrightarrow> aggregate_ok (fixed L) x" for m x
    by (auto simp: decode_aggregate_def result_laws aggregate_ok_def timestamp_eq Let_def
        dest: release_codec.decode_wf)
qed

interpretation revision_codec: codec "encode_revision (fixed L)" "decode_revision (fixed L)" "revision_ok (fixed L)"
proof
  show "decode_revision (fixed L) (encode_revision (fixed L) x) = Ok x" if "revision_ok (fixed L) x" for x
  proof -
    have "\<not> (case pod_template_hash x of None \<Rightarrow> False | Some v \<Rightarrow> v = [] \<or> length v > 253)"
      using that by (auto simp: revision_ok_def split: option.splits)
    with that show ?thesis
      by (simp add: revision_ok_def encode_revision_def decode_revision_def timestamp_eq
          encode_time_roundtrip release_codec.decode_encode)
  qed
  show "decode_revision (fixed L) m = Ok x \<Longrightarrow> revision_ok (fixed L) x" for m x
    by (clarsimp simp: decode_revision_def result_laws revision_ok_def timestamp_eq
        release_codec.decode_wf split: if_splits option.splits)
qed

interpretation snapshot_codec: codec "encode_snapshot (fixed L)" "decode_snapshot (fixed L)" snapshot_ok
proof
  show "snapshot_ok x \<Longrightarrow> decode_snapshot (fixed L) (encode_snapshot (fixed L) x) = Ok x" for x
    by (cases x) (auto simp: snapshot_ok_def encode_snapshot_def decode_snapshot_def timestamp_eq
        encode_time_roundtrip try_array_def)
  show "decode_snapshot (fixed L) m = Ok x \<Longrightarrow> snapshot_ok x" for m x
    by (auto simp: decode_snapshot_def result_laws snapshot_ok_def timestamp_eq split: if_splits)
qed


definition sample_snapshot :: revision_readiness_snapshot where
  "sample_snapshot = \<lparr>snapshot_id = ''s'', rs_observed_at = 5, initialized = True, continuous = False,
     rs_revision_digest = replicate 32 0, pod_count = 3, ready_pod_count = 2, workload_ready_pod_count = 2\<rparr>"


end
