(* ===== verification/Inventory_Projection.thy ===== *)
theory Inventory_Projection
  imports Event_Groups
begin

text \<open>
  The Application's runtime inventory in the server's database: the tables
  \<open>runtime_inventory_items\<close>, \<open>runtime_inventory_event_memberships\<close>, \<open>runtime_inventory_group_links\<close>,
  \<open>runtime_inventory_releases\<close> and \<open>runtime_inventory_sightings\<close>, the statements of
  \<open>crates/server/src/repository/inventory.rs\<close> that write them, and \<open>project_event\<close>
  (\<open>crates/server/src/inventory.rs\<close>), which projects a stored event onto its item.

  \<open>inventory_ok\<close> is the consistency of these tables: identifiers and identities are unique, the
  occurrence count of an item is the number of its events and the sum of its sightings over all
  placements, and no item has more occurrences in releases than it has events.
\<close>

section \<open>Tables\<close>

record item_key =
  ik_scope :: inventory_scope
  ik_kind :: inventory_kind
  ik_version :: nat
  ik_digest :: "u8 list"

record item_row =
  it_id :: uuid
  it_key :: item_key
  it_semantic :: json
  it_first_seen_at :: datetime
  it_last_seen_at :: datetime
  it_occurrence_count :: nat

record item_membership =
  im_scope :: inventory_scope
  im_event_id :: uuid
  im_item_id :: uuid
  im_version :: nat

record group_link =
  gl_item_id :: uuid
  gl_group_id :: uuid

record item_release_row =
  ir_item_id :: uuid
  ir_release_id :: uuid
  ir_occurrence_count :: nat
  ir_first_seen_at :: datetime
  ir_last_seen_at :: datetime

record sighting_key =
  sk_item_id :: uuid
  sk_cluster_id :: uuid
  sk_namespace :: string
  sk_workload_kind :: string
  sk_workload_name :: string
  sk_pod_uid :: string
  sk_container_name :: string

record sighting_row =
  sg_key :: sighting_key
  sg_pod_name :: string
  sg_occurrence_count :: nat
  sg_first_seen_at :: datetime
  sg_last_seen_at :: datetime

record inventory_tables =
  items :: "item_row list"
  item_memberships :: "item_membership list"
  group_links :: "group_link list"
  item_releases :: "item_release_row list"
  sightings :: "sighting_row list"

section \<open>Statements\<close>

definition insert_item ::
    "uuid \<Rightarrow> item_key \<Rightarrow> json \<Rightarrow> datetime \<Rightarrow> inventory_tables \<Rightarrow> inventory_tables \<times> uuid option" where
  "insert_item candidate k semantic observed_at t =
     (case insert_new it_key \<lparr>it_id = candidate, it_key = k, it_semantic = semantic,
             it_first_seen_at = observed_at, it_last_seen_at = observed_at,
             it_occurrence_count = 1\<rparr> (items t) of
        (rows, inserted) \<Rightarrow> (t\<lparr>items := rows\<rparr>, if inserted then Some candidate else None))"

definition item_by_key :: "item_key \<Rightarrow> inventory_tables \<Rightarrow> item_row option" where
  "item_by_key k t = find (\<lambda>r. it_key r = k) (items t)"

definition item_id_by_identity :: "item_key \<Rightarrow> inventory_tables \<Rightarrow> (uuid, db_error) result" where
  "item_id_by_identity k t = ok_or RowNotFound (map_option it_id (item_by_key k t))"

definition member_key :: "item_membership \<Rightarrow> uuid \<times> nat" where
  "member_key m = (im_event_id m, im_version m)"

definition add_event_membership ::
    "item_membership \<Rightarrow> inventory_tables \<Rightarrow> inventory_tables \<times> uuid option" where
  "add_event_membership m t =
     (case insert_new member_key m (item_memberships t) of
        (rows, inserted) \<Rightarrow>
          (t\<lparr>item_memberships := rows\<rparr>, if inserted then Some (im_event_id m) else None))"

definition item_occurrence_of :: "datetime \<Rightarrow> item_row \<Rightarrow> item_row" where
  "item_occurrence_of observed_at r =
     r\<lparr>it_first_seen_at := (if it_occurrence_count r = 0 then observed_at
                           else min (it_first_seen_at r) observed_at),
       it_last_seen_at := (if it_occurrence_count r = 0 then observed_at
                          else max (it_last_seen_at r) observed_at),
       it_occurrence_count := it_occurrence_count r + 1\<rparr>"

definition record_item_occurrence :: "uuid \<Rightarrow> datetime \<Rightarrow> inventory_tables \<Rightarrow> inventory_tables" where
  "record_item_occurrence iid observed_at t =
     t\<lparr>items := update_where (\<lambda>r. it_id r = iid) (item_occurrence_of observed_at) (items t)\<rparr>"

text \<open>
  \<open>jsonb_set\<close> on an object, and a boolean field of an object that is absent or \<open>NULL\<close> read as
  false. The summary of an inbound endpoint is an object whose two fields are booleans.
\<close>

fun jsonb_set :: "string \<Rightarrow> json \<Rightarrow> json \<Rightarrow> json" where
  "jsonb_set k v (JObject fs) =
     JObject (if k \<in> fst ` set fs then map (\<lambda>(x, y). (x, if x = k then v else y)) fs else fs @ [(k, v)])"
| "jsonb_set k v j = j"

fun json_flag :: "string \<Rightarrow> json \<Rightarrow> bool" where
  "json_flag k (JObject fs) = (case map_of fs k of Some (JBool b) \<Rightarrow> b | _ \<Rightarrow> False)"
| "json_flag k j = False"

definition inbound_summary :: "bool \<Rightarrow> bool \<Rightarrow> json \<Rightarrow> json" where
  "inbound_summary listener accepted j =
     jsonb_set ''accept_observed'' (JBool (json_flag ''accept_observed'' j \<or> accepted))
       (jsonb_set ''listener_observed'' (JBool (json_flag ''listener_observed'' j \<or> listener)) j)"

definition record_inbound_occurrence ::
    "uuid \<Rightarrow> datetime \<Rightarrow> bool \<Rightarrow> bool \<Rightarrow> inventory_tables \<Rightarrow> inventory_tables" where
  "record_inbound_occurrence iid observed_at listener accepted t =
     t\<lparr>items := update_where (\<lambda>r. it_id r = iid)
         (\<lambda>r. (item_occurrence_of observed_at r)\<lparr>it_semantic := inbound_summary listener accepted (it_semantic r)\<rparr>)
         (items t)\<rparr>"

definition link_group :: "uuid \<Rightarrow> uuid \<Rightarrow> inventory_tables \<Rightarrow> inventory_tables" where
  "link_group iid gid t =
     t\<lparr>group_links := fst (insert_new id \<lparr>gl_item_id = iid, gl_group_id = gid\<rparr> (group_links t))\<rparr>"

definition item_release_key :: "item_release_row \<Rightarrow> uuid \<times> uuid" where
  "item_release_key r = (ir_item_id r, ir_release_id r)"

definition item_release_occurrence_of :: "datetime \<Rightarrow> item_release_row \<Rightarrow> item_release_row" where
  "item_release_occurrence_of observed_at r =
     r\<lparr>ir_occurrence_count := ir_occurrence_count r + 1,
       ir_first_seen_at := min (ir_first_seen_at r) observed_at,
       ir_last_seen_at := max (ir_last_seen_at r) observed_at\<rparr>"

definition record_item_release_occurrence ::
    "uuid \<Rightarrow> uuid \<Rightarrow> datetime \<Rightarrow> inventory_tables \<Rightarrow> inventory_tables" where
  "record_item_release_occurrence iid rel observed_at t =
     t\<lparr>item_releases := upsert item_release_key (item_release_occurrence_of observed_at)
         \<lparr>ir_item_id = iid, ir_release_id = rel, ir_occurrence_count = 1,
          ir_first_seen_at = observed_at, ir_last_seen_at = observed_at\<rparr> (item_releases t)\<rparr>"

definition sighting_of :: "string \<Rightarrow> datetime \<Rightarrow> sighting_row \<Rightarrow> sighting_row" where
  "sighting_of pod observed_at r =
     r\<lparr>sg_occurrence_count := sg_occurrence_count r + 1,
       sg_first_seen_at := min (sg_first_seen_at r) observed_at,
       sg_last_seen_at := max (sg_last_seen_at r) observed_at, sg_pod_name := pod\<rparr>"

definition record_sighting :: "sighting_key \<Rightarrow> string \<Rightarrow> datetime \<Rightarrow> inventory_tables \<Rightarrow> inventory_tables" where
  "record_sighting k pod observed_at t =
     t\<lparr>sightings := upsert sg_key (sighting_of pod observed_at)
         \<lparr>sg_key = k, sg_pod_name = pod, sg_occurrence_count = 1, sg_first_seen_at = observed_at,
          sg_last_seen_at = observed_at\<rparr> (sightings t)\<rparr>"

definition link_event_items_to_group ::
    "inventory_scope \<Rightarrow> uuid \<Rightarrow> uuid \<Rightarrow> nat \<Rightarrow> inventory_tables \<Rightarrow> inventory_tables" where
  "link_event_items_to_group scope gid ev version t =
     fold (\<lambda>m. link_group (im_item_id m) gid)
       (filter (\<lambda>m. im_scope m = scope \<and> im_event_id m = ev \<and> im_version m = version) (item_memberships t)) t"

interpretation item_release: counted_rows item_release_key ir_occurrence_count ir_first_seen_at
    ir_last_seen_at item_release_occurrence_of
  by unfold_locales (simp_all add: item_release_key_def item_release_occurrence_of_def)

interpretation sighting: counted_rows sg_key sg_occurrence_count sg_first_seen_at sg_last_seen_at
    "sighting_of pod" for pod
  by unfold_locales (simp_all add: sighting_of_def)

section \<open>Projecting an event\<close>

record projection_outcome =
  po_item_id :: uuid
  po_item_created :: bool
  po_membership_created :: bool

fun inbound_evidence :: "event_payload \<Rightarrow> (bool \<times> bool) option" where
  "inbound_evidence (NetworkListen _) = Some (True, False)"
| "inbound_evidence (NetworkAccept _) = Some (False, True)"
| "inbound_evidence _ = None"

definition scope_of :: "uuid \<Rightarrow> runtime_event \<Rightarrow> inventory_scope" where
  "scope_of org e = \<lparr>is_organization_id = org, is_project_id = project_id (attribution e),
     is_application_id = application_id (attribution e)\<rparr>"

definition item_key_of :: "inventory_scope \<Rightarrow> inventory_fingerprint \<Rightarrow> item_key" where
  "item_key_of scope f = \<lparr>ik_scope = scope, ik_kind = if_kind f, ik_version = unat (if_version f),
     ik_digest = if_digest f\<rparr>"

definition sighting_at :: "uuid \<Rightarrow> uuid \<Rightarrow> kubernetes_attribution \<Rightarrow> sighting_key" where
  "sighting_at iid cluster a = \<lparr>sk_item_id = iid, sk_cluster_id = cluster, sk_namespace = namespace a,
     sk_workload_kind = workload_kind a, sk_workload_name = workload_name a, sk_pod_uid = pod_uid a,
     sk_container_name = container_name a\<rparr>"

definition count_item :: "uuid \<Rightarrow> runtime_event \<Rightarrow> inventory_tables \<Rightarrow> inventory_tables" where
  "count_item iid e t =
     (case inbound_evidence (payload e) of
        Some (listener, accepted) \<Rightarrow> record_inbound_occurrence iid (event_observed_at e) listener accepted t
      | None \<Rightarrow> record_item_occurrence iid (event_observed_at e) t)"

definition with_item_release :: "uuid option \<Rightarrow> uuid \<Rightarrow> datetime \<Rightarrow> inventory_tables \<Rightarrow> inventory_tables" where
  "with_item_release release_id iid observed_at t =
     (case release_id of
        Some rel \<Rightarrow> record_item_release_occurrence iid rel observed_at t
      | None \<Rightarrow> t)"

definition project_event ::
    "serde_lib \<Rightarrow> (u8 list \<Rightarrow> u8 list) \<Rightarrow> uuid \<Rightarrow> uuid \<Rightarrow> uuid \<Rightarrow> uuid option \<Rightarrow> uuid \<Rightarrow> uuid \<Rightarrow>
       runtime_event \<Rightarrow> inventory_tables \<Rightarrow> (inventory_tables \<times> projection_outcome, db_error) result" where
  "project_event S sha candidate raw_event_id gid release_id cluster org e t =
     (let scope = scope_of org e
      in res_bind (map_err ProtocolFailure (inventory_fingerprint_of S sha scope e)) (\<lambda>f.
        let key = item_key_of scope f;
            (t1, created) = insert_item candidate key (if_semantic f) (event_observed_at e) t
        in res_bind (case created of Some iid \<Rightarrow> Ok iid | None \<Rightarrow> item_id_by_identity key t1) (\<lambda>iid.
          let (t2, added) = add_event_membership \<lparr>im_scope = scope, im_event_id = raw_event_id,
                              im_item_id = iid, im_version = unat (if_version f)\<rparr> t1
          in if added = None
             then Ok (t2, \<lparr>po_item_id = iid, po_item_created = False, po_membership_created = False\<rparr>)
             else
               let t3 = (if created = None then count_item iid e t2 else t2);
                   t4 = link_group iid gid t3;
                   t5 = with_item_release release_id iid (event_observed_at e) t4;
                   t6 = record_sighting (sighting_at iid cluster (attribution e))
                          (pod_name (attribution e)) (event_observed_at e) t5
               in Ok (t6, \<lparr>po_item_id = iid, po_item_created = (created \<noteq> None),
                           po_membership_created = True\<rparr>))))"

section \<open>Consistency of the tables\<close>

definition events_of :: "uuid \<Rightarrow> inventory_tables \<Rightarrow> nat" where
  "events_of iid t = length (filter (\<lambda>m. im_item_id m = iid) (item_memberships t))"

definition sighted :: "uuid \<Rightarrow> inventory_tables \<Rightarrow> nat" where
  "sighted iid t = tally sg_key sg_occurrence_count (\<lambda>k. sk_item_id k = iid) (sightings t)"

definition released :: "uuid \<Rightarrow> inventory_tables \<Rightarrow> nat" where
  "released iid t = tally item_release_key ir_occurrence_count (\<lambda>k. fst k = iid) (item_releases t)"

definition items_ok :: "inventory_tables \<Rightarrow> bool" where
  "items_ok t \<longleftrightarrow>
     distinct (map it_id (items t)) \<and> distinct (map it_key (items t))
     \<and> distinct (map member_key (item_memberships t))
     \<and> (\<forall>m \<in> set (item_memberships t). im_item_id m \<in> it_id ` set (items t))
     \<and> (\<forall>r \<in> set (items t). it_occurrence_count r = events_of (it_id r) t
          \<and> it_first_seen_at r \<le> it_last_seen_at r)"

definition rollups_ok :: "inventory_tables \<Rightarrow> bool" where
  "rollups_ok t \<longleftrightarrow>
     sighting.counted (sightings t) \<and> (\<forall>iid. sighted iid t = events_of iid t)
     \<and> item_release.counted (item_releases t) \<and> (\<forall>iid. released iid t \<le> events_of iid t)
     \<and> distinct (group_links t) \<and> (\<forall>l \<in> set (group_links t). gl_item_id l \<in> it_id ` set (items t))"

definition inventory_ok :: "inventory_tables \<Rightarrow> bool" where
  "inventory_ok t \<longleftrightarrow> items_ok t \<and> rollups_ok t"

lemma rollup_simps [simp]:
  "items (record_sighting k pod at t) = items t"
  "item_memberships (record_sighting k pod at t) = item_memberships t"
  "item_releases (record_sighting k pod at t) = item_releases t"
  "group_links (record_sighting k pod at t) = group_links t"
  "items (with_item_release rel iid at t) = items t"
  "item_memberships (with_item_release rel iid at t) = item_memberships t"
  "sightings (with_item_release rel iid at t) = sightings t"
  "group_links (with_item_release rel iid at t) = group_links t"
  "items (link_group iid gid t) = items t"
  "item_memberships (link_group iid gid t) = item_memberships t"
  "item_releases (link_group iid gid t) = item_releases t"
  "sightings (link_group iid gid t) = sightings t"
  by (simp_all add: record_sighting_def with_item_release_def record_item_release_occurrence_def
      link_group_def split: option.splits)

lemma count_item_simps [simp]:
  "item_memberships (count_item iid e t) = item_memberships t"
  "item_releases (count_item iid e t) = item_releases t"
  "sightings (count_item iid e t) = sightings t" "group_links (count_item iid e t) = group_links t"
  by (simp_all add: count_item_def record_inbound_occurrence_def record_item_occurrence_def
      split: option.splits prod.splits)

lemma item_occurrence_of_simps [simp]:
  "it_id (item_occurrence_of at r) = it_id r" "it_key (item_occurrence_of at r) = it_key r"
  "it_occurrence_count (item_occurrence_of at r) = Suc (it_occurrence_count r)"
  by (simp_all add: item_occurrence_of_def)

text \<open>Counting an item changes one row: its count grows and its window covers the sighting.\<close>

definition counted_once :: "datetime \<Rightarrow> item_row \<Rightarrow> item_row \<Rightarrow> bool" where
  "counted_once at r r' \<longleftrightarrow> it_id r' = it_id r \<and> it_key r' = it_key r
     \<and> it_occurrence_count r' = it_occurrence_count r + 1
     \<and> (it_first_seen_at r \<le> it_last_seen_at r \<longrightarrow>
          it_first_seen_at r' \<le> at \<and> at \<le> it_last_seen_at r')"

lemma count_item_row:
  obtains f where "\<And>r. counted_once (event_observed_at e) r (f r)"
    "items (count_item iid e t) = update_where (\<lambda>r. it_id r = iid) f (items t)"
proof (cases "inbound_evidence (payload e)")
  case None
  show ?thesis
    by (rule that [of "item_occurrence_of (event_observed_at e)"])
      (simp_all add: None counted_once_def item_occurrence_of_def count_item_def record_item_occurrence_def)
next
  case (Some p)
  obtain listener accepted where "p = (listener, accepted)" by fastforce
  with Some show ?thesis
    by (intro that [of "\<lambda>r. (item_occurrence_of (event_observed_at e) r)
        \<lparr>it_semantic := inbound_summary listener accepted (it_semantic r)\<rparr>"])
      (simp_all add: counted_once_def item_occurrence_of_def count_item_def record_inbound_occurrence_def)
qed

lemma recorded_ok:
  assumes ok: "rollups_ok t" and m: "item_memberships t' = item_memberships t @ [m]" "im_item_id m = iid"
    and same: "sightings t' = sightings t" "item_releases t' = item_releases t" "group_links t' = group_links t"
    and ids: "it_id ` set (items t) \<subseteq> it_id ` set (items t')" "iid \<in> it_id ` set (items t')"
    and k: "sk_item_id k = iid"
  shows "rollups_ok (record_sighting k pod at (with_item_release rel iid at (link_group iid gid t')))"
proof -
  let ?t = "record_sighting k pod at (with_item_release rel iid at (link_group iid gid t'))"
  have events: "events_of i ?t = events_of i t + (if i = iid then 1 else 0)" for i
    using m by (simp add: events_of_def)
  have "sighting.counted (sightings ?t)" "sighted i ?t = sighted i t + (if i = iid then 1 else 0)" for i
    using ok same k by (auto simp: rollups_ok_def record_sighting_def sighted_def sighting.upsert_tally
        intro!: sighting.upsert_counted)
  moreover have rel: "item_release.counted (item_releases ?t)"
    "released i ?t \<le> released i t + (if i = iid then 1 else 0)" for i
    using ok same by (auto simp: rollups_ok_def record_item_release_occurrence_def released_def
        with_item_release_def item_release.upsert_tally item_release_key_def
        split: option.splits intro!: item_release.upsert_counted)
  moreover have "distinct (group_links ?t)"
    "\<forall>l \<in> set (group_links ?t). gl_item_id l \<in> it_id ` set (items ?t)"
    using ok same ids by (auto simp: rollups_ok_def link_group_def insert_new_def)
  moreover have "released i ?t \<le> events_of i ?t" for i
    using ok rel(2) [of i] unfolding events by (auto simp: rollups_ok_def intro: le_trans)
  moreover have "sighted i t = events_of i t" for i using ok by (simp add: rollups_ok_def)
  ultimately show ?thesis unfolding rollups_ok_def by (simp add: events)
qed

lemma items_founds:
  assumes ok: "items_ok t" and new: "iid \<notin> it_id ` set (items t)" "it_key row \<notin> it_key ` set (items t)"
    and m: "member_key m \<notin> member_key ` set (item_memberships t)" "im_item_id m = iid"
    and row: "it_id row = iid" "it_occurrence_count row = 1" "it_first_seen_at row \<le> it_last_seen_at row"
  shows "items_ok (t\<lparr>items := items t @ [row], item_memberships := item_memberships t @ [m]\<rparr>)"
proof -
  have "events_of iid t = 0"
    using ok new(1) by (auto simp: items_ok_def events_of_def filter_empty_conv)
  with ok new m row show ?thesis by (auto simp: items_ok_def events_of_def)
qed

lemma items_joins:
  assumes ok: "items_ok t" and r: "r \<in> set (items t)"
    and m: "member_key m \<notin> member_key ` set (item_memberships t)" "im_item_id m = it_id r"
  shows "items_ok (count_item (it_id r) e (t\<lparr>item_memberships := item_memberships t @ [m]\<rparr>))"
    (is "items_ok ?t")
proof -
  obtain f where f: "\<And>r. counted_once (event_observed_at e) r (f r)"
    "items ?t = update_where (\<lambda>x. it_id x = it_id r) f (items t)"
    using count_item_row [of e "it_id r" "t\<lparr>item_memberships := item_memberships t @ [m]\<rparr>"] by auto
  have kept: "map it_id (items ?t) = map it_id (items t)" "map it_key (items ?t) = map it_key (items t)"
    "it_id ` set (items ?t) = it_id ` set (items t)"
    using f by (simp_all add: map_update_where image_update_where counted_once_def)
  have "it_occurrence_count x = events_of (it_id x) ?t
      \<and> it_first_seen_at x \<le> it_last_seen_at x" if "x \<in> set (items ?t)" for x
  proof -
    from that obtain y where y: "y \<in> set (items t)" "x = (if it_id y = it_id r then f y else y)"
      by (auto simp: f(2) in_update_where)
    have "it_occurrence_count y = events_of (it_id y) t"
      "it_first_seen_at y \<le> it_last_seen_at y" using ok y(1) by (auto simp: items_ok_def)
    with y(2) f(1) [of y] m(2) show ?thesis by (auto simp: counted_once_def events_of_def)
  qed
  moreover have "im_item_id x \<in> it_id ` set (items ?t)" if "x \<in> set (item_memberships ?t)" for x
    using that ok r m(2) unfolding kept by (auto simp: items_ok_def)
  ultimately show ?thesis using ok m(1) kept by (auto simp: items_ok_def)
qed

lemma item_by_key_Some: "item_by_key k t = Some r \<Longrightarrow> r \<in> set (items t) \<and> it_key r = k"
  by (auto simp: item_by_key_def find_Some_iff)

lemma item_by_key_None: "item_by_key k t = None \<longleftrightarrow> k \<notin> it_key ` set (items t)"
  by (auto simp: item_by_key_def find_None_iff)

lemma insert_item_cases:
  "insert_item cand k j at t =
     (if item_by_key k t = None
      then (t\<lparr>items := items t @ [\<lparr>it_id = cand, it_key = k, it_semantic = j, it_first_seen_at = at,
              it_last_seen_at = at, it_occurrence_count = 1\<rparr>]\<rparr>, Some cand)
      else (t, None))"
  by (simp add: insert_item_def insert_new_def item_by_key_None)

text \<open>What a successful projection of a new event leaves behind.\<close>

definition recorded :: "uuid \<Rightarrow> uuid \<Rightarrow> uuid option \<Rightarrow> uuid \<Rightarrow> runtime_event \<Rightarrow> inventory_tables \<Rightarrow> inventory_tables" where
  "recorded iid gid rel cluster e t =
     record_sighting (sighting_at iid cluster (attribution e)) (pod_name (attribution e)) (event_observed_at e)
       (with_item_release rel iid (event_observed_at e) (link_group iid gid t))"

lemma project_event_new:
  assumes f: "inventory_fingerprint_of S sha (scope_of org e) e = Ok f"
    and fresh: "(raw, unat (if_version f)) \<notin> member_key ` set (item_memberships t)"
  shows "project_event S sha cand raw gid rel cluster org e t =
    (let k = item_key_of (scope_of org e) f;
         m = \<lambda>iid. \<lparr>im_scope = scope_of org e, im_event_id = raw, im_item_id = iid,
                im_version = unat (if_version f)\<rparr>
     in case item_by_key k t of
          None \<Rightarrow> Ok (recorded cand gid rel cluster e
            (t\<lparr>items := items t @ [\<lparr>it_id = cand, it_key = k, it_semantic = if_semantic f,
                 it_first_seen_at = event_observed_at e, it_last_seen_at = event_observed_at e,
                 it_occurrence_count = 1\<rparr>],
               item_memberships := item_memberships t @ [m cand]\<rparr>),
            \<lparr>po_item_id = cand, po_item_created = True, po_membership_created = True\<rparr>)
        | Some r \<Rightarrow> Ok (recorded (it_id r) gid rel cluster e
            (count_item (it_id r) e (t\<lparr>item_memberships := item_memberships t @ [m (it_id r)]\<rparr>)),
            \<lparr>po_item_id = it_id r, po_item_created = False, po_membership_created = True\<rparr>))"
proof -
  have "add_event_membership \<lparr>im_scope = sc, im_event_id = raw, im_item_id = iid,
        im_version = unat (if_version f)\<rparr> t'
      = (t'\<lparr>item_memberships := item_memberships t @ [\<lparr>im_scope = sc, im_event_id = raw, im_item_id = iid,
          im_version = unat (if_version f)\<rparr>]\<rparr>, Some raw)"
    if "item_memberships t' = item_memberships t" for sc iid t'
    using fresh that by (simp add: add_event_membership_def insert_new_def member_key_def)
  with f show ?thesis
    by (cases "item_by_key (item_key_of (scope_of org e) f) t")
      (simp_all add: project_event_def Let_def insert_item_cases item_id_by_identity_def recorded_def)
qed

lemma recorded_simps [simp]:
  "items (recorded iid gid rel cluster e t) = items t"
  "item_memberships (recorded iid gid rel cluster e t) = item_memberships t"
  by (simp_all add: recorded_def)

lemma recorded_links:
  "\<lparr>gl_item_id = iid, gl_group_id = gid\<rparr> \<in> set (group_links (recorded iid gid rel cluster e t))"
  by (auto simp: recorded_def link_group_def insert_new_def)

lemma recorded_keeps_ok:
  assumes "rollups_ok t" and "items_ok t'" and "item_memberships t' = item_memberships t @ [m]"
    and "im_item_id m = iid" and "sightings t' = sightings t" and "item_releases t' = item_releases t"
    and "group_links t' = group_links t" and "it_id ` set (items t) \<subseteq> it_id ` set (items t')"
  shows "inventory_ok (recorded iid gid rel cluster e t')"
proof -
  have "iid \<in> it_id ` set (items t')" using assms(2-4) by (auto simp: items_ok_def)
  then have "rollups_ok (recorded iid gid rel cluster e t')"
    unfolding recorded_def using assms by (intro recorded_ok) (auto simp: sighting_at_def)
  moreover have "items_ok (recorded iid gid rel cluster e t')"
    using assms(2) by (simp add: items_ok_def events_of_def)
  ultimately show ?thesis by (simp add: inventory_ok_def)
qed

text \<open>Projecting an event a second time changes nothing.\<close>

lemma project_event_again:
  assumes "inventory_fingerprint_of S sha (scope_of org e) e = Ok f"
    and "item_by_key (item_key_of (scope_of org e) f) t = Some r"
    and "(raw, unat (if_version f)) \<in> member_key ` set (item_memberships t)"
  shows "project_event S sha cand raw gid rel cluster org e t
    = Ok (t, \<lparr>po_item_id = it_id r, po_item_created = False, po_membership_created = False\<rparr>)"
  using assms by (simp add: project_event_def Let_def insert_item_cases item_id_by_identity_def
      add_event_membership_def insert_new_def member_key_def)

definition counts_event :: "runtime_event \<Rightarrow> nat \<Rightarrow> item_row \<Rightarrow> bool" where
  "counts_event e before r \<longleftrightarrow> it_occurrence_count r = before + 1
     \<and> it_first_seen_at r \<le> event_observed_at e \<and> event_observed_at e \<le> it_last_seen_at r"

lemma projected:
  assumes ok: "inventory_ok t" and f: "inventory_fingerprint_of S sha (scope_of org e) e = Ok f"
    and fresh: "(raw, unat (if_version f)) \<notin> member_key ` set (item_memberships t)"
    and cand: "cand \<notin> it_id ` set (items t)"
  obtains t' out r where "project_event S sha cand raw gid rel cluster org e t = Ok (t', out)"
    "inventory_ok t'" "r \<in> set (items t')" "it_key r = item_key_of (scope_of org e) f"
    "it_id r = po_item_id out" "counts_event e (events_of (it_id r) t) r"
    "po_item_created out = (item_by_key (item_key_of (scope_of org e) f) t = None)"
    "\<lparr>gl_item_id = it_id r, gl_group_id = gid\<rparr> \<in> set (group_links t')"
    "\<And>x. x \<in> set (items t) \<Longrightarrow> it_id x \<noteq> it_id r \<Longrightarrow> x \<in> set (items t')"
    "item_memberships t' = item_memberships t @ [\<lparr>im_scope = scope_of org e, im_event_id = raw,
       im_item_id = it_id r, im_version = unat (if_version f)\<rparr>]"
proof -
  let ?k = "item_key_of (scope_of org e) f"
  define m where "m = (\<lambda>iid. \<lparr>im_scope = scope_of org e, im_event_id = raw, im_item_id = iid,
    im_version = unat (if_version f)\<rparr>)"
  have m: "member_key (m iid) \<notin> member_key ` set (item_memberships t)" "im_item_id (m iid) = iid" for iid
    using fresh by (simp_all add: m_def member_key_def)
  have parts: "items_ok t" "rollups_ok t" using ok by (simp_all add: inventory_ok_def)
  note new = project_event_new [OF f fresh, of cand gid rel cluster, unfolded Let_def]
  show ?thesis
  proof (cases "item_by_key ?k t")
    case None
    define row where "row = \<lparr>it_id = cand, it_key = ?k, it_semantic = if_semantic f,
      it_first_seen_at = event_observed_at e, it_last_seen_at = event_observed_at e,
      it_occurrence_count = 1\<rparr>"
    let ?t1 = "t\<lparr>items := items t @ [row], item_memberships := item_memberships t @ [m cand]\<rparr>"
    have "items_ok ?t1"
      using None cand by (intro items_founds [OF parts(1)]) (auto simp: row_def item_by_key_None m)
    then have ok': "inventory_ok (recorded cand gid rel cluster e ?t1)"
      by (rule recorded_keeps_ok [OF parts(2)]) (auto simp: m)
    have none: "events_of cand t = 0"
      using parts(1) cand by (auto simp: items_ok_def events_of_def filter_empty_conv)
    have "project_event S sha cand raw gid rel cluster org e t
        = Ok (recorded cand gid rel cluster e ?t1,
            \<lparr>po_item_id = cand, po_item_created = True, po_membership_created = True\<rparr>)"
      using None new by (simp add: row_def m_def)
    from that [OF this ok', of row] show ?thesis
      using None none by (auto simp: row_def m_def counts_event_def recorded_links)
  next
    case (Some r)
    note r = item_by_key_Some [OF Some, THEN conjunct1] item_by_key_Some [OF Some, THEN conjunct2]
    let ?t0 = "t\<lparr>item_memberships := item_memberships t @ [m (it_id r)]\<rparr>"
    let ?t1 = "count_item (it_id r) e ?t0"
    obtain h where h: "\<And>r. counted_once (event_observed_at e) r (h r)"
      "items ?t1 = update_where (\<lambda>x. it_id x = it_id r) h (items t)"
      using count_item_row [of e "it_id r" ?t0] by auto
    have "items_ok ?t1" using r by (intro items_joins [OF parts(1)]) (auto simp: m)
    then have ok': "inventory_ok (recorded (it_id r) gid rel cluster e ?t1)"
      by (rule recorded_keeps_ok [OF parts(2)]) (use h in \<open>auto simp: m image_update_where counted_once_def\<close>)
    have "h r \<in> set (items ?t1)" using r(1) h(2) by (auto simp: in_update_where)
    moreover have "it_occurrence_count r = events_of (it_id r) t" "it_first_seen_at r \<le> it_last_seen_at r"
      using parts(1) r(1) by (auto simp: items_ok_def)
    moreover have pe: "project_event S sha cand raw gid rel cluster org e t
        = Ok (recorded (it_id r) gid rel cluster e ?t1,
            \<lparr>po_item_id = it_id r, po_item_created = False, po_membership_created = True\<rparr>)"
      using Some new by (simp add: m_def)
    moreover have "counts_event e (events_of (it_id r) t) (h r)" "it_id (h r) = it_id r" "it_key (h r) = it_key r"
      using h(1) [of r] calculation by (simp_all add: counts_event_def counted_once_def)
    moreover have "x \<in> set (items ?t1)" if "x \<in> set (items t)" "it_id x \<noteq> it_id r" for x
      using that h(2) by (force simp: in_update_where)
    ultimately show ?thesis using Some r that [OF pe ok', of "h r"] by (simp add: m_def recorded_links)
  qed
qed


lemma project_event_ids:
  assumes "inventory_fingerprint_of S sha (scope_of org e) e = Ok f"
    and "(raw, unat (if_version f)) \<notin> member_key ` set (item_memberships t)"
    and "project_event S sha cand raw gid rel cluster org e t = Ok (t', out)"
  shows "it_id ` set (items t') \<subseteq> insert cand (it_id ` set (items t))"
proof (cases "item_by_key (item_key_of (scope_of org e) f) t")
  case None
  with assms(3) project_event_new [OF assms(1,2), of cand gid rel cluster] show ?thesis
    by (auto simp: Let_def)
next
  case (Some r)
  have "it_id ` set (items (count_item iid e x)) = it_id ` set (items x)" for iid x
    by (rule count_item_row [of e iid x]) (simp add: image_update_where counted_once_def)
  moreover from Some assms(3) project_event_new [OF assms(1,2), of cand gid rel cluster]
  obtain ms where "items t' = items (count_item (it_id r) e (t\<lparr>item_memberships := ms\<rparr>))"
    by (auto simp: Let_def)
  ultimately show ?thesis by (simp add: subset_insertI)
qed

text \<open>Linking an event's items to another group keeps the tables consistent.\<close>

lemma link_group_ok:
  assumes "inventory_ok t" and "iid \<in> it_id ` set (items t)"
  shows "inventory_ok (link_group iid gid t)"
  using assms by (auto simp: inventory_ok_def items_ok_def rollups_ok_def link_group_def insert_new_def
      events_of_def sighted_def released_def)

lemma link_event_items_ok:
  assumes "inventory_ok t"
  shows "inventory_ok (link_event_items_to_group scope gid ev version t)"
    and "item_memberships (link_event_items_to_group scope gid ev version t) = item_memberships t"
    and "items (link_event_items_to_group scope gid ev version t) = items t"
proof -
  have "inventory_ok (fold (\<lambda>m. link_group (im_item_id m) gid) ms t')
      \<and> item_memberships (fold (\<lambda>m. link_group (im_item_id m) gid) ms t') = item_memberships t'
      \<and> items (fold (\<lambda>m. link_group (im_item_id m) gid) ms t') = items t'"
    if "inventory_ok t'" "im_item_id ` set ms \<subseteq> it_id ` set (items t')" for ms t'
    using that by (induction ms arbitrary: t') (simp_all add: link_group_ok)
  moreover have "im_item_id ` set (filter P (item_memberships t)) \<subseteq> it_id ` set (items t)" for P
    using assms by (auto simp: inventory_ok_def items_ok_def)
  ultimately show "inventory_ok (link_event_items_to_group scope gid ev version t)"
    "item_memberships (link_event_items_to_group scope gid ev version t) = item_memberships t"
    "items (link_event_items_to_group scope gid ev version t) = items t"
    unfolding link_event_items_to_group_def using assms by blast+
qed

definition no_items :: inventory_tables where
  "no_items = \<lparr>items = [], item_memberships = [], group_links = [], item_releases = [], sightings = []\<rparr>"

lemma no_items_ok: "inventory_ok no_items"
  by (simp add: no_items_def inventory_ok_def items_ok_def rollups_ok_def sighted_def released_def
      events_of_def sighting.counted_def item_release.counted_def)


end
