(* ===== verification/Policy_Projection.thy ===== *)
theory Policy_Projection
  imports Inventory_Projection Policy
begin

text \<open>
  Policy verdicts in the server's database: the tables of \<open>migrations/0018\<close>, with the policies and
  their revisions, the evaluations of Runtime Groups and of sightings, the recorded commands, the
  requested recomputations and the suppressions, and the projection that evaluates the policies of an Application
  for an inventory item at a placement and stores the verdict
  (\<open>crates/server/src/policy_projection.rs\<close>, statements of
  \<open>crates/server/src/repository/policies.rs\<close>).

  The stored explanation is kept as the pair of the specificity and the related revisions; its JSON
  form is the derived serializer's.
\<close>

section \<open>Tables\<close>

record policy_row =
  p_id :: uuid
  p_scope :: policy_scope
  p_name :: string
  p_current_revision_id :: "uuid option"
  p_created_by :: uuid

record revision_row =
  rv_id :: uuid
  rv_policy_id :: uuid
  rv_scope :: policy_scope
  rv_number :: int
  rv_prior_revision_id :: "uuid option"
  rv_enabled :: bool
  rv_kind :: string
  rv_identity_version :: int
  rv_identity_digest :: "u8 list"
  rv_cluster_ids :: "uuid list"
  rv_namespaces :: "string list"
  rv_workload_kinds :: "string list"
  rv_workload_names :: "string list"
  rv_inside_effect :: string
  rv_outside_effect :: "string option"
  rv_matcher :: behavior_matcher
  rv_source_item :: "uuid option"
  rv_source_group :: "uuid option"
  rv_created_by :: uuid

record suppression_row =
  su_id :: uuid
  su_scope :: policy_scope
  su_kind :: string
  su_identity_version :: int
  su_identity_digest :: "u8 list"
  su_matcher :: behavior_matcher
  su_placement :: placement_matcher
  su_reason :: string
  su_expires_at :: datetime
  su_cancelled_at :: "datetime option"
  su_cancelled_by :: "uuid option"
  su_source_item :: "uuid option"
  su_source_group :: "uuid option"
  su_created_by :: uuid
  su_created_at :: datetime

datatype recompute_state = Pending | Running | Completed

record recomputation_row =
  rc_id :: uuid
  rc_scope :: policy_scope
  rc_identity_version :: int
  rc_identity_digest :: "u8 list"
  rc_requested_revision :: "uuid option"
  rc_state :: recompute_state
  rc_lease :: "(uuid \<times> datetime) option"
  rc_attempt_count :: nat
  rc_created_at :: datetime

record mutation_result =
  mr_resource_id :: uuid
  mr_revision_id :: "uuid option"
  mr_recomputation_id :: "uuid option"
  mr_policy_state_version :: int

record command_row =
  cm_scope :: policy_scope
  cm_idempotency_key :: uuid
  cm_kind :: string
  cm_request_digest :: "u8 list"
  cm_actor :: uuid
  cm_resource_id :: uuid
  cm_result :: mutation_result

record materialized_evaluation =
  me_state_version :: int
  me_evaluator_version :: int
  me_verdict :: string
  me_reason :: string
  me_winning_revision_id :: "uuid option"
  me_explanation :: "specificity option \<times> uuid list"

record group_evaluation_row =
  ge_scope :: policy_scope
  ge_group_id :: uuid
  ge_value :: materialized_evaluation

record sighting_evaluation_row =
  se_scope :: policy_scope
  se_key :: sighting_key
  se_value :: materialized_evaluation

record policy_tables =
  policies :: "policy_row list"
  revisions :: "revision_row list"
  state_versions :: "(policy_scope \<times> int) list"
  group_evaluations :: "group_evaluation_row list"
  sighting_evaluations :: "sighting_evaluation_row list"
  commands :: "command_row list"
  recomputations :: "recomputation_row list"
  suppressions :: "suppression_row list"

section \<open>Statements\<close>

definition identity_key :: "policy_scope \<Rightarrow> uuid \<Rightarrow> inventory_tables \<Rightarrow> (int \<times> u8 list, db_error) result" where
  "identity_key scope iid t =
     ok_or RowNotFound (map_option (\<lambda>r. (int (ik_version (it_key r)), ik_digest (it_key r)))
       (find (\<lambda>r. it_id r = iid
          \<and> ik_scope (it_key r) = \<lparr>is_organization_id = sc_organization_id scope,
              is_project_id = sc_project_id scope, is_application_id = sc_application_id scope\<rparr>) (items t)))"

definition state_version :: "policy_scope \<Rightarrow> policy_tables \<Rightarrow> int option" where
  "state_version scope p = map_of (state_versions p) scope"

text \<open>The join of the policies with their current revisions.\<close>

definition enabled_revisions_for_identity ::
    "policy_scope \<Rightarrow> int \<Rightarrow> u8 list \<Rightarrow> policy_tables \<Rightarrow> revision_row list" where
  "enabled_revisions_for_identity scope version digest p =
     concat (map (\<lambda>row. filter (\<lambda>r. p_current_revision_id row = Some (rv_id r) \<and> rv_enabled r
           \<and> rv_identity_version r = version \<and> rv_identity_digest r = digest) (revisions p))
       (filter (\<lambda>row. p_scope row = scope) (policies p)))"

definition store_group_evaluation :: "group_evaluation_row \<Rightarrow> policy_tables \<Rightarrow> policy_tables" where
  "store_group_evaluation row p =
     p\<lparr>group_evaluations := upsert ge_group_id (\<lambda>r. r\<lparr>ge_value := ge_value row\<rparr>) row (group_evaluations p)\<rparr>"

definition store_sighting_evaluation :: "sighting_evaluation_row \<Rightarrow> policy_tables \<Rightarrow> policy_tables" where
  "store_sighting_evaluation row p =
     p\<lparr>sighting_evaluations := upsert se_key (\<lambda>r. r\<lparr>se_value := se_value row\<rparr>) row (sighting_evaluations p)\<rparr>"

section \<open>Evaluating an item\<close>

definition effect :: "string \<Rightarrow> policy_effect option" where
  "effect s = (if s = ''expected'' then Some ExpectedEffect
               else if s = ''requires_review'' then Some RequiresReviewEffect else None)"

text \<open>\<open>enum_name\<close>: the variants of the two enumerations in snake case.\<close>

fun verdict_name :: "policy_verdict \<Rightarrow> string" where
  "verdict_name Unclassified = ''unclassified''"
| "verdict_name Expected = ''expected''"
| "verdict_name RequiresReview = ''requires_review''"
| "verdict_name PolicyConflict = ''policy_conflict''"

fun reason_name :: "evaluation_reason \<Rightarrow> string" where
  "reason_name NoMatchingPolicy = ''no_matching_policy''"
| "reason_name InsidePlacement = ''inside_placement''"
| "reason_name OutsidePlacement = ''outside_placement''"
| "reason_name EqualSpecificityConflict = ''equal_specificity_conflict''"
| "reason_name EvaluationPending = ''evaluation_pending''"

definition candidate_of :: "policy_scope \<Rightarrow> revision_row \<Rightarrow> scoped_policy_candidate option" where
  "candidate_of scope r =
     (if length (rv_identity_digest r) \<noteq> 32 then None
      else map_option (\<lambda>inside. \<lparr>sp_scope = scope, sp_identity_version = rv_identity_version r,
          sp_identity_digest = rv_identity_digest r,
          sp_candidate = \<lparr>pc_revision_id = rv_id r,
            pc_placement = \<lparr>pm_cluster_ids = collect_btree (rv_cluster_ids r),
              pm_namespaces = collect_btree (rv_namespaces r),
              pm_workload_kinds = collect_btree (rv_workload_kinds r),
              pm_workload_names = collect_btree (rv_workload_names r)\<rparr>,
            pc_inside_effect = inside,
            pc_outside_effect = Option.bind (rv_outside_effect r) effect\<rparr>\<rparr>) (effect (rv_inside_effect r)))"

definition evaluate_item ::
    "policy_scope \<Rightarrow> uuid \<Rightarrow> placement \<Rightarrow> inventory_tables \<Rightarrow> policy_tables \<Rightarrow>
       (materialized_evaluation, db_error) result" where
  "evaluate_item scope iid place t p =
     res_bind (identity_key scope iid t) (\<lambda>(version, digest).
       let candidates = List.map_filter (candidate_of scope) (enabled_revisions_for_identity scope version digest p)
       in if length digest \<noteq> 32 then Err (ProtocolMessage ''invalid inventory identity digest'')
          else
            let v = evaluate_scoped \<lparr>in_scope = scope, in_identity_version = version,
                      in_identity_digest = digest, in_placement = place\<rparr> candidates
            in Ok \<lparr>me_state_version = (case state_version scope p of Some n \<Rightarrow> n | None \<Rightarrow> 0),
                   me_evaluator_version = POLICY_EVALUATOR_VERSION,
                   me_verdict = verdict_name (verdict v), me_reason = reason_name (reason v),
                   me_winning_revision_id = winning_revision_id v,
                   me_explanation = (ev_specificity v, related_revision_ids v)\<rparr>)"

definition policy_scope_of :: "uuid \<Rightarrow> runtime_event \<Rightarrow> policy_scope" where
  "policy_scope_of org e = \<lparr>sc_organization_id = org, sc_project_id = project_id (attribution e),
     sc_application_id = application_id (attribution e)\<rparr>"

definition placement_of :: "uuid \<Rightarrow> kubernetes_attribution \<Rightarrow> placement" where
  "placement_of cluster a = \<lparr>pl_cluster_id = cluster, pl_namespace = namespace a,
     pl_workload_kind = workload_kind a, pl_workload_name = workload_name a\<rparr>"

definition project_existing_group ::
    "policy_scope \<Rightarrow> uuid \<Rightarrow> uuid \<Rightarrow> placement \<Rightarrow> inventory_tables \<Rightarrow> policy_tables \<Rightarrow>
       (policy_tables, db_error) result" where
  "project_existing_group scope iid gid place t p =
     res_bind (evaluate_item scope iid place t p) (\<lambda>v.
       Ok (store_group_evaluation \<lparr>ge_scope = scope, ge_group_id = gid, ge_value = v\<rparr> p))"

definition project_existing_sighting ::
    "policy_scope \<Rightarrow> uuid \<Rightarrow> placement \<Rightarrow> string \<Rightarrow> string \<Rightarrow> inventory_tables \<Rightarrow> policy_tables \<Rightarrow>
       (policy_tables, db_error) result" where
  "project_existing_sighting scope iid place pod container t p =
     res_bind (evaluate_item scope iid place t p) (\<lambda>v.
       Ok (store_sighting_evaluation \<lparr>se_scope = scope,
         se_key = \<lparr>sk_item_id = iid, sk_cluster_id = pl_cluster_id place, sk_namespace = pl_namespace place,
           sk_workload_kind = pl_workload_kind place, sk_workload_name = pl_workload_name place,
           sk_pod_uid = pod, sk_container_name = container\<rparr>, se_value = v\<rparr> p))"

definition project_current_evaluation ::
    "uuid \<Rightarrow> uuid \<Rightarrow> uuid \<Rightarrow> uuid \<Rightarrow> runtime_event \<Rightarrow> inventory_tables \<Rightarrow> policy_tables \<Rightarrow>
       (policy_tables, db_error) result" where
  "project_current_evaluation org cluster gid iid e t p =
     (let scope = policy_scope_of org e; a = attribution e
      in res_bind (evaluate_item scope iid (placement_of cluster a) t p) (\<lambda>v.
        Ok (store_sighting_evaluation \<lparr>se_scope = scope, se_key = sighting_at iid cluster a, se_value = v\<rparr>
             (store_group_evaluation \<lparr>ge_scope = scope, ge_group_id = gid, ge_value = v\<rparr> p))))"

section \<open>The stored verdict\<close>

text \<open>The policies that govern an identity of an Application, as candidates of the evaluation.\<close>

definition governing :: "policy_scope \<Rightarrow> int \<Rightarrow> u8 list \<Rightarrow> policy_tables \<Rightarrow> policy_candidate list" where
  "governing scope version digest p =
     map sp_candidate (List.map_filter (candidate_of scope)
       (enabled_revisions_for_identity scope version digest p))"

lemma candidate_of_Some:
  "candidate_of scope r = Some c \<Longrightarrow> sp_scope c = scope \<and> sp_identity_version c = rv_identity_version r
     \<and> sp_identity_digest c = rv_identity_digest r"
  by (auto simp: candidate_of_def split: if_splits)

lemma evaluate_governing:
  "evaluate_scoped \<lparr>in_scope = scope, in_identity_version = version, in_identity_digest = digest,
       in_placement = place\<rparr>
     (List.map_filter (candidate_of scope) (enabled_revisions_for_identity scope version digest p))
   = evaluate place (governing scope version digest p)"
proof -
  have "filter (\<lambda>c. sp_scope c = scope \<and> sp_identity_version c = version \<and> sp_identity_digest c = digest)
      (List.map_filter (candidate_of scope) rs) = List.map_filter (candidate_of scope) rs"
    if "\<forall>r \<in> set rs. rv_identity_version r = version \<and> rv_identity_digest r = digest" for rs
    using that by (induction rs) (auto simp: List.map_filter_simps dest: candidate_of_Some split: option.splits)
  moreover have "\<forall>r \<in> set (enabled_revisions_for_identity scope version digest p).
      rv_identity_version r = version \<and> rv_identity_digest r = digest"
    by (auto simp: enabled_revisions_for_identity_def)
  ultimately show ?thesis by (simp add: evaluate_scoped_def governing_def)
qed

definition group_verdict :: "uuid \<Rightarrow> policy_tables \<Rightarrow> materialized_evaluation option" where
  "group_verdict gid p = map_option ge_value (find (\<lambda>r. ge_group_id r = gid) (group_evaluations p))"

definition sighting_verdict :: "sighting_key \<Rightarrow> policy_tables \<Rightarrow> materialized_evaluation option" where
  "sighting_verdict k p = map_option se_value (find (\<lambda>r. se_key r = k) (sighting_evaluations p))"

definition verdict_of :: "evaluation \<Rightarrow> materialized_evaluation \<Rightarrow> bool" where
  "verdict_of v m \<longleftrightarrow> me_verdict m = verdict_name (verdict v) \<and> me_reason m = reason_name (reason v)
     \<and> me_winning_revision_id m = winning_revision_id v
     \<and> me_explanation m = (ev_specificity v, related_revision_ids v)
     \<and> me_evaluator_version m = POLICY_EVALUATOR_VERSION"

lemma stored_values:
  "group_verdict gid (store_group_evaluation \<lparr>ge_scope = scope, ge_group_id = gid, ge_value = v\<rparr> p) = Some v"
  "group_verdict gid (store_sighting_evaluation row p) = group_verdict gid p"
  "sighting_verdict k (store_sighting_evaluation \<lparr>se_scope = scope, se_key = k, se_value = v\<rparr> p) = Some v"
  using find_upsert_value(1) [of ge_group_id "\<lambda>r. r\<lparr>ge_value := v\<rparr>" ge_value
      "\<lparr>ge_scope = scope, ge_group_id = gid, ge_value = v\<rparr>" "group_evaluations p"]
    find_upsert_value(1) [of se_key "\<lambda>r. r\<lparr>se_value := v\<rparr>" se_value
      "\<lparr>se_scope = scope, se_key = k, se_value = v\<rparr>" "sighting_evaluations p"]
  by (simp_all add: group_verdict_def sighting_verdict_def store_group_evaluation_def
      store_sighting_evaluation_def)

text \<open>Policies of another Application are never candidates.\<close>

lemma governing_foreign:
  assumes "p_scope row \<noteq> scope"
  shows "governing scope version digest (p\<lparr>policies := row # policies p\<rparr>) = governing scope version digest p"
  using assms by (simp add: governing_def enabled_revisions_for_identity_def)


definition sample_item :: item_row where
  "sample_item = \<lparr>it_id = 5, it_key = \<lparr>ik_scope = scope_of 1 listen_event, ik_kind = InventoryInboundEndpoint,
     ik_version = 2, ik_digest = replicate 32 7\<rparr>, it_semantic = JNull, it_first_seen_at = 0,
     it_last_seen_at = 0, it_occurrence_count = 1\<rparr>"

definition sample_revision :: revision_row where
  "sample_revision = \<lparr>rv_id = 40, rv_policy_id = 39, rv_scope = policy_scope_of 1 listen_event, rv_number = 1,
     rv_prior_revision_id = None, rv_enabled = True, rv_kind = ''inbound_endpoint'', rv_identity_version = 2,
     rv_identity_digest = replicate 32 7, rv_cluster_ids = [], rv_namespaces = [''ns''],
     rv_workload_kinds = [], rv_workload_names = [], rv_inside_effect = ''expected'',
     rv_outside_effect = None, rv_matcher = BmInboundEndpoint ''tcp'' Ipv4 (V4 0) 80, rv_source_item = Some 5,
     rv_source_group = None, rv_created_by = 2\<rparr>"

definition sample_policies :: policy_tables where
  "sample_policies = \<lparr>policies = [\<lparr>p_id = 39, p_scope = policy_scope_of 1 listen_event, p_name = ''listen'',
       p_current_revision_id = Some 40, p_created_by = 2\<rparr>],
     revisions = [sample_revision], state_versions = [], group_evaluations = [], sighting_evaluations = [],
     commands = [], recomputations = [], suppressions = []\<rparr>"

lemma sample_governing:
  "governing (policy_scope_of 1 listen_event) 2 (replicate 32 7) sample_policies
    = [sample_candidate 40 [''ns''] ExpectedEffect]"
  by (simp add: governing_def enabled_revisions_for_identity_def sample_policies_def sample_revision_def
      candidate_of_def effect_def collect_btree_def sample_candidate_def List.map_filter_simps)


end
