(* ===== verification/Termination_Projection.thy ===== *)
theory Termination_Projection
  imports Inventory_Projection Wire_Messages
begin

text \<open>
  What the server derives from termination evidence (\<open>crates/server/src/termination_projection.rs\<close>,
  statements of \<open>crates/server/src/repository/terminations.rs\<close>): the correlation of a container
  termination with the kernel's process exit, and the restart-loop projection of container restarts.

  The rows of \<open>runtime_events\<close> that both read are defined here. A row keeps the event's own payload;
  its JSON form is the derived serializer's. \<open>correlate\<close> is the crate's in-memory form of the
  correlation, and the theorem below shows that the durable projection records its result.
\<close>

section \<open>Stored events\<close>

record event_row =
  er_id :: uuid
  er_event_id :: uuid
  er_organization_id :: uuid
  er_cluster_id :: uuid
  er_agent_id :: uuid
  er_release_id :: "uuid option"
  er_observed_at :: datetime
  er_attribution :: kubernetes_attribution
  er_cgroup_id :: nat
  er_pid :: u32
  er_tgid :: u32
  er_command :: string
  er_kind :: string
  er_schema_version :: nat
  er_payload :: event_payload

section \<open>Constants and tables\<close>

definition CORRELATION_TOLERANCE :: int where "CORRELATION_TOLERANCE = 30 * 1000000000"
definition RESTART_WINDOW :: int where "RESTART_WINDOW = 10 * 60 * 1000000000"
definition RESTART_THRESHOLD_V1 :: nat where "RESTART_THRESHOLD_V1 = 3"
definition RESTART_PROJECTION_VERSION :: nat where "RESTART_PROJECTION_VERSION = 1"
definition DERIVED_GROUP_FINGERPRINT_VERSION :: nat where "DERIVED_GROUP_FINGERPRINT_VERSION = 101"
definition I32_MAX :: nat where "I32_MAX = 2 ^ 31 - 1"

record outcome_row =
  co_event_id :: uuid
  co_organization_id :: uuid
  co_project_id :: uuid
  co_status :: string
  co_candidate_count :: nat
  co_tolerance_seconds :: int
  co_retention_incomplete :: bool

record correlation_row =
  cl_organization_id :: uuid
  cl_lifecycle_event_id :: uuid
  cl_kernel_event_id :: uuid
  cl_project_id :: uuid

record restart_row =
  rs_organization_id :: uuid
  rs_version :: nat
  rs_event_id :: uuid
  rs_project_id :: uuid
  rs_window_started_at :: datetime
  rs_window_ended_at :: datetime
  rs_delta :: nat

record container_key =
  ck_organization_id :: uuid
  ck_project_id :: uuid
  ck_application_id :: uuid
  ck_cluster_id :: uuid
  ck_pod_uid :: string
  ck_container_name :: string
  ck_container_id :: string
  ck_version :: nat

record restart_loop_row =
  rl_key :: container_key
  rl_group_id :: "uuid option"
  rl_window_started_at :: datetime
  rl_window_ended_at :: datetime
  rl_observed_count :: nat
  rl_latest_termination :: "json option"
  rl_latest_waiting_reason :: "string option"

record termination_tables =
  outcomes :: "outcome_row list"
  correlations :: "correlation_row list"
  restarts :: "restart_row list"
  restart_loops :: "restart_loop_row list"

section \<open>Statements\<close>

definition same_container :: "uuid \<Rightarrow> kubernetes_attribution \<Rightarrow> event_row \<Rightarrow> bool" where
  "same_container org a r \<longleftrightarrow> er_organization_id r = org \<and> project_id (er_attribution r) = project_id a
     \<and> application_id (er_attribution r) = application_id a \<and> workload_uid (er_attribution r) = workload_uid a
     \<and> pod_uid (er_attribution r) = pod_uid a \<and> container_name (er_attribution r) = container_name a
     \<and> container_id (er_attribution r) = container_id a"

definition kernel_exit_candidates :: "uuid \<Rightarrow> kubernetes_attribution \<Rightarrow> datetime \<Rightarrow> event_row list \<Rightarrow> uuid list" where
  "kernel_exit_candidates org a at evs =
     take 2 (map er_id (sort_key (\<lambda>r. (er_observed_at r, er_id r))
       (filter (\<lambda>r. same_container org a r \<and> er_kind r = ''process.exit''
          \<and> at - CORRELATION_TOLERANCE \<le> er_observed_at r \<and> er_observed_at r \<le> at + CORRELATION_TOLERANCE) evs)))"

definition record_outcome :: "outcome_row \<Rightarrow> termination_tables \<Rightarrow> termination_tables" where
  "record_outcome row t =
     t\<lparr>outcomes := upsert co_event_id (\<lambda>r. r\<lparr>co_status := co_status row,
         co_candidate_count := co_candidate_count row, co_tolerance_seconds := co_tolerance_seconds row\<rparr>)
         row (outcomes t)\<rparr>"

definition correlation_key :: "correlation_row \<Rightarrow> uuid \<times> uuid \<times> uuid" where
  "correlation_key r = (cl_organization_id r, cl_lifecycle_event_id r, cl_kernel_event_id r)"

definition link_correlation :: "correlation_row \<Rightarrow> termination_tables \<Rightarrow> termination_tables" where
  "link_correlation row t = t\<lparr>correlations := fst (insert_new correlation_key row (correlations t))\<rparr>"

definition restart_key :: "restart_row \<Rightarrow> uuid \<times> nat \<times> uuid" where
  "restart_key r = (rs_organization_id r, rs_version r, rs_event_id r)"

text \<open>The column's check refuses a restart without a positive delta.\<close>

definition add_restart :: "restart_row \<Rightarrow> termination_tables \<Rightarrow> (termination_tables \<times> bool, db_error) result" where
  "add_restart row t =
     (if rs_delta row = 0 then Err CheckViolation
      else case insert_new restart_key row (restarts t) of
        (rows, inserted) \<Rightarrow> Ok (t\<lparr>restarts := rows\<rparr>, inserted))"

definition container_key_of :: "uuid \<Rightarrow> uuid \<Rightarrow> kubernetes_attribution \<Rightarrow> container_key" where
  "container_key_of org cluster a = \<lparr>ck_organization_id = org, ck_project_id = project_id a,
     ck_application_id = application_id a, ck_cluster_id = cluster, ck_pod_uid = pod_uid a,
     ck_container_name = container_name a, ck_container_id = container_id a,
     ck_version = RESTART_PROJECTION_VERSION\<rparr>"

text \<open>The restarts of a container in an inclusive window, joined with their events.\<close>

definition restarts_of ::
    "container_key \<Rightarrow> datetime \<Rightarrow> datetime \<Rightarrow> event_row list \<Rightarrow> termination_tables \<Rightarrow> (restart_row \<times> event_row) list" where
  "restarts_of k from to evs t =
     [(m, e). m \<leftarrow> restarts t, e \<leftarrow> evs, er_id e = rs_event_id m \<and> rs_organization_id m = ck_organization_id k
        \<and> rs_project_id m = ck_project_id k \<and> application_id (er_attribution e) = ck_application_id k
        \<and> er_cluster_id e = ck_cluster_id k \<and> pod_uid (er_attribution e) = ck_pod_uid k
        \<and> container_name (er_attribution e) = ck_container_name k
        \<and> container_id (er_attribution e) = ck_container_id k \<and> rs_version m = ck_version k
        \<and> from \<le> er_observed_at e \<and> er_observed_at e \<le> to]"

definition restart_window_end ::
    "container_key \<Rightarrow> datetime \<Rightarrow> datetime \<Rightarrow> event_row list \<Rightarrow> termination_tables \<Rightarrow> datetime" where
  "restart_window_end k from to evs t =
     (case map (\<lambda>(m, e). er_observed_at e) (restarts_of k from to evs t) of
        [] \<Rightarrow> from
      | x # xs \<Rightarrow> fold max xs x)"

definition restarts_in_window ::
    "container_key \<Rightarrow> datetime \<Rightarrow> datetime \<Rightarrow> event_row list \<Rightarrow> termination_tables \<Rightarrow> nat" where
  "restarts_in_window k from to evs t =
     sum_list (map (\<lambda>(m, e). rs_delta m) (restarts_of k from to evs t))"

definition or_else :: "'a option \<Rightarrow> 'a option \<Rightarrow> 'a option" where
  "or_else x y = (case x of None \<Rightarrow> y | Some _ \<Rightarrow> x)"

definition upsert_restart_loop :: "restart_loop_row \<Rightarrow> termination_tables \<Rightarrow> termination_tables" where
  "upsert_restart_loop row t =
     t\<lparr>restart_loops := upsert rl_key (\<lambda>r. r\<lparr>rl_window_started_at := rl_window_started_at row,
         rl_window_ended_at := rl_window_ended_at row, rl_observed_count := rl_observed_count row,
         rl_latest_termination := or_else (rl_latest_termination row) (rl_latest_termination r),
         rl_latest_waiting_reason := or_else (rl_latest_waiting_reason row) (rl_latest_waiting_reason r)\<rparr>)
         row (restart_loops t)\<rparr>"

definition attach_restart_loop_group :: "container_key \<Rightarrow> uuid \<Rightarrow> termination_tables \<Rightarrow> termination_tables" where
  "attach_restart_loop_group k gid t =
     t\<lparr>restart_loops := update_where (\<lambda>r. rl_key r = k) (\<lambda>r. r\<lparr>rl_group_id := Some gid\<rparr>) (restart_loops t)\<rparr>"

section \<open>Correlating a termination\<close>

definition correlate_termination ::
    "uuid \<Rightarrow> uuid \<Rightarrow> runtime_event \<Rightarrow> event_row list \<Rightarrow> termination_tables \<Rightarrow> termination_tables" where
  "correlate_termination raw org e evs t =
     (let a = attribution e; candidates = kernel_exit_candidates org a (event_observed_at e) evs;
          status = (case length candidates of 0 \<Rightarrow> ''absent'' | Suc 0 \<Rightarrow> ''qualified'' | _ \<Rightarrow> ''ambiguous'');
          t1 = record_outcome \<lparr>co_event_id = raw, co_organization_id = org, co_project_id = project_id a,
                 co_status = status, co_candidate_count = min (length candidates) I32_MAX,
                 co_tolerance_seconds = CORRELATION_TOLERANCE div 1000000000, co_retention_incomplete = False\<rparr> t
      in case candidates of
           [k] \<Rightarrow> link_correlation \<lparr>cl_organization_id = org, cl_lifecycle_event_id = raw,
                          cl_kernel_event_id = k, cl_project_id = project_id a\<rparr> t1
         | _ \<Rightarrow> t1)"

record correlation_scope =
  cs_organization_id :: uuid
  cs_project_id :: uuid
  cs_application_id :: uuid
  cs_workload_uid :: string
  cs_pod_uid :: string
  cs_container_name :: string
  cs_runtime_container_id :: string

record correlation_candidate =
  cc_event_id :: uuid
  cc_scope :: correlation_scope
  cc_observed_at :: datetime

datatype correlation_result = NoCorrelation | Unique uuid | Ambiguous

definition correlate :: "correlation_candidate \<Rightarrow> correlation_candidate list \<Rightarrow> correlation_result" where
  "correlate lifecycle candidates =
     (case filter (\<lambda>c. cc_scope c = cc_scope lifecycle
             \<and> \<bar>cc_observed_at c - cc_observed_at lifecycle\<bar> \<le> CORRELATION_TOLERANCE) candidates of
        [] \<Rightarrow> NoCorrelation
      | [first] \<Rightarrow> Unique (cc_event_id first)
      | _ \<Rightarrow> Ambiguous)"

section \<open>Restart loops\<close>

text \<open>The digest of a loop's group: every field with its length, in the order of the source; the last
  one is \<open>RESTART_PROJECTION_VERSION\<close> in decimal.\<close>

definition loop_digest :: "wire_lib \<Rightarrow> uuid \<Rightarrow> uuid \<Rightarrow> kubernetes_attribution \<Rightarrow> u8 list" where
  "loop_digest L org cluster a =
     sha256 L (concat (map (\<lambda>s. be_bytes 8 (length s) @ bytes_of s)
       [uuid_to_string L org, uuid_to_string L (project_id a), uuid_to_string L (application_id a),
        uuid_to_string L cluster, namespace a, workload_kind a, workload_name a, container_name a,
        ''1'']))"

definition loop_key :: "wire_lib \<Rightarrow> uuid \<Rightarrow> uuid \<Rightarrow> kubernetes_attribution \<Rightarrow> group_key" where
  "loop_key L org cluster a = \<lparr>gk_organization_id = org, gk_project_id = project_id a,
     gk_application_id = application_id a, gk_cluster_id = cluster, gk_namespace = namespace a,
     gk_workload_kind = workload_kind a, gk_workload_name = workload_name a,
     gk_version = DERIVED_GROUP_FINGERPRINT_VERSION, gk_digest = loop_digest L org cluster a\<rparr>"

definition loop_summary ::
    "serde_lib \<Rightarrow> kubernetes_attribution \<Rightarrow> container_restart \<Rightarrow> nat \<Rightarrow> datetime \<Rightarrow> datetime \<Rightarrow> json" where
  "loop_summary S a restart n start finish =
     JObject [(''evidence_source'', JString ''derived''),
       (''projection_version'', JNumber (int RESTART_PROJECTION_VERSION)),
       (''threshold'', JNumber (int RESTART_THRESHOLD_V1)),
       (''window_started_at'', ser_datetime S start), (''window_ended_at'', ser_datetime S finish),
       (''observed_restart_count'', JNumber (int n)), (''container_name'', JString (container_name a)),
       (''latest_termination'', JOption (ser_container_termination S) (previous_termination restart)),
       (''latest_waiting_reason'', JOption JString (waiting_reason restart))]"

text \<open>The tables a restart writes: the groups, the inventory's links and the projection itself.\<close>

record projection_tables =
  pt_groups :: group_tables
  pt_inventory :: inventory_tables
  pt_terminations :: termination_tables

definition upsert_restart_loop_group ::
    "wire_lib \<Rightarrow> serde_lib \<Rightarrow> uuid \<Rightarrow> uuid \<Rightarrow> uuid \<Rightarrow> uuid \<Rightarrow> uuid \<Rightarrow> runtime_event \<Rightarrow> container_restart \<Rightarrow>
       nat \<Rightarrow> datetime \<Rightarrow> datetime \<Rightarrow> projection_tables \<Rightarrow> projection_tables" where
  "upsert_restart_loop_group L S candidate oid raw org cluster e restart n start finish t =
     (let a = attribution e; summary = loop_summary S a restart n start finish;
          (g, gid) = derive_group candidate oid (loop_key L org cluster a) ''container.restart_loop'' summary
                       (event_observed_at e) raw
                       (\<lambda>gid. first_seen_payload S gid (application_id a) ''container.restart_loop'' summary
                                DERIVED_GROUP_FINGERPRINT_VERSION) (pt_groups t)
      in t\<lparr>pt_groups := g,
           pt_inventory := link_event_items_to_group (scope_of org e) gid raw
             (unat CURRENT_INVENTORY_IDENTITY_VERSION) (pt_inventory t),
           pt_terminations := attach_restart_loop_group (container_key_of org cluster a) gid (pt_terminations t)\<rparr>)"

definition project_restart_loop ::
    "wire_lib \<Rightarrow> serde_lib \<Rightarrow> uuid \<Rightarrow> uuid \<Rightarrow> uuid \<Rightarrow> uuid \<Rightarrow> uuid \<Rightarrow> runtime_event \<Rightarrow> container_restart \<Rightarrow>
       event_row list \<Rightarrow> projection_tables \<Rightarrow> (projection_tables, db_error) result" where
  "project_restart_loop L S candidate oid raw org cluster e restart evs t =
     (let a = attribution e; at = event_observed_at e; k = container_key_of org cluster a
      in res_bind (add_restart \<lparr>rs_organization_id = org, rs_version = RESTART_PROJECTION_VERSION,
             rs_event_id = raw, rs_project_id = project_id a, rs_window_started_at = at - RESTART_WINDOW,
             rs_window_ended_at = at, rs_delta = min (unat (restart_delta restart)) I32_MAX\<rparr>
           (pt_terminations t)) (\<lambda>(t1, inserted).
        if \<not> inserted then Ok (t\<lparr>pt_terminations := t1\<rparr>)
        else
          let finish = restart_window_end k at (at + RESTART_WINDOW) evs t1;
              start = finish - RESTART_WINDOW;
              n = restarts_in_window k start finish evs t1;
              observed = min n I32_MAX;
              t2 = upsert_restart_loop \<lparr>rl_key = k, rl_group_id = None, rl_window_started_at = start,
                     rl_window_ended_at = finish, rl_observed_count = observed,
                     rl_latest_termination = map_option (ser_container_termination S) (previous_termination restart),
                     rl_latest_waiting_reason = waiting_reason restart\<rparr> t1;
              t3 = t\<lparr>pt_terminations := t2\<rparr>
          in Ok (if n \<ge> RESTART_THRESHOLD_V1
                 then upsert_restart_loop_group L S candidate oid raw org cluster e restart observed start finish t3
                 else t3)))"

definition project_durable_evidence ::
    "wire_lib \<Rightarrow> serde_lib \<Rightarrow> uuid \<Rightarrow> uuid \<Rightarrow> uuid \<Rightarrow> uuid \<Rightarrow> uuid \<Rightarrow> runtime_event \<Rightarrow> event_row list \<Rightarrow>
       projection_tables \<Rightarrow> (projection_tables, db_error) result" where
  "project_durable_evidence L S candidate oid raw org cluster e evs t =
     (case payload e of
        ContainerTermination _ \<Rightarrow>
          Ok (t\<lparr>pt_terminations := correlate_termination raw org e evs (pt_terminations t)\<rparr>)
      | ContainerRestart restart \<Rightarrow> project_restart_loop L S candidate oid raw org cluster e restart evs t
      | _ \<Rightarrow> Ok t)"

section \<open>The durable correlation is the in-memory one\<close>

definition correlation_scope_of :: "uuid \<Rightarrow> kubernetes_attribution \<Rightarrow> correlation_scope" where
  "correlation_scope_of org a = \<lparr>cs_organization_id = org, cs_project_id = project_id a,
     cs_application_id = application_id a, cs_workload_uid = workload_uid a, cs_pod_uid = pod_uid a,
     cs_container_name = container_name a, cs_runtime_container_id = container_id a\<rparr>"

definition stored_candidate :: "event_row \<Rightarrow> correlation_candidate" where
  "stored_candidate r = \<lparr>cc_event_id = er_id r,
     cc_scope = correlation_scope_of (er_organization_id r) (er_attribution r), cc_observed_at = er_observed_at r\<rparr>"

definition outcome_of :: "uuid \<Rightarrow> termination_tables \<Rightarrow> (string \<times> nat) option" where
  "outcome_of ev t = map_option (\<lambda>r. (co_status r, co_candidate_count r)) (find (\<lambda>r. co_event_id r = ev) (outcomes t))"

lemma outcome_recorded:
  "outcome_of (co_event_id row) (record_outcome row t) = Some (co_status row, co_candidate_count row)"
  using find_upsert_value(1) [of co_event_id "\<lambda>r. r\<lparr>co_status := co_status row,
      co_candidate_count := co_candidate_count row, co_tolerance_seconds := co_tolerance_seconds row\<rparr>"
      "\<lambda>r. (co_status r, co_candidate_count r)" row "outcomes t"]
  by (simp add: outcome_of_def record_outcome_def)

lemmas recorded_status = outcome_recorded [of "\<lparr>co_event_id = raw, co_organization_id = org, co_project_id = proj,
    co_status = status, co_candidate_count = n, co_tolerance_seconds = secs, co_retention_incomplete = False\<rparr>"
  for raw org proj status n secs, simplified]

lemma outcome_linked: "outcome_of ev (t\<lparr>correlations := cs\<rparr>) = outcome_of ev t"
  by (simp add: outcome_of_def)

lemma link_correlation_simps [simp]:
  "outcomes (link_correlation row t) = outcomes t" "correlations (record_outcome r t) = correlations t"
  by (simp_all add: link_correlation_def record_outcome_def)

lemma same_container_scope:
  "same_container org a r \<longleftrightarrow> correlation_scope_of (er_organization_id r) (er_attribution r) = correlation_scope_of org a"
  by (auto simp: same_container_def correlation_scope_of_def)

text \<open>The two smallest elements of a list decide between none, one and several as the list does.\<close>

lemma smallest_two_decide:
  "(case take 2 (map h (sort_key f xs)) of [] \<Rightarrow> n | [x] \<Rightarrow> u x | _ \<Rightarrow> m)
    = (case map h xs of [] \<Rightarrow> n | [x] \<Rightarrow> u x | _ \<Rightarrow> m)"
proof (cases xs)
  case (Cons x ys)
  show ?thesis
  proof (cases ys)
    case (Cons y zs)
    with \<open>xs = x # ys\<close> have "length (sort_key f xs) = Suc (Suc (length zs))" by simp
    then obtain a b rest where "sort_key f xs = a # b # rest"
      by (metis length_Suc_conv)
    with Cons \<open>xs = x # ys\<close> show ?thesis by (simp del: sort_key_simps)
  qed (simp add: \<open>xs = x # ys\<close>)
qed simp

lemma correlate_stored:
  "correlate \<lparr>cc_event_id = raw, cc_scope = correlation_scope_of org a, cc_observed_at = at\<rparr>
      (map stored_candidate (filter (\<lambda>r. er_kind r = ''process.exit'') evs))
   = (case kernel_exit_candidates org a at evs of [] \<Rightarrow> NoCorrelation | [x] \<Rightarrow> Unique x | _ \<Rightarrow> Ambiguous)"
proof -
  define fs where "fs = filter (\<lambda>r. same_container org a r \<and> er_kind r = ''process.exit''
    \<and> at - CORRELATION_TOLERANCE \<le> er_observed_at r \<and> er_observed_at r \<le> at + CORRELATION_TOLERANCE) evs"
  have "filter (\<lambda>c. cc_scope c = correlation_scope_of org a \<and> \<bar>cc_observed_at c - at\<bar> \<le> CORRELATION_TOLERANCE)
      (map stored_candidate (filter (\<lambda>r. er_kind r = ''process.exit'') evs)) = map stored_candidate fs"
    unfolding fs_def by (induction evs) (auto simp: stored_candidate_def same_container_scope)
  moreover have "(case map stored_candidate fs of [] \<Rightarrow> NoCorrelation | [c] \<Rightarrow> Unique (cc_event_id c) | _ \<Rightarrow> Ambiguous)
      = (case map er_id fs of [] \<Rightarrow> NoCorrelation | [x] \<Rightarrow> Unique x | _ \<Rightarrow> Ambiguous)"
    by (auto simp: stored_candidate_def split: list.splits)
  ultimately show ?thesis
    by (simp add: correlate_def kernel_exit_candidates_def smallest_two_decide flip: fs_def)
qed

lemma at_most_two:
  assumes "length xs \<le> 2"
  obtains "xs = []" | x where "xs = [x]" | x y where "xs = [x, y]"
  using assms by (cases xs; cases "tl xs"; cases "tl (tl xs)") auto

text \<open>C39: the correlation the server stores for a container termination is the one \<open>correlate\<close> computes
  from the stored process exits: no exit within the tolerance is recorded as absent, exactly one as
  qualified and linked to the termination, several as ambiguous and linked to none.\<close>
theorem correlation_recorded:
  "case correlate \<lparr>cc_event_id = raw, cc_scope = correlation_scope_of org (attribution e),
          cc_observed_at = event_observed_at e\<rparr>
        (map stored_candidate (filter (\<lambda>r. er_kind r = ''process.exit'') evs)) of
     NoCorrelation \<Rightarrow> outcome_of raw (correlate_termination raw org e evs t) = Some (''absent'', 0)
       \<and> correlations (correlate_termination raw org e evs t) = correlations t
   | Unique x \<Rightarrow> outcome_of raw (correlate_termination raw org e evs t) = Some (''qualified'', 1)
       \<and> (org, raw, x) \<in> correlation_key ` set (correlations (correlate_termination raw org e evs t))
   | Ambiguous \<Rightarrow> outcome_of raw (correlate_termination raw org e evs t) = Some (''ambiguous'', 2)
       \<and> correlations (correlate_termination raw org e evs t) = correlations t"
proof -
  let ?ks = "kernel_exit_candidates org (attribution e) (event_observed_at e) evs"
  have "length ?ks \<le> 2" by (simp add: kernel_exit_candidates_def)
  then show ?thesis
    unfolding correlate_stored
    by (cases rule: at_most_two) (auto simp: correlate_termination_def Let_def recorded_status I32_MAX_def
        link_correlation_def insert_new_def correlation_key_def outcome_linked)
qed

section \<open>The projections keep the tables consistent\<close>

definition projections_ok :: "projection_tables \<Rightarrow> bool" where
  "projections_ok t \<longleftrightarrow> groups_ok (pt_groups t) \<and> inventory_ok (pt_inventory t)"

text \<open>What a projection of termination evidence may add: a membership of the event in its loop's group.\<close>

definition derives_only :: "uuid \<Rightarrow> uuid \<Rightarrow> projection_tables \<Rightarrow> projection_tables \<Rightarrow> bool" where
  "derives_only raw cand t t' \<longleftrightarrow> projections_ok t'
     \<and> item_memberships (pt_inventory t') = item_memberships (pt_inventory t)
     \<and> items (pt_inventory t') = items (pt_inventory t)
     \<and> (\<exists>extra. memberships (pt_groups t') = memberships (pt_groups t) @ extra
          \<and> (\<forall>m \<in> set extra. m_event_id m = raw \<and> m_version m = DERIVED_GROUP_FINGERPRINT_VERSION))
     \<and> g_id ` set (groups (pt_groups t')) \<subseteq> insert cand (g_id ` set (groups (pt_groups t)))"

lemma derives_nothing: "projections_ok t \<Longrightarrow> derives_only raw cand t (t\<lparr>pt_terminations := x\<rparr>)"
  by (auto simp: derives_only_def projections_ok_def)

lemma loop_group_derives:
  assumes ok: "projections_ok t" and cand: "cand \<notin> g_id ` set (groups (pt_groups t))"
    and raw: "(raw, DERIVED_GROUP_FINGERPRINT_VERSION) \<notin> (\<lambda>m. (m_event_id m, m_version m)) ` set (memberships (pt_groups t))"
  shows "derives_only raw cand t
    (upsert_restart_loop_group L S cand oid raw org cluster e restart n start finish t)"
proof -
  define k where "k = loop_key L org cluster (attribution e)"
  have "gk_version k = DERIVED_GROUP_FINGERPRINT_VERSION" by (simp add: k_def loop_key_def)
  with raw have raw': "(raw, gk_version k) \<notin> (\<lambda>m. (m_event_id m, m_version m)) ` set (memberships (pt_groups t))"
    by simp
  obtain g gid where g: "derive_group cand oid k ''container.restart_loop''
      (loop_summary S (attribution e) restart n start finish) (event_observed_at e) raw
      (\<lambda>gid. first_seen_payload S gid (application_id (attribution e)) ''container.restart_loop''
        (loop_summary S (attribution e) restart n start finish) DERIVED_GROUP_FINGERPRINT_VERSION)
      (pt_groups t) = (g, gid)" by fastforce
  note rows = derive_group_rows [OF raw', of cand oid "''container.restart_loop''"
      "loop_summary S (attribution e) restart n start finish" "event_observed_at e"
      "\<lambda>gid. first_seen_payload S gid (application_id (attribution e)) ''container.restart_loop''
        (loop_summary S (attribution e) restart n start finish) DERIVED_GROUP_FINGERPRINT_VERSION", unfolded g fst_conv]
  have "groups_ok (pt_groups t)" using ok by (simp add: projections_ok_def)
  from derive_group_ok [OF this cand raw', of oid "''container.restart_loop''"
      "loop_summary S (attribution e) restart n start finish" "event_observed_at e"
      "\<lambda>gid. first_seen_payload S gid (application_id (attribution e)) ''container.restart_loop''
        (loop_summary S (attribution e) restart n start finish) DERIVED_GROUP_FINGERPRINT_VERSION"] g
  have "groups_ok g" by simp
  moreover have "inventory_ok (pt_inventory t)" using ok by (simp add: projections_ok_def)
  ultimately show ?thesis
    using rows \<open>gk_version k = DERIVED_GROUP_FINGERPRINT_VERSION\<close> g
    by (auto simp: derives_only_def projections_ok_def upsert_restart_loop_group_def Let_def
        link_event_items_ok simp flip: k_def)
qed

lemma durable_evidence_derives:
  assumes "projections_ok t" and "cand \<notin> g_id ` set (groups (pt_groups t))"
    and "(raw, DERIVED_GROUP_FINGERPRINT_VERSION) \<notin> (\<lambda>m. (m_event_id m, m_version m)) ` set (memberships (pt_groups t))"
    and "project_durable_evidence L S cand oid raw org cluster e evs t = Ok t'"
  shows "derives_only raw cand t t'"
proof -
  have same: "derives_only raw cand (t\<lparr>pt_terminations := x\<rparr>) u \<Longrightarrow> derives_only raw cand t u" for x u
    by (simp add: derives_only_def)
  have loop: "derives_only raw cand t (upsert_restart_loop_group L S cand oid raw org cluster e r n st fi
      (t\<lparr>pt_terminations := x\<rparr>))" for r n st fi x
    using assms(1-3) by (intro same [OF loop_group_derives]) (simp_all add: projections_ok_def)
  have "derives_only raw cand t t'" if "project_restart_loop L S cand oid raw org cluster e r evs t = Ok t'" for r
    using that by (auto simp: project_restart_loop_def Let_def result_laws loop derives_nothing [OF assms(1)]
        split: if_splits)
  moreover have "derives_only raw cand t t" using derives_nothing [OF assms(1), of raw cand "pt_terminations t"] by simp
  ultimately show ?thesis
    using assms(4) derives_nothing [OF assms(1)]
    by (auto simp: project_durable_evidence_def split: event_payload.splits)
qed

end
