(* ===== verification/Ingestion.thy ===== *)
theory Ingestion
  imports Policy_Projection Termination_Projection
begin

text \<open>
  Ingestion of runtime events (\<open>crates/server/src/ingestion.rs\<close>): validation of an event, resolution of
  its release (\<open>release_discovery.rs\<close>, \<open>repository/releases.rs\<close>), the idempotent insert into
  \<open>runtime_events\<close> (\<open>repository/events.rs\<close>) or \<open>thread_activity_windows\<close>
  (\<open>repository/thread_activity.rs\<close>), the projections, and the transaction around a batch.

  The database is one record of all tables; of \<open>notification_deliveries\<close> it keeps the messages the
  rows belong to. A statement that fails ends the batch with an error, and
  the transaction is rolled back: the batch leaves the database as it was. Identifiers drawn by
  \<open>Uuid::new_v4\<close> are arguments, one record of them per event. Serialization of a payload to JSON cannot
  fail for these types and has no branch. Metrics and log lines are left out.
\<close>

section \<open>The database\<close>

record session_scope =
  ss_organization_id :: uuid
  ss_cluster_id :: uuid

record credential_scope =
  ac_credential_id :: uuid
  ac_organization_id :: uuid
  ac_project_id :: uuid
  ac_application_id :: uuid

record credential_row =
  cr_scope :: credential_scope
  cr_revoked_at :: "datetime option"

record organization_row =
  org_id :: uuid
  org_retention_enabled :: bool
  org_retention_raw_days :: int
  org_retention_history_days :: "int option"

text \<open>The three columns of a project's override of the retention policy are all \<open>NULL\<close> or describe it.\<close>

record project_row =
  pr_organization_id :: uuid
  pr_id :: uuid
  pr_retention :: "(bool \<times> int \<times> int option) option"
  pr_closed_before :: "datetime option"
  pr_history_expired_before :: "datetime option"

record release_row =
  rel_id :: uuid
  rel_organization_id :: uuid
  rel_project_id :: uuid
  rel_application_id :: uuid
  rel_version :: string
  rel_deployed_at :: datetime
  rel_source :: string
  rel_identity :: "(nat \<times> u8 list) option"
  rel_components :: "container_image_identity list"

record window_row =
  wr_id :: uuid
  wr_organization_id :: uuid
  wr_project_id :: uuid
  wr_application_id :: uuid
  wr_cluster_id :: uuid
  wr_agent_id :: uuid
  wr_observed_at :: datetime
  wr_process :: process_identity
  wr_window :: thread_activity_window

record database =
  db_organizations :: "organization_row list"
  db_projects :: "project_row list"
  db_applications :: "(uuid \<times> uuid \<times> uuid) list"
  db_credentials :: "credential_row list"
  db_releases :: "release_row list"
  db_events :: "event_row list"
  db_windows :: "window_row list"
  db_policies :: policy_tables
  db_projections :: projection_tables
  db_deliveries :: "uuid list"

record fresh_ids =
  fi_release :: uuid
  fi_event :: uuid
  fi_group :: uuid
  fi_outbox :: uuid
  fi_item :: uuid
  fi_loop_group :: uuid
  fi_loop_outbox :: uuid

record ingestion_context =
  ic_scope :: session_scope
  ic_agent_id :: uuid

datatype ingestion_error =
    UnsupportedSchema u32
  | InvalidOwnership
  | RevokedCredential
  | CgroupOverflow
  | LifecycleCounterOverflow
  | Database db_error
  | InvalidDns
  | InvalidTermination
  | InvalidReleaseIdentity

section \<open>Validation\<close>

definition none_or :: "('a \<Rightarrow> bool) \<Rightarrow> 'a option \<Rightarrow> bool" where
  "none_or P x \<longleftrightarrow> (case x of None \<Rightarrow> True | Some v \<Rightarrow> P v)"

fun dns_payload_valid :: "event_payload \<Rightarrow> bool" where
  "dns_payload_valid (NetworkDnsResponse response) = is_ok (validate_response response)"
| "dns_payload_valid (NetworkConnect c) = none_or (\<lambda>x. is_ok (validate_context x)) (dns_context_of c)"
| "dns_payload_valid _ = True"

definition validate_dns_event :: "runtime_event \<Rightarrow> (unit, ingestion_error) result" where
  "validate_dns_event e = (if dns_payload_valid (payload e) then Ok () else Err InvalidDns)"

fun exit_status_valid :: "process_termination \<Rightarrow> i32 \<Rightarrow> bool" where
  "exit_status_valid (Exited status) raw = (raw = uint status * 2 ^ 8)"
| "exit_status_valid (Signaled signal signal_name core) raw =
     (is_ok (signaled signal signal_name core)
      \<and> raw = uint (Bit_Operations.or signal (if core then 0x80 else 0)))"

fun exit_correlation_valid :: "generation_correlation \<Rightarrow> bool" where
  "exit_correlation_valid (ObservedGeneration gen _ exe) =
     (gen > 0 \<and> exe \<noteq> [] \<and> length exe \<le> MAX_TERMINATION_TEXT_BYTES)"
| "exit_correlation_valid (Unresolved _) = True"

definition generation_valid :: "process_generation_identity option \<Rightarrow> bool" where
  "generation_valid = none_or (\<lambda>g. is_ok (validate_generation g))"

definition process_exit_valid :: "process_identity \<Rightarrow> process_exit \<Rightarrow> bool" where
  "process_exit_valid p v \<longleftrightarrow>
     pe_source v = Kernel \<and> exit_status_valid (exit_termination v) (raw_wait_status v)
     \<and> exit_correlation_valid (correlation v) \<and> generation_valid (pe_generation v)
     \<and> (classification v \<noteq> Leader \<or> (pid p > 0 \<and> pid p = tgid p))"

fun termination_payload_valid :: "uuid \<Rightarrow> datetime \<Rightarrow> process_identity \<Rightarrow> event_payload \<Rightarrow> bool" where
  "termination_payload_valid ev at p (ProcessStart v) =
     (is_ok (validate_start v) \<and> pid p > 0 \<and> pid p = tgid p \<and> command p \<noteq> []
      \<and> length (command p) \<le> MAX_THREAD_NAME_BYTES)"
| "termination_payload_valid ev at p (ProcessExec v) = generation_valid (exec_generation v)"
| "termination_payload_valid ev at p (ThreadActivityWindow w) =
     (is_ok (validate_window w) \<and> tw_process w = p \<and> tw_id w = ev \<and> at \<ge> window_ended_at w)"
| "termination_payload_valid ev at p (ProcessExit v) = process_exit_valid p v"
| "termination_payload_valid ev at p (ContainerTermination v) =
     (container_termination_new (ct_container_id v) (ct_reason v) (exit_code v) (started_at v) (finished_at v) = Ok v)"
| "termination_payload_valid ev at p (ContainerRestart v) =
     (container_restart_new (cr_container_id v) (restart_count v) (restart_delta v) (previous_termination v)
        (waiting_reason v) = Ok v)"
| "termination_payload_valid ev at p _ = True"

definition validate_termination_event :: "runtime_event \<Rightarrow> (unit, ingestion_error) result" where
  "validate_termination_event e =
     (if termination_payload_valid (event_id e) (event_observed_at e) (event_process e) (payload e)
      then Ok () else Err InvalidTermination)"

section \<open>Releases\<close>

definition insert_observed ::
    "release_row \<Rightarrow> release_row list \<Rightarrow> (release_row list \<times> uuid, db_error) result" where
  "insert_observed row rows =
     (case find (\<lambda>r. rel_application_id r = rel_application_id row \<and> rel_version r = rel_version row) rows of
        None \<Rightarrow> Ok (rows @ [row], rel_id row)
      | Some r \<Rightarrow>
          if rel_organization_id r = rel_organization_id row \<and> rel_project_id r = rel_project_id row
             \<and> rel_source r = ''observed'' \<and> rel_identity r = rel_identity row
          then Ok (update_where (\<lambda>x. rel_application_id x = rel_application_id row \<and> rel_version x = rel_version row)
                     (\<lambda>x. x\<lparr>rel_components := rel_components row\<rparr>) rows, rel_id r)
          else Err RowNotFound)"

definition resolve_observed_release ::
    "uuid \<Rightarrow> uuid \<Rightarrow> kubernetes_attribution \<Rightarrow> release_identity \<Rightarrow> datetime \<Rightarrow> release_row list \<Rightarrow>
       (release_row list \<times> uuid, db_error) result" where
  "resolve_observed_release candidate org a identity at rows =
     insert_observed \<lparr>rel_id = candidate, rel_organization_id = org, rel_project_id = project_id a,
       rel_application_id = application_id a, rel_version = ''sha256:'' @ hex_encode (ri_digest identity),
       rel_deployed_at = at, rel_source = ''observed'',
       rel_identity = Some (min (unat (ri_version identity)) (2 ^ 15 - 1), ri_digest identity),
       rel_components = ri_containers identity\<rparr> rows"

definition id_by_version :: "uuid \<Rightarrow> kubernetes_attribution \<Rightarrow> string \<Rightarrow> release_row list \<Rightarrow> uuid option" where
  "id_by_version org a version rows =
     map_option rel_id (find (\<lambda>r. rel_organization_id r = org \<and> rel_project_id r = project_id a
        \<and> rel_application_id r = application_id a \<and> rel_version r = version) rows)"

definition resolve_release ::
    "wire_lib \<Rightarrow> uuid \<Rightarrow> uuid \<Rightarrow> runtime_event \<Rightarrow> release_row list \<Rightarrow>
       (release_row list \<times> uuid option, ingestion_error) result" where
  "resolve_release L candidate org e rows =
     (let a = attribution e
      in case release_identity_of a of
           Some identity \<Rightarrow>
             res_bind (map_err (\<lambda>_. InvalidReleaseIdentity) (validate_release (sha256 L) identity)) (\<lambda>_.
             res_bind (map_err Database (resolve_observed_release candidate org a identity (event_observed_at e) rows))
               (\<lambda>(rows', rid). Ok (rows', Some rid)))
         | None \<Rightarrow>
             (case release a of
                None \<Rightarrow> Ok (rows, None)
              | Some version \<Rightarrow> Ok (rows, id_by_version org a version rows)))"

section \<open>One event\<close>

definition MAX_I64 :: nat where "MAX_I64 = 2 ^ 63 - 1"

definition fits_i64 :: "u64 \<Rightarrow> bool" where
  "fits_i64 w \<longleftrightarrow> unat w \<le> MAX_I64"

text \<open>The two unique constraints of \<open>thread_activity_windows\<close>; a conflict with either inserts nothing.\<close>

definition same_window :: "window_row \<Rightarrow> window_row \<Rightarrow> bool" where
  "same_window x y \<longleftrightarrow> wr_id x = wr_id y \<or>
     (wr_organization_id x = wr_organization_id y \<and> wr_application_id x = wr_application_id y
      \<and> cgroup_id (wr_process x) = cgroup_id (wr_process y) \<and> tgid (wr_process x) = tgid (wr_process y)
      \<and> generation (tw_generation (wr_window x)) = generation (tw_generation (wr_window y))
      \<and> observation_epoch (tw_generation (wr_window x)) = observation_epoch (tw_generation (wr_window y))
      \<and> window_started_at (wr_window x) = window_started_at (wr_window y)
      \<and> window_ended_at (wr_window x) = window_ended_at (wr_window y))"

definition insert_window :: "window_row \<Rightarrow> window_row list \<Rightarrow> window_row list \<times> bool" where
  "insert_window row rows =
     (if \<exists>r \<in> set rows. same_window r row then (rows, False) else (rows @ [row], True))"

definition persist_thread_window ::
    "ingestion_context \<Rightarrow> runtime_event \<Rightarrow> thread_activity_window \<Rightarrow> database \<Rightarrow>
       (database \<times> nat, ingestion_error) result" where
  "persist_thread_window ctx e w db =
     (if \<not> is_ok (validate_window w) then Err InvalidTermination
      else if \<not> (fits_i64 (cgroup_id (event_process e)) \<and> fits_i64 (generation (tw_generation w))
          \<and> fits_i64 (tw_created w) \<and> fits_i64 (tw_exited w) \<and> fits_i64 (tw_active_at_start w)
          \<and> fits_i64 (tw_active_at_end w) \<and> fits_i64 (tw_peak_active w) \<and> fits_i64 (name_overflow w))
      then Err LifecycleCounterOverflow
      else case insert_window \<lparr>wr_id = tw_id w, wr_organization_id = ss_organization_id (ic_scope ctx),
             wr_project_id = project_id (attribution e), wr_application_id = application_id (attribution e),
             wr_cluster_id = ss_cluster_id (ic_scope ctx), wr_agent_id = ic_agent_id ctx,
             wr_observed_at = event_observed_at e, wr_process = event_process e, wr_window = w\<rparr>
             (db_windows db) of
        (rows, inserted) \<Rightarrow> Ok (db\<lparr>db_windows := rows\<rparr>, if inserted then 1 else 0))"

definition event_key :: "event_row \<Rightarrow> uuid \<times> uuid" where
  "event_key r = (er_agent_id r, er_event_id r)"

definition new_event :: "ingestion_context \<Rightarrow> uuid \<Rightarrow> uuid option \<Rightarrow> runtime_event \<Rightarrow> event_row" where
  "new_event ctx raw release_id e = \<lparr>er_id = raw, er_event_id = event_id e,
     er_organization_id = ss_organization_id (ic_scope ctx), er_cluster_id = ss_cluster_id (ic_scope ctx),
     er_agent_id = ic_agent_id ctx, er_release_id = release_id, er_observed_at = event_observed_at e,
     er_attribution = attribution e, er_cgroup_id = unat (cgroup_id (event_process e)),
     er_pid = pid (event_process e), er_tgid = tgid (event_process e), er_command = command (event_process e),
     er_kind = kind e, er_schema_version = min (unat (schema_version e)) I32_MAX, er_payload = payload e\<rparr>"

definition grouping_scope_of :: "ingestion_context \<Rightarrow> kubernetes_attribution \<Rightarrow> grouping_scope" where
  "grouping_scope_of ctx a = \<lparr>gs_organization_id = ss_organization_id (ic_scope ctx),
     gs_project_id = project_id a, gs_application_id = application_id a,
     gs_cluster_id = ss_cluster_id (ic_scope ctx), gs_namespace = namespace a,
     gs_workload_kind = workload_kind a, gs_workload_name = workload_name a\<rparr>"

text \<open>The projections of a stored event, in the order of the source.\<close>

definition project_stored ::
    "wire_lib \<Rightarrow> serde_lib \<Rightarrow> fresh_ids \<Rightarrow> ingestion_context \<Rightarrow> uuid option \<Rightarrow> runtime_event \<Rightarrow> event_row list \<Rightarrow>
       policy_tables \<times> projection_tables \<Rightarrow> (policy_tables \<times> projection_tables, db_error) result" where
  "project_stored L S ids ctx release_id e evs pt =
     (let org = ss_organization_id (ic_scope ctx); cluster = ss_cluster_id (ic_scope ctx);
          raw = fi_event ids; (p, t) = pt
      in res_bind (assign_event S (sha256 L) (fi_group ids) (fi_outbox ids) raw release_id
           (grouping_scope_of ctx (attribution e)) e Live (pt_groups t)) (\<lambda>(g, grouping).
         res_bind (project_event S (sha256 L) (fi_item ids) raw (go_group_id grouping) release_id cluster org e
           (pt_inventory t)) (\<lambda>(i, inventory).
         res_bind (project_current_evaluation org cluster (go_group_id grouping) (po_item_id inventory) e i p) (\<lambda>p'.
         res_bind (project_durable_evidence L S (fi_loop_group ids) (fi_loop_outbox ids) raw org cluster e evs
           (t\<lparr>pt_groups := g, pt_inventory := i\<rparr>)) (\<lambda>t'. Ok (p', t'))))))"

definition persist_event ::
    "wire_lib \<Rightarrow> serde_lib \<Rightarrow> fresh_ids \<Rightarrow> ingestion_context \<Rightarrow> runtime_event \<Rightarrow> database \<Rightarrow>
       (database \<times> nat, ingestion_error) result" where
  "persist_event L S ids ctx e db =
     res_bind (validate_dns_event e) (\<lambda>_.
     res_bind (validate_termination_event e) (\<lambda>_.
       if schema_version e \<noteq> EVENT_SCHEMA_VERSION then Err (UnsupportedSchema (schema_version e))
       else if (ss_organization_id (ic_scope ctx), project_id (attribution e), application_id (attribution e))
                 \<notin> set (db_applications db)
       then Err InvalidOwnership
       else case payload e of
         ThreadActivityWindow w \<Rightarrow> persist_thread_window ctx e w db
       | _ \<Rightarrow>
         res_bind (resolve_release L (fi_release ids) (ss_organization_id (ic_scope ctx)) e (db_releases db))
           (\<lambda>(rels, release_id).
           if \<not> fits_i64 (cgroup_id (event_process e)) then Err CgroupOverflow
           else case insert_new event_key (new_event ctx (fi_event ids) release_id e) (db_events db) of
             (evs, inserted) \<Rightarrow>
               if \<not> inserted then Ok (db\<lparr>db_releases := rels\<rparr>, 0)
               else res_bind (map_err Database (project_stored L S ids ctx release_id e evs
                      (db_policies db, db_projections db))) (\<lambda>(p, t).
                    Ok (db\<lparr>db_releases := rels, db_events := evs, db_policies := p, db_projections := t\<rparr>, 1)))))"

section \<open>A batch\<close>

definition is_active :: "credential_scope \<Rightarrow> database \<Rightarrow> bool" where
  "is_active c db \<longleftrightarrow> (\<exists>r \<in> set (db_credentials db). cr_scope r = c \<and> cr_revoked_at r = None)"

definition lock_project :: "uuid \<Rightarrow> uuid \<Rightarrow> database \<Rightarrow> (datetime option, db_error) result" where
  "lock_project org proj db =
     (if org \<notin> org_id ` set (db_organizations db) then Err RowNotFound
      else ok_or RowNotFound (map_option pr_closed_before
        (find (\<lambda>r. pr_organization_id r = org \<and> pr_id r = proj) (db_projects db))))"

definition MAX_U32 :: nat where "MAX_U32 = 2 ^ 32 - 1"

definition owned_by :: "credential_scope \<Rightarrow> runtime_event \<Rightarrow> runtime_event" where
  "owned_by c e = e\<lparr>attribution := (attribution e)\<lparr>project_id := ac_project_id c,
     application_id := ac_application_id c\<rparr>\<rparr>"

definition expired :: "datetime option \<Rightarrow> runtime_event \<Rightarrow> bool" where
  "expired closed e \<longleftrightarrow> (case closed of None \<Rightarrow> False | Some boundary \<Rightarrow> event_observed_at e < boundary)"

fun persist_events ::
    "wire_lib \<Rightarrow> serde_lib \<Rightarrow> ingestion_context \<Rightarrow> credential_scope \<Rightarrow> datetime option \<Rightarrow>
       (runtime_event \<times> fresh_ids) list \<Rightarrow> nat \<times> nat \<Rightarrow> database \<Rightarrow> (database \<times> nat \<times> nat, ingestion_error) result" where
  "persist_events L S ctx c closed [] out db = Ok (db, out)"
| "persist_events L S ctx c closed ((e, ids) # es) (accepted, dropped) db =
     (if expired closed e then persist_events L S ctx c closed es (accepted, dropped + 1) db
      else res_bind (persist_event L S ids ctx (owned_by c e) db) (\<lambda>(db', n).
        persist_events L S ctx c closed es (min (accepted + n) MAX_U32, dropped) db'))"

text \<open>The body of the transaction, and the transaction: a batch that fails leaves the database as it was.\<close>

definition batch_body ::
    "wire_lib \<Rightarrow> serde_lib \<Rightarrow> session_scope \<Rightarrow> credential_scope \<Rightarrow> uuid \<Rightarrow> (runtime_event \<times> fresh_ids) list \<Rightarrow>
       database \<Rightarrow> (database \<times> nat \<times> nat, ingestion_error) result" where
  "batch_body L S scope c agent es db =
     (if ac_organization_id c \<noteq> ss_organization_id scope then Err InvalidOwnership
      else if \<not> is_active c db then Err RevokedCredential
      else res_bind (map_err Database (lock_project (ss_organization_id scope) (ac_project_id c) db)) (\<lambda>closed.
        persist_events L S \<lparr>ic_scope = scope, ic_agent_id = agent\<rparr> c closed es (0, 0) db))"

definition persist_application_batch_outcome ::
    "wire_lib \<Rightarrow> serde_lib \<Rightarrow> session_scope \<Rightarrow> credential_scope \<Rightarrow> uuid \<Rightarrow> (runtime_event \<times> fresh_ids) list \<Rightarrow>
       database \<Rightarrow> database \<times> (nat \<times> nat, ingestion_error) result" where
  "persist_application_batch_outcome L S scope c agent es db =
     (case batch_body L S scope c agent es db of
        Ok (db', out) \<Rightarrow> (db', Ok out)
      | Err x \<Rightarrow> (db, Err x))"

end
