(* ===== verification/Retention.thy ===== *)
theory Retention
  imports Ingestion Table_Queries
begin

text \<open>
  Retention of runtime events (\<open>crates/server/src/runtime_retention/worker.rs\<close>, statements of
  \<open>crates/server/src/repository/runtime_retention.rs\<close>). A run on a project first moves the project's
  horizon forward (\<open>close_horizon\<close>, the first transaction of \<open>process_project\<close>), then drains a bounded
  number of the events before it (\<open>drain\<close>, the second): the events are folded into daily snapshots
  of their Runtime Groups and deleted, the groups and inventory items they belonged to are counted
  again, old snapshots, restart loops and thread windows expire, and what has become empty goes.

  A deletion carries the foreign keys of the schema: memberships, correlations, outcomes and restarts
  go with their event, verdicts of a sighting with the sighting, and so on. \<open>gen_random_uuid\<close> is the
  argument \<open>draw\<close>. A \<open>LIMIT\<close> without \<open>ORDER BY\<close>, where the database may choose, takes the first rows
  of the table, and \<open>max(pod_name)\<close> compares bytes.
\<close>

section \<open>Joins\<close>

definition join_events :: "membership_row list \<Rightarrow> event_row list \<Rightarrow> (membership_row \<times> event_row) list" where
  "join_events ms evs = [(m, e). m \<leftarrow> ms, e \<leftarrow> evs, er_id e = m_event_id m]"

definition join_item_events :: "item_membership list \<Rightarrow> event_row list \<Rightarrow> (item_membership \<times> event_row) list" where
  "join_item_events ms evs = [(m, e). m \<leftarrow> ms, e \<leftarrow> evs, er_id e = im_event_id m]"

definition least_of :: "('a \<Rightarrow> datetime) \<Rightarrow> 'a list \<Rightarrow> datetime" where
  "least_of f xs = Min (f ` set xs)"

definition greatest_of :: "('a \<Rightarrow> datetime) \<Rightarrow> 'a list \<Rightarrow> datetime" where
  "greatest_of f xs = Max (f ` set xs)"

section \<open>Choosing what to drain\<close>

definition NANOS_PER_DAY :: int where "NANOS_PER_DAY = 24 * 60 * 60 * 1000000000"

definition LIFECYCLE_GRACE :: int where "LIFECYCLE_GRACE = 10 * 60 * 1000000000"

definition day_of :: "datetime \<Rightarrow> int" where "day_of at = at div NANOS_PER_DAY"

definition day_cutoff :: "datetime \<Rightarrow> int \<Rightarrow> datetime" where
  "day_cutoff now days = day_of (now - days * NANOS_PER_DAY) * NANOS_PER_DAY"

definition is_closed :: "uuid \<Rightarrow> datetime option \<Rightarrow> group_tables \<Rightarrow> event_row \<Rightarrow> bool" where
  "is_closed proj closed t e \<longleftrightarrow>
     (case closed of
        None \<Rightarrow> False
      | Some boundary \<Rightarrow> project_id (er_attribution e) = proj
          \<and> (\<exists>m \<in> set (memberships t). m_event_id m = er_id e \<and> m_version m = 1)
          \<and> er_observed_at e < boundary
          \<and> (er_kind e \<notin> {''container.restart'', ''container.terminated'', ''process.exit''}
             \<or> er_observed_at e < boundary - LIFECYCLE_GRACE))"

definition closed_events_for_update ::
    "uuid \<Rightarrow> datetime option \<Rightarrow> nat \<Rightarrow> event_row list \<Rightarrow> group_tables \<Rightarrow> uuid list" where
  "closed_events_for_update proj closed limit evs t =
     map er_id (first_rows (\<lambda>e. (er_observed_at e, er_id e)) limit (is_closed proj closed t) evs)"

definition groups_of_events :: "uuid list \<Rightarrow> group_tables \<Rightarrow> uuid list" where
  "groups_of_events ids t =
     remdups (map m_group_id (filter (\<lambda>m. m_event_id m \<in> set ids) (memberships t)))"

definition items_of_events :: "uuid list \<Rightarrow> inventory_tables \<Rightarrow> uuid list" where
  "items_of_events ids t =
     remdups (map im_item_id (filter (\<lambda>m. im_event_id m \<in> set ids) (item_memberships t)))"

section \<open>Folding events into snapshots\<close>

definition snapshot_of ::
    "(uuid \<Rightarrow> uuid option \<Rightarrow> int \<Rightarrow> uuid) \<Rightarrow> (uuid \<times> uuid option \<times> int) \<times> (membership_row \<times> event_row) list \<Rightarrow> snapshot_row" where
  "snapshot_of draw = (\<lambda>((gid, rel, day), ys).
     \<lparr>sn_id = draw gid rel day, sn_organization_id = er_organization_id (snd (hd ys)),
      sn_project_id = project_id (er_attribution (snd (hd ys))),
      sn_application_id = application_id (er_attribution (snd (hd ys))),
      sn_group_id = gid, sn_release_id = rel, sn_day = day, sn_occurrence_count = length ys,
      sn_first_observed_at = least_of (er_observed_at \<circ> snd) ys,
      sn_last_observed_at = greatest_of (er_observed_at \<circ> snd) ys\<rparr>)"

definition add_snapshot :: "snapshot_row \<Rightarrow> snapshot_row \<Rightarrow> snapshot_row" where
  "add_snapshot new s = s\<lparr>sn_occurrence_count := sn_occurrence_count s + sn_occurrence_count new,
     sn_first_observed_at := min (sn_first_observed_at s) (sn_first_observed_at new),
     sn_last_observed_at := max (sn_last_observed_at s) (sn_last_observed_at new)\<rparr>"

definition keeps_history :: "datetime option \<Rightarrow> event_row \<Rightarrow> bool" where
  "keeps_history expired_before e \<longleftrightarrow>
     (case expired_before of None \<Rightarrow> True | Some horizon \<Rightarrow> horizon \<le> er_observed_at e)"

definition fold_into_history_snapshots ::
    "(uuid \<Rightarrow> uuid option \<Rightarrow> int \<Rightarrow> uuid) \<Rightarrow> uuid list \<Rightarrow> datetime option \<Rightarrow> bool \<Rightarrow> event_row list \<Rightarrow>
       group_tables \<Rightarrow> group_tables" where
  "fold_into_history_snapshots draw ids expired_before with_rel evs t =
     t\<lparr>snapshots := merge_rows snapshot_key add_snapshot
         (map (snapshot_of draw) (group_by (\<lambda>(m, e). (m_group_id m, m_release_id m, day_of (er_observed_at e)))
           (filter (\<lambda>(m, e). er_id e \<in> set ids \<and> keeps_history expired_before e
              \<and> (m_release_id m \<noteq> None) = with_rel) (join_events (memberships t) evs))))
         (snapshots t)\<rparr>"

section \<open>Deleting events\<close>

text \<open>The outcome of a correlation partner whose evidence goes is marked.\<close>

definition mark_correlations_incomplete ::
    "uuid list \<Rightarrow> event_row list \<Rightarrow> termination_tables \<Rightarrow> termination_tables" where
  "mark_correlations_incomplete ids evs t =
     (let partners = map cl_kernel_event_id (filter (\<lambda>c. cl_lifecycle_event_id c \<in> set ids) (correlations t))
            @ map cl_lifecycle_event_id (filter (\<lambda>c. cl_kernel_event_id c \<in> set ids) (correlations t))
      in t\<lparr>outcomes := merge_rows co_event_id (\<lambda>_ r. r\<lparr>co_retention_incomplete := True\<rparr>)
           (map (\<lambda>e. \<lparr>co_event_id = er_id e, co_organization_id = er_organization_id e,
                 co_project_id = project_id (er_attribution e), co_status = ''qualified'', co_candidate_count = 1,
                 co_tolerance_seconds = 30, co_retention_incomplete = True\<rparr>)
              (filter (\<lambda>e. er_id e \<in> set partners) evs))
           (outcomes t)\<rparr>)"

definition detach_events :: "uuid list \<Rightarrow> group_tables \<Rightarrow> group_tables" where
  "detach_events ids t =
     (let gone = (\<lambda>r. case r of None \<Rightarrow> False | Some ev \<Rightarrow> ev \<in> set ids)
      in t\<lparr>groups := update_where (gone \<circ> g_first_seen_event) (\<lambda>r. r\<lparr>g_first_seen_event := None\<rparr>)
             (update_where (gone \<circ> g_representative) (\<lambda>r. r\<lparr>g_representative := None\<rparr>) (groups t)),
           group_releases := update_where (gone \<circ> gr_representative) (\<lambda>r. r\<lparr>gr_representative := None\<rparr>)
             (group_releases t)\<rparr>)"

definition delete_events :: "uuid list \<Rightarrow> database \<Rightarrow> database" where
  "delete_events ids db =
     (let t = db_projections db; g = pt_groups t; i = pt_inventory t; x = pt_terminations t
      in db\<lparr>db_events := delete_where (\<lambda>e. er_id e \<in> set ids) (db_events db),
            db_projections := t\<lparr>
              pt_groups := g\<lparr>memberships := delete_where (\<lambda>m. m_event_id m \<in> set ids) (memberships g)\<rparr>,
              pt_inventory := i\<lparr>item_memberships := delete_where (\<lambda>m. im_event_id m \<in> set ids) (item_memberships i)\<rparr>,
              pt_terminations := x\<lparr>
                correlations := delete_where (\<lambda>c. cl_lifecycle_event_id c \<in> set ids
                    \<or> cl_kernel_event_id c \<in> set ids) (correlations x),
                outcomes := delete_where (\<lambda>r. co_event_id r \<in> set ids) (outcomes x),
                restarts := delete_where (\<lambda>r. rs_event_id r \<in> set ids) (restarts x)\<rparr>\<rparr>\<rparr>)"

fun jsonb_minus :: "json \<Rightarrow> string list \<Rightarrow> json" where
  "jsonb_minus (JObject fs) ks = JObject (filter (\<lambda>(k, v). k \<notin> set ks) fs)"
| "jsonb_minus j ks = j"

definition clear_restart_loop_windows :: "uuid list \<Rightarrow> group_tables \<Rightarrow> group_tables" where
  "clear_restart_loop_windows gids t =
     t\<lparr>groups := update_where (\<lambda>g. g_id g \<in> set gids \<and> g_event_kind g = ''container.restart_loop''
           \<and> \<not> (\<exists>m \<in> set (memberships t). m_group_id m = g_id g))
         (\<lambda>g. g\<lparr>g_semantic := jsonb_minus (g_semantic g) [''latest_termination'', ''latest_waiting_reason'',
            ''observed_restart_count'', ''window_started_at'', ''window_ended_at'']\<rparr>) (groups t)\<rparr>"

section \<open>Counting groups again\<close>

text \<open>\<open>ORDER BY observed_at DESC, id DESC LIMIT 1\<close>\<close>

definition latest_event :: "(membership_row \<times> event_row) list \<Rightarrow> uuid option" where
  "latest_event ys =
     (case rev (sort_key (\<lambda>(m, e). (er_observed_at e, er_id e)) ys) of [] \<Rightarrow> None | y # _ \<Rightarrow> Some (m_event_id (fst y)))"

definition restore_group_representative :: "uuid \<Rightarrow> event_row list \<Rightarrow> group_tables \<Rightarrow> group_tables" where
  "restore_group_representative gid evs t =
     t\<lparr>groups := update_where (\<lambda>g. g_id g = gid \<and> g_representative g = None)
         (\<lambda>g. g\<lparr>g_representative := latest_event
            (filter (\<lambda>(m, e). m_group_id m = gid) (join_events (memberships t) evs))\<rparr>) (groups t)\<rparr>"

definition evidence :: "uuid \<Rightarrow> event_row list \<Rightarrow> group_tables \<Rightarrow> (datetime \<times> datetime \<times> nat) list" where
  "evidence gid evs t =
     map (\<lambda>(m, e). (er_observed_at e, er_observed_at e, 1))
       (filter (\<lambda>(m, e). m_group_id m = gid) (join_events (memberships t) evs))
     @ map (\<lambda>s. (sn_first_observed_at s, sn_last_observed_at s, sn_occurrence_count s))
       (filter (\<lambda>s. sn_group_id s = gid) (snapshots t))"

definition recount_group :: "uuid \<Rightarrow> event_row list \<Rightarrow> group_tables \<Rightarrow> group_tables" where
  "recount_group gid evs t =
     (let ev = evidence gid evs t
      in t\<lparr>groups := update_where (\<lambda>g. g_id g = gid)
           (\<lambda>g. g\<lparr>g_occurrence_count := sum_list (map (snd \<circ> snd) ev),
              g_first_seen_at := (if ev = [] then g_first_seen_at g else least_of fst ev),
              g_last_seen_at := (if ev = [] then g_last_seen_at g else greatest_of (fst \<circ> snd) ev)\<rparr>) (groups t)\<rparr>)"

definition clear_group_releases :: "uuid \<Rightarrow> group_tables \<Rightarrow> group_tables" where
  "clear_group_releases gid t = t\<lparr>group_releases := delete_where (\<lambda>r. gr_group_id r = gid) (group_releases t)\<rparr>"

definition release_evidence ::
    "uuid \<Rightarrow> event_row list \<Rightarrow> group_tables \<Rightarrow> (uuid \<times> datetime \<times> datetime \<times> nat) list" where
  "release_evidence gid evs t =
     [(rel, er_observed_at e, er_observed_at e, 1). (m, e) \<leftarrow> join_events (memberships t) evs,
        m_group_id m = gid, Some rel \<leftarrow> [m_release_id m]]
     @ [(rel, sn_first_observed_at s, sn_last_observed_at s, sn_occurrence_count s). s \<leftarrow> snapshots t,
        sn_group_id s = gid, Some rel \<leftarrow> [sn_release_id s]]"

definition rebuild_group_releases :: "uuid \<Rightarrow> event_row list \<Rightarrow> group_tables \<Rightarrow> group_tables" where
  "rebuild_group_releases gid evs t =
     t\<lparr>group_releases := group_releases t @ map (\<lambda>(rel, ys). \<lparr>gr_release_id = rel, gr_group_id = gid,
           gr_occurrence_count = sum_list (map (snd \<circ> snd \<circ> snd) ys), gr_first_seen_at = least_of (fst \<circ> snd) ys,
           gr_last_seen_at = greatest_of (fst \<circ> snd \<circ> snd) ys, gr_representative = None\<rparr>)
         (group_by fst (release_evidence gid evs t))\<rparr>"

definition restore_release_representatives :: "uuid list \<Rightarrow> event_row list \<Rightarrow> group_tables \<Rightarrow> group_tables" where
  "restore_release_representatives gids evs t =
     t\<lparr>group_releases := update_where (\<lambda>r. gr_group_id r \<in> set gids)
         (\<lambda>r. r\<lparr>gr_representative := latest_event (filter (\<lambda>(m, e). m_group_id m = gr_group_id r
            \<and> m_release_id m = Some (gr_release_id r)) (join_events (memberships t) evs))\<rparr>) (group_releases t)\<rparr>"

definition recount_groups :: "uuid list \<Rightarrow> event_row list \<Rightarrow> group_tables \<Rightarrow> group_tables" where
  "recount_groups gids evs t =
     restore_release_representatives gids evs
       (fold (\<lambda>gid t. rebuild_group_releases gid evs (clear_group_releases gid
          (recount_group gid evs (restore_group_representative gid evs t)))) gids t)"

section \<open>Counting inventory items again\<close>

definition recount_item :: "uuid \<Rightarrow> event_row list \<Rightarrow> inventory_tables \<Rightarrow> inventory_tables" where
  "recount_item iid evs t =
     (let es = map snd (filter (\<lambda>(m, e). im_item_id m = iid) (join_item_events (item_memberships t) evs));
          observed = (\<lambda>k. JBool (\<exists>e \<in> set es. er_kind e = k))
      in t\<lparr>items := update_where (\<lambda>r. it_id r = iid)
           (\<lambda>r. r\<lparr>it_occurrence_count := length es,
              it_first_seen_at := (if es = [] then it_first_seen_at r else least_of er_observed_at es),
              it_last_seen_at := (if es = [] then it_last_seen_at r else greatest_of er_observed_at es),
              it_semantic := (if ik_kind (it_key r) = InventoryInboundEndpoint
                 then jsonb_set ''accept_observed'' (observed ''network.accept'')
                        (jsonb_set ''listener_observed'' (observed ''network.listen'') (it_semantic r))
                 else it_semantic r)\<rparr>) (items t)\<rparr>)"

text \<open>The verdicts of the deleted sightings go with them.\<close>

definition clear_item_projections ::
    "uuid \<Rightarrow> policy_tables \<times> inventory_tables \<Rightarrow> policy_tables \<times> inventory_tables" where
  "clear_item_projections iid = (\<lambda>(p, t).
     (p\<lparr>sighting_evaluations := delete_where (\<lambda>r. sk_item_id (se_key r) = iid) (sighting_evaluations p)\<rparr>,
      t\<lparr>item_releases := delete_where (\<lambda>r. ir_item_id r = iid) (item_releases t),
        sightings := delete_where (\<lambda>r. sk_item_id (sg_key r) = iid) (sightings t),
        group_links := delete_where (\<lambda>l. gl_item_id l = iid) (group_links t)\<rparr>))"

definition rebuild_item_releases :: "uuid \<Rightarrow> event_row list \<Rightarrow> inventory_tables \<Rightarrow> inventory_tables" where
  "rebuild_item_releases iid evs t =
     t\<lparr>item_releases := item_releases t @ map (\<lambda>(rel, es). \<lparr>ir_item_id = iid, ir_release_id = rel,
           ir_occurrence_count = length es, ir_first_seen_at = least_of (er_observed_at \<circ> snd) es,
           ir_last_seen_at = greatest_of (er_observed_at \<circ> snd) es\<rparr>)
         (group_by fst [(rel, e). (m, e) \<leftarrow> join_item_events (item_memberships t) evs, im_item_id m = iid,
            Some rel \<leftarrow> [er_release_id e]])\<rparr>"

definition rebuild_item_sightings :: "uuid \<Rightarrow> event_row list \<Rightarrow> inventory_tables \<Rightarrow> inventory_tables" where
  "rebuild_item_sightings iid evs t =
     t\<lparr>sightings := sightings t @ map (\<lambda>(k, es). \<lparr>sg_key = k,
           sg_pod_name = Max ((pod_name \<circ> er_attribution) ` set es), sg_occurrence_count = length es,
           sg_first_seen_at = least_of er_observed_at es, sg_last_seen_at = greatest_of er_observed_at es\<rparr>)
         (group_by (\<lambda>e. sighting_at iid (er_cluster_id e) (er_attribution e))
            (map snd (filter (\<lambda>(m, e). im_item_id m = iid) (join_item_events (item_memberships t) evs))))\<rparr>"

definition rebuild_item_group_links :: "uuid \<Rightarrow> membership_row list \<Rightarrow> inventory_tables \<Rightarrow> inventory_tables" where
  "rebuild_item_group_links iid ms t =
     t\<lparr>group_links := group_links t @ remdups [\<lparr>gl_item_id = iid, gl_group_id = m_group_id g\<rparr>.
         m \<leftarrow> item_memberships t, im_item_id m = iid, g \<leftarrow> ms, m_event_id g = im_event_id m]\<rparr>"

definition recount_inventory ::
    "uuid list \<Rightarrow> event_row list \<Rightarrow> membership_row list \<Rightarrow> policy_tables \<times> inventory_tables \<Rightarrow>
       policy_tables \<times> inventory_tables" where
  "recount_inventory iids evs ms pt =
     fold (\<lambda>iid (p, t). case clear_item_projections iid (p, recount_item iid evs t) of
        (p', t') \<Rightarrow> (p', rebuild_item_group_links iid ms (rebuild_item_sightings iid evs
                          (rebuild_item_releases iid evs t')))) iids pt"

section \<open>Compaction\<close>

definition compact ::
    "(uuid \<Rightarrow> uuid option \<Rightarrow> int \<Rightarrow> uuid) \<Rightarrow> uuid list \<Rightarrow> datetime option \<Rightarrow> database \<Rightarrow> database" where
  "compact draw ids expired_before db =
     (if ids = [] then db
      else
        let t = db_projections db; evs = db_events db;
            gids = groups_of_events ids (pt_groups t);
            iids = items_of_events ids (pt_inventory t);
            g1 = fold_into_history_snapshots draw ids expired_before True evs
                   (fold_into_history_snapshots draw ids expired_before False evs (pt_groups t));
            x1 = mark_correlations_incomplete ids evs (pt_terminations t);
            db1 = delete_events ids (db\<lparr>db_projections := t\<lparr>pt_groups := detach_events ids g1, pt_terminations := x1\<rparr>\<rparr>);
            t1 = db_projections db1;
            g2 = recount_groups gids (db_events db1) (clear_restart_loop_windows gids (pt_groups t1));
            (p, i) = recount_inventory iids (db_events db1) (memberships g2) (db_policies db1, pt_inventory t1)
        in db1\<lparr>db_policies := p, db_projections := t1\<lparr>pt_groups := g2, pt_inventory := i\<rparr>\<rparr>)"

section \<open>Expiry\<close>

definition expire_snapshots ::
    "uuid \<Rightarrow> datetime option \<Rightarrow> nat \<Rightarrow> group_tables \<Rightarrow> group_tables \<times> uuid list" where
  "expire_snapshots proj expired_before limit t =
     (let old = (case expired_before of
                   None \<Rightarrow> []
                 | Some horizon \<Rightarrow> first_rows (\<lambda>s. (sn_day s, sn_id s)) limit
                     (\<lambda>s. sn_project_id s = proj \<and> sn_day s < day_of horizon) (snapshots t));
          gone = (\<lambda>s. sn_id s \<in> sn_id ` set old)
      in (t\<lparr>snapshots := delete_where gone (snapshots t)\<rparr>, map sn_group_id (filter gone (snapshots t))))"

definition closed_before :: "uuid \<Rightarrow> database \<Rightarrow> datetime option" where
  "closed_before proj db = Option.bind (find (\<lambda>p. pr_id p = proj) (db_projects db)) pr_closed_before"

definition expire_restart_loop_projections :: "uuid \<Rightarrow> datetime option \<Rightarrow> nat \<Rightarrow> termination_tables \<Rightarrow> termination_tables" where
  "expire_restart_loop_projections proj closed limit x =
     (let old = (case closed of
                   None \<Rightarrow> []
                 | Some boundary \<Rightarrow> take limit (filter (\<lambda>r. ck_project_id (rl_key r) = proj
                     \<and> rl_window_ended_at r < boundary - LIFECYCLE_GRACE) (restart_loops x)))
      in x\<lparr>restart_loops := delete_where (\<lambda>r. rl_key r \<in> rl_key ` set old) (restart_loops x)\<rparr>)"

definition expire_thread_windows :: "uuid \<Rightarrow> datetime option \<Rightarrow> nat \<Rightarrow> window_row list \<Rightarrow> window_row list \<times> nat" where
  "expire_thread_windows proj closed limit ws =
     (let old = (case closed of
                   None \<Rightarrow> []
                 | Some boundary \<Rightarrow> first_rows (\<lambda>w. (wr_observed_at w, wr_id w)) limit
                     (\<lambda>w. wr_project_id w = proj \<and> wr_observed_at w < boundary) ws);
          gone = (\<lambda>w. wr_id w \<in> wr_id ` set old)
      in (delete_where gone ws, length (filter gone ws)))"

definition expire :: "uuid \<Rightarrow> datetime option \<Rightarrow> nat \<Rightarrow> database \<Rightarrow> database \<times> nat" where
  "expire proj expired_before limit db =
     (let t = db_projections db;
          (g1, gids) = expire_snapshots proj expired_before limit (pt_groups t);
          g2 = recount_groups gids (db_events db) g1;
          x = expire_restart_loop_projections proj (closed_before proj db) limit (pt_terminations t);
          (ws, windows) = expire_thread_windows proj (closed_before proj db) limit (db_windows db)
      in (db\<lparr>db_projections := t\<lparr>pt_groups := g2, pt_terminations := x\<rparr>, db_windows := ws\<rparr>, length gids + windows))"

section \<open>What has become empty\<close>

definition delete_empty_group_outbox :: "uuid \<Rightarrow> nat \<Rightarrow> uuid list \<Rightarrow> group_tables \<Rightarrow> group_tables" where
  "delete_empty_group_outbox proj limit delivered t =
     (let old = take limit (filter (\<lambda>b. (\<exists>g \<in> set (groups t). g_id g = ob_aggregate_id b
                   \<and> gk_project_id (g_key g) = proj \<and> g_occurrence_count g = 0)
                 \<and> ob_processed_at b \<noteq> None \<and> ob_id b \<notin> set delivered) (outbox t))
      in t\<lparr>outbox := delete_where (\<lambda>b. ob_id b \<in> ob_id ` set old) (outbox t)\<rparr>)"

definition delete_empty_items ::
    "uuid \<Rightarrow> nat \<Rightarrow> policy_tables \<times> inventory_tables \<Rightarrow> policy_tables \<times> inventory_tables" where
  "delete_empty_items proj limit = (\<lambda>(p, t).
     let old = map it_id (take limit (filter (\<lambda>r. is_project_id (ik_scope (it_key r)) = proj \<and> it_occurrence_count r = 0
                 \<and> \<not> (\<exists>v \<in> set (revisions p). rv_source_item v = Some (it_id r))
                 \<and> \<not> (\<exists>v \<in> set (suppressions p). su_source_item v = Some (it_id r))) (items t)))
     in (p\<lparr>sighting_evaluations := delete_where (\<lambda>r. sk_item_id (se_key r) \<in> set old) (sighting_evaluations p)\<rparr>,
         t\<lparr>items := delete_where (\<lambda>r. it_id r \<in> set old) (items t),
           item_memberships := delete_where (\<lambda>m. im_item_id m \<in> set old) (item_memberships t),
           item_releases := delete_where (\<lambda>r. ir_item_id r \<in> set old) (item_releases t),
           sightings := delete_where (\<lambda>r. sk_item_id (sg_key r) \<in> set old) (sightings t),
           group_links := delete_where (\<lambda>l. gl_item_id l \<in> set old) (group_links t)\<rparr>))"

definition delete_empty_groups ::
    "uuid \<Rightarrow> nat \<Rightarrow> policy_tables \<times> projection_tables \<Rightarrow> policy_tables \<times> projection_tables" where
  "delete_empty_groups proj limit = (\<lambda>(p, t).
     let g = pt_groups t; i = pt_inventory t; x = pt_terminations t;
         old = map g_id (take limit (filter (\<lambda>r. gk_project_id (g_key r) = proj \<and> g_occurrence_count r = 0
                 \<and> \<not> (\<exists>v \<in> set (revisions p). rv_source_group v = Some (g_id r))
                 \<and> \<not> (\<exists>v \<in> set (suppressions p). su_source_group v = Some (g_id r))
                 \<and> \<not> (\<exists>b \<in> set (outbox g). ob_aggregate_id b = g_id r)) (groups g)))
     in (p\<lparr>group_evaluations := delete_where (\<lambda>r. ge_group_id r \<in> set old) (group_evaluations p)\<rparr>,
         t\<lparr>pt_groups := g\<lparr>groups := delete_where (\<lambda>r. g_id r \<in> set old) (groups g),
               memberships := delete_where (\<lambda>m. m_group_id m \<in> set old) (memberships g),
               group_releases := delete_where (\<lambda>r. gr_group_id r \<in> set old) (group_releases g),
               snapshots := delete_where (\<lambda>s. sn_group_id s \<in> set old) (snapshots g)\<rparr>,
           pt_inventory := i\<lparr>group_links := delete_where (\<lambda>l. gl_group_id l \<in> set old) (group_links i)\<rparr>,
           pt_terminations := x\<lparr>restart_loops := update_where
               (\<lambda>r. case rl_group_id r of None \<Rightarrow> False | Some gid \<Rightarrow> gid \<in> set old)
               (\<lambda>r. r\<lparr>rl_group_id := None\<rparr>) (restart_loops x)\<rparr>\<rparr>))"

definition cleanup_empty :: "uuid \<Rightarrow> nat \<Rightarrow> database \<Rightarrow> database" where
  "cleanup_empty proj limit db =
     (let t = db_projections db;
          g = delete_empty_group_outbox proj limit (db_deliveries db) (pt_groups t);
          (p1, i) = delete_empty_items proj limit (db_policies db, pt_inventory t);
          (p2, t2) = delete_empty_groups proj limit (p1, t\<lparr>pt_groups := g, pt_inventory := i\<rparr>)
      in db\<lparr>db_policies := p2, db_projections := t2\<rparr>)"

section \<open>A run on a project\<close>

definition retention_policy :: "uuid \<Rightarrow> database \<Rightarrow> (bool \<times> int \<times> int option, db_error) result" where
  "retention_policy proj db =
     ok_or RowNotFound (Option.bind (find (\<lambda>p. pr_id p = proj) (db_projects db)) (\<lambda>p.
       map_option (\<lambda>o'. case pr_retention p of
           Some override \<Rightarrow> override
         | None \<Rightarrow> (org_retention_enabled o', org_retention_raw_days o', org_retention_history_days o'))
         (find (\<lambda>o'. org_id o' = pr_organization_id p) (db_organizations db))))"

text \<open>\<open>GREATEST\<close> ignores \<open>NULL\<close>.\<close>

definition greatest :: "datetime option \<Rightarrow> datetime option \<Rightarrow> datetime option" where
  "greatest a b = (case (a, b) of (None, y) \<Rightarrow> y | (x, None) \<Rightarrow> x | (Some x, Some y) \<Rightarrow> Some (max x y))"

definition advance_horizons :: "uuid \<Rightarrow> datetime \<Rightarrow> datetime option \<Rightarrow> database \<Rightarrow> database" where
  "advance_horizons proj closed expired_before db =
     db\<lparr>db_projects := update_where (\<lambda>p. pr_id p = proj)
         (\<lambda>p. p\<lparr>pr_closed_before := greatest (pr_closed_before p) (Some closed),
            pr_history_expired_before := greatest (pr_history_expired_before p) expired_before\<rparr>) (db_projects db)\<rparr>"

definition close_horizon :: "datetime \<Rightarrow> uuid \<Rightarrow> uuid \<Rightarrow> database \<Rightarrow> (database \<times> bool, db_error) result" where
  "close_horizon now org proj db =
     res_bind (lock_project org proj db) (\<lambda>_.
     res_bind (retention_policy proj db) (\<lambda>(enabled, raw, history).
       if \<not> enabled then Ok (db, False)
       else Ok (advance_horizons proj (day_cutoff now raw) (map_option (day_cutoff now) history) db, True)))"

definition clamp_limit :: "int \<Rightarrow> nat" where "clamp_limit limit = nat (min 1000 (max 1 limit))"

definition drain ::
    "(uuid \<Rightarrow> uuid option \<Rightarrow> int \<Rightarrow> uuid) \<Rightarrow> datetime \<Rightarrow> int \<Rightarrow> uuid \<Rightarrow> uuid \<Rightarrow> database \<Rightarrow> (database \<times> nat, db_error) result" where
  "drain draw now limit org proj db =
     res_bind (lock_project org proj db) (\<lambda>watermark.
     res_bind (retention_policy proj db) (\<lambda>(enabled, _, history).
       let expired_before = map_option (day_cutoff now) history; n = clamp_limit limit
       in if \<not> enabled then Ok (db, 0)
          else
            let ids = closed_events_for_update proj watermark n (db_events db) (pt_groups (db_projections db));
                db1 = compact draw ids expired_before db;
                (db2, _) = expire proj expired_before n db1
            in Ok (cleanup_empty proj n db2, length ids)))"

definition process_project ::
    "(uuid \<Rightarrow> uuid option \<Rightarrow> int \<Rightarrow> uuid) \<Rightarrow> datetime \<Rightarrow> int \<Rightarrow> uuid \<Rightarrow> uuid \<Rightarrow> database \<Rightarrow> database \<times> (nat, db_error) result" where
  "process_project draw now limit org proj db =
     (case close_horizon now org proj db of
        Err x \<Rightarrow> (db, Err x)
      | Ok (db1, False) \<Rightarrow> (db1, Ok 0)
      | Ok (db1, True) \<Rightarrow>
          (case drain draw now limit org proj db1 of Err x \<Rightarrow> (db1, Err x) | Ok (db2, n) \<Rightarrow> (db2, Ok n)))"

end
