(* ===== verification/Retention_Counts.thy ===== *)
theory Retention_Counts
  imports Retention
begin

text \<open>
  Counting again after a deletion. \<open>groups_ok_but S\<close> is the consistency of the group tables with the
  groups in \<open>S\<close> still to be counted, and \<open>inventory_ok_but S\<close> that of the inventory: deleting events
  leaves exactly their groups and items uncounted, and each statement of \<open>recount_groups\<close> and
  \<open>recount_inventory\<close> takes one group or item out of \<open>S\<close>.
\<close>

section \<open>Joins\<close>

lemma filter_unique_key:
  assumes "distinct (map key xs)" and "k \<in> key ` set xs"
  shows "\<exists>x \<in> set xs. filter (\<lambda>x. key x = k) xs = [x] \<and> key x = k"
  using assms
proof (induction xs)
  case (Cons x xs)
  show ?case
  proof (cases "key x = k")
    case True
    with Cons.prems(1) have "filter (\<lambda>x. key x = k) xs = []"
      by (simp add: filter_empty_conv) (metis image_eqI)
    with True show ?thesis by simp
  next
    case False
    with Cons show ?thesis by auto
  qed
qed simp

lemma join_fst:
  assumes "distinct (map key es)" and "\<forall>m \<in> set ms. f m \<in> key ` set es"
  shows "map fst [(m, e). m \<leftarrow> ms, e \<leftarrow> es, key e = f m] = ms"
  using assms(2)
proof (induction ms)
  case (Cons m ms)
  obtain e where "filter (\<lambda>e. key e = f m) es = [e]" using filter_unique_key [OF assms(1), of "f m"] Cons.prems by auto
  moreover have "concat (map (\<lambda>e. if key e = f m then [(m, e)] else []) es) = map (Pair m) (filter (\<lambda>e. key e = f m) es)"
    by (induction es) simp_all
  ultimately show ?case using Cons by simp
qed simp

lemma join_in: "(m, e) \<in> set [(m, e). m \<leftarrow> ms, e \<leftarrow> es, key e = f m] \<Longrightarrow> m \<in> set ms \<and> e \<in> set es \<and> key e = f m"
  by (auto split: if_splits)

lemma length_join_filter:
  assumes "map fst xs = ms"
  shows "length (filter (\<lambda>(m, e). P m) xs) = length (filter P ms)"
proof -
  have "length (filter P (map fst xs)) = length (filter (P \<circ> fst) xs)" by (simp add: filter_map)
  with assms show ?thesis by (simp add: comp_def case_prod_beta')
qed

definition stored_members :: "event_row list \<Rightarrow> group_tables \<Rightarrow> bool" where
  "stored_members evs t \<longleftrightarrow> distinct (map er_id evs) \<and> (\<forall>m \<in> set (memberships t). m_event_id m \<in> er_id ` set evs)"

lemma join_events_members:
  assumes "stored_members evs t"
  shows "map fst (join_events (memberships t) evs) = memberships t"
  unfolding join_events_def using assms by (intro join_fst) (simp_all add: stored_members_def)

lemma join_events_in: "(m, e) \<in> set (join_events ms evs) \<Longrightarrow> m \<in> set ms \<and> e \<in> set evs \<and> er_id e = m_event_id m"
  unfolding join_events_def by (rule join_in)

lemma length_join_events:
  "stored_members evs t \<Longrightarrow> length (filter (\<lambda>(m, e). P m) (join_events (memberships t) evs)) = length (filter P (memberships t))"
  by (rule length_join_filter) (rule join_events_members)

section \<open>Counting groups again\<close>

definition groups_ok_but :: "uuid set \<Rightarrow> group_tables \<Rightarrow> bool" where
  "groups_ok_but S t \<longleftrightarrow> members_ok t \<and> history_ok t
     \<and> (\<forall>r \<in> set (groups t). (g_id r \<in> S \<or> g_occurrence_count r = occurrences (g_id r) t)
          \<and> g_first_seen_at r \<le> g_last_seen_at r)
     \<and> releases.counted (group_releases t)
     \<and> (\<forall>rel gid. gid \<in> S \<or> release_count rel gid t = release_members_of rel gid t + archived_release rel gid t)
     \<and> announced t \<subseteq># mset (map g_id (groups t))"

lemma groups_ok_but_none: "groups_ok_but {} t \<longleftrightarrow> groups_ok t"
  by (auto simp: groups_ok_but_def groups_ok_def)

lemma evidence_sum:
  assumes "stored_members evs t"
  shows "sum_list (map (snd \<circ> snd) (evidence gid evs t)) = occurrences gid t"
proof -
  have "sum_list (map (snd \<circ> snd) (map (\<lambda>(m, e). (er_observed_at e, er_observed_at e, 1)) xs)) = length xs"
    for xs :: "(membership_row \<times> event_row) list"
    by (induction xs) auto
  moreover have "length (filter (\<lambda>(m, e). m_group_id m = gid) (join_events (memberships t) evs)) = members_of gid t"
    unfolding members_of_def by (rule length_join_events [OF assms])
  ultimately show ?thesis
    by (simp add: evidence_def occurrences_def archived_def tally_def comp_def)
qed

lemma evidence_window:
  assumes "history_ok t" and "evidence gid evs t \<noteq> []"
  shows "least_of fst (evidence gid evs t) \<le> greatest_of (fst \<circ> snd) (evidence gid evs t)"
proof -
  let ?ev = "evidence gid evs t"
  from assms(2) obtain x where x: "x \<in> set ?ev" by (meson last_in_set)
  then have "fst x \<le> fst (snd x)"
    using assms(1) by (auto simp: evidence_def history_ok_def)
  moreover have "least_of fst ?ev \<le> fst x" unfolding least_of_def using x by (intro Min_le) auto
  moreover have "fst (snd x) \<le> greatest_of (fst \<circ> snd) ?ev"
    unfolding greatest_of_def using x by (intro Max_ge) (auto intro: rev_image_eqI)
  ultimately show ?thesis by linarith
qed

lemma release_evidence_sum:
  assumes "stored_members evs t"
  shows "sum_list (map (snd \<circ> snd \<circ> snd) (filter (\<lambda>x. fst x = rel) (release_evidence gid evs t)))
    = release_members_of rel gid t + archived_release rel gid t"
proof -
  have "sum_list (map (snd \<circ> snd \<circ> snd) (filter (\<lambda>x. fst x = rel)
      [(rel, er_observed_at e, er_observed_at e, 1). (m, e) \<leftarrow> xs, m_group_id m = gid, Some rel \<leftarrow> [m_release_id m]]))
      = length (filter (\<lambda>(m, e). m_group_id m = gid \<and> m_release_id m = Some rel) xs)"
    for xs :: "(membership_row \<times> event_row) list"
    by (induction xs) (auto split: option.splits)
  moreover have "length (filter (\<lambda>(m, e). m_group_id m = gid \<and> m_release_id m = Some rel)
      (join_events (memberships t) evs)) = release_members_of rel gid t"
    unfolding release_members_of_def by (rule length_join_events [OF assms])
  moreover have "sum_list (map (snd \<circ> snd \<circ> snd) (filter (\<lambda>x. fst x = rel)
      [(rel, sn_first_observed_at s, sn_last_observed_at s, sn_occurrence_count s). s \<leftarrow> ss,
        sn_group_id s = gid, Some rel \<leftarrow> [sn_release_id s]]))
      = tally (\<lambda>s. (sn_release_id s, sn_group_id s)) sn_occurrence_count (\<lambda>k. k = (Some rel, gid)) ss" for ss
    by (induction ss) (auto split: option.splits)
  ultimately show ?thesis by (simp add: release_evidence_def archived_release_def)
qed

lemma release_evidence_rows:
  assumes "history_ok t" and "x \<in> set (release_evidence gid evs t)"
  shows "0 < snd (snd (snd x)) \<and> fst (snd x) \<le> fst (snd (snd x))"
  using assms by (auto simp: release_evidence_def history_ok_def split: option.splits if_splits)

lemma window_le:
  assumes "ys \<noteq> []" and "\<And>y. y \<in> set ys \<Longrightarrow> f y \<le> g y"
  shows "least_of f ys \<le> greatest_of g ys"
proof -
  from assms(1) obtain y where y: "y \<in> set ys" by (meson last_in_set)
  have "least_of f ys \<le> f y" unfolding least_of_def using y by (intro Min_le) auto
  also have "f y \<le> g y" using assms(2) y by blast
  also have "g y \<le> greatest_of g ys" unfolding greatest_of_def using y by (intro Max_ge) auto
  finally show ?thesis .
qed

lemma group_by_rows:
  "(k, ys) \<in> set (group_by f xs) \<Longrightarrow> (\<And>x. x \<in> set xs \<Longrightarrow> R x) \<Longrightarrow> ys \<noteq> [] \<and> (\<forall>y \<in> set ys. R y)"
  using group_by_nonempty [of k ys f xs] by (auto simp: in_group_by)

lemma rebuilt_releases:
  fixes gid :: uuid
  assumes members: "stored_members evs t" and hist: "history_ok t" and counted: "releases.counted (group_releases t)"
  defines "t' \<equiv> rebuild_group_releases gid evs (clear_group_releases gid t)"
  shows "releases.counted (group_releases t')"
    and "release_count rel gid t' = release_members_of rel gid t + archived_release rel gid t"
    and "gid' \<noteq> gid \<Longrightarrow> release_count rel gid' t' = release_count rel gid' t"
proof -
  define mk :: "uuid \<times> (uuid \<times> datetime \<times> datetime \<times> nat) list \<Rightarrow> group_release_row" where "mk = (\<lambda>(rel, ys).
     \<lparr>gr_release_id = rel, gr_group_id = gid,
           gr_occurrence_count = sum_list (map (snd \<circ> snd \<circ> snd) ys), gr_first_seen_at = least_of (fst \<circ> snd) ys,
           gr_last_seen_at = greatest_of (fst \<circ> snd \<circ> snd) ys, gr_representative = None\<rparr>)"
  let ?ev = "release_evidence gid evs t"
  have t': "group_releases t' = delete_where (\<lambda>r. gr_group_id r = gid) (group_releases t) @ map mk (group_by fst ?ev)"
    by (simp add: t'_def rebuild_group_releases_def clear_group_releases_def mk_def release_evidence_def)
  have rows: "0 < gr_occurrence_count (mk (rel, ys)) \<and> gr_first_seen_at (mk (rel, ys)) \<le> gr_last_seen_at (mk (rel, ys))"
    if "(rel, ys) \<in> set (group_by fst ?ev)" for rel ys
  proof -
    have ys: "ys \<noteq> []" "\<forall>y \<in> set ys. 0 < snd (snd (snd y)) \<and> fst (snd y) \<le> fst (snd (snd y))"
      using group_by_rows [OF that, of "\<lambda>y. 0 < snd (snd (snd y)) \<and> fst (snd y) \<le> fst (snd (snd y))"]
        release_evidence_rows [OF hist, of _ gid evs] by blast+
    then have "0 < sum_list (map (snd \<circ> snd \<circ> snd) ys)" by (cases ys) auto
    moreover have "least_of (fst \<circ> snd) ys \<le> greatest_of (fst \<circ> snd \<circ> snd) ys" using ys by (intro window_le) auto
    ultimately show ?thesis by (simp add: mk_def)
  qed
  note new = releases.rebuild [where rs = "group_releases t" and mk = mk and h = "\<lambda>r. (r, gid)" and f = fst and xs = ?ev
      and n = "snd \<circ> snd \<circ> snd" and Q = "\<lambda>r. gr_group_id r = gid" and q = "\<lambda>k. snd k = gid", folded t', OF counted]
  show "releases.counted (group_releases t')"
    by (rule new(1)) (use rows in \<open>simp_all add: mk_def release_key_def inj_def\<close>)
  have tally: "tally release_key gr_occurrence_count P (group_releases t')
      = tally release_key gr_occurrence_count (\<lambda>k. P k \<and> \<not> snd k = gid) (group_releases t)
        + sum_list (map (snd \<circ> snd \<circ> snd) (filter (\<lambda>x. P (fst x, gid)) ?ev))" for P
    by (rule new(2)) (use rows in \<open>simp_all add: mk_def release_key_def inj_def\<close>)
  have "(\<lambda>k. k = (rel, gid') \<and> \<not> snd k = gid) = (if gid' = gid then (\<lambda>k. False) else (\<lambda>k. k = (rel, gid')))" for rel gid'
    by auto
  note count = tally [of "\<lambda>k. k = (rel, gid')" for rel gid', unfolded this, folded release_count_def]
  show "release_count rel gid t' = release_members_of rel gid t + archived_release rel gid t"
    using release_evidence_sum [OF members, of rel gid] by (simp add: count)
  show "release_count rel gid' t' = release_count rel gid' t" if "gid' \<noteq> gid"
    using that count [of rel gid'] by (simp add: release_count_def [of rel gid' t])
qed

text \<open>What counting leaves alone.\<close>

definition same_shape :: "group_tables \<Rightarrow> group_tables \<Rightarrow> bool" where
  "same_shape t t' \<longleftrightarrow> memberships t' = memberships t \<and> snapshots t' = snapshots t \<and> outbox t' = outbox t
     \<and> map g_id (groups t') = map g_id (groups t) \<and> map g_key (groups t') = map g_key (groups t)"

lemma same_shape_refl [simp]: "same_shape t t"
  and same_shape_trans: "same_shape t t1 \<Longrightarrow> same_shape t1 t2 \<Longrightarrow> same_shape t t2"
  by (simp_all add: same_shape_def)

lemma same_shape_keeps:
  assumes "same_shape t t'"
  shows "members_ok t' = members_ok t" "history_ok t' = history_ok t" "stored_members evs t' = stored_members evs t"
    "announced t' = announced t" "occurrences gid t' = occurrences gid t"
    "release_members_of rel gid t' = release_members_of rel gid t"
    "archived_release rel gid t' = archived_release rel gid t"
    "g_id ` set (groups t') = g_id ` set (groups t)"
proof -
  from assms have e: "memberships t' = memberships t" "snapshots t' = snapshots t" "outbox t' = outbox t"
    and g: "map g_id (groups t') = map g_id (groups t)" "map g_key (groups t') = map g_key (groups t)"
    by (simp_all add: same_shape_def)
  from g(1) show ids: "g_id ` set (groups t') = g_id ` set (groups t)" by (metis list.set_map)
  show "members_ok t' = members_ok t" by (simp add: members_ok_def e g ids)
  show "history_ok t' = history_ok t" by (simp add: history_ok_def e ids)
  show "stored_members evs t' = stored_members evs t" by (simp add: stored_members_def e)
  show "announced t' = announced t" by (simp add: announced_def e)
  show "occurrences gid t' = occurrences gid t" by (simp add: occurrences_def members_of_def archived_def e)
  show "release_members_of rel gid t' = release_members_of rel gid t" by (simp add: release_members_of_def e)
  show "archived_release rel gid t' = archived_release rel gid t" by (simp add: archived_release_def e)
qed

text \<open>Changes to columns that no count depends on.\<close>

definition same_counts :: "group_tables \<Rightarrow> group_tables \<Rightarrow> bool" where
  "same_counts t t' \<longleftrightarrow> same_shape t t'
     \<and> map (\<lambda>r. (g_id r, g_occurrence_count r, g_first_seen_at r, g_last_seen_at r)) (groups t')
       = map (\<lambda>r. (g_id r, g_occurrence_count r, g_first_seen_at r, g_last_seen_at r)) (groups t)
     \<and> map (\<lambda>r. (release_key r, gr_occurrence_count r, gr_first_seen_at r, gr_last_seen_at r)) (group_releases t')
       = map (\<lambda>r. (release_key r, gr_occurrence_count r, gr_first_seen_at r, gr_last_seen_at r)) (group_releases t)"

lemma ball_map_eq: "map f xs = map f ys \<Longrightarrow> (\<forall>x \<in> set xs. Q (f x)) = (\<forall>y \<in> set ys. Q (f y))"
proof -
  assume "map f xs = map f ys"
  then have "(\<forall>z \<in> set (map f xs). Q z) = (\<forall>z \<in> set (map f ys). Q z)" by (simp only:)
  then show ?thesis by simp
qed

lemma tally_map_eq:
  "map (\<lambda>r. (key r, cnt r, f r)) xs = map (\<lambda>r. (key r, cnt r, f r)) ys \<Longrightarrow> tally key cnt P xs = tally key cnt P ys"
proof -
  assume eq: "map (\<lambda>r. (key r, cnt r, f r)) xs = map (\<lambda>r. (key r, cnt r, f r)) ys"
  have "tally key cnt P zs = tally fst (fst \<circ> snd) P (map (\<lambda>r. (key r, cnt r, f r)) zs)" for zs by (induction zs) simp_all
  then show ?thesis by (simp only: eq)
qed

lemma same_counts_ok:
  assumes "same_counts t t'"
  shows "groups_ok_but S t' = groups_ok_but S t"
proof -
  from assms have shape: "same_shape t t'"
    and rows: "map (\<lambda>r. (g_id r, g_occurrence_count r, g_first_seen_at r, g_last_seen_at r)) (groups t')
       = map (\<lambda>r. (g_id r, g_occurrence_count r, g_first_seen_at r, g_last_seen_at r)) (groups t)"
    and rels: "map (\<lambda>r. (release_key r, gr_occurrence_count r, gr_first_seen_at r, gr_last_seen_at r)) (group_releases t')
       = map (\<lambda>r. (release_key r, gr_occurrence_count r, gr_first_seen_at r, gr_last_seen_at r)) (group_releases t)"
    by (simp_all add: same_counts_def)
  have "(\<forall>r \<in> set (groups t'). (g_id r \<in> S \<or> g_occurrence_count r = occurrences (g_id r) t) \<and> g_first_seen_at r \<le> g_last_seen_at r)
      = (\<forall>r \<in> set (groups t). (g_id r \<in> S \<or> g_occurrence_count r = occurrences (g_id r) t) \<and> g_first_seen_at r \<le> g_last_seen_at r)"
    using ball_map_eq [OF rows, of "\<lambda>(i, n, a, b). (i \<in> S \<or> n = occurrences i t) \<and> a \<le> b"] by simp
  moreover have "release_count rel gid t' = release_count rel gid t" for rel gid
    unfolding release_count_def by (rule tally_map_eq [OF rels])
  moreover have "releases.counted (group_releases t') = releases.counted (group_releases t)"
  proof -
    have "map release_key (group_releases t') = map release_key (group_releases t)"
      using arg_cong [OF rels, of "map fst"] by (simp add: comp_def)
    moreover have "(\<forall>r \<in> set (group_releases t'). 0 < gr_occurrence_count r \<and> gr_first_seen_at r \<le> gr_last_seen_at r)
        = (\<forall>r \<in> set (group_releases t). 0 < gr_occurrence_count r \<and> gr_first_seen_at r \<le> gr_last_seen_at r)"
      using ball_map_eq [OF rels, of "\<lambda>(k, n, a, b). 0 < n \<and> a \<le> b"] by simp
    ultimately show ?thesis unfolding releases.counted_def by (simp only:)
  qed
  moreover have "map g_id (groups t') = map g_id (groups t)" using shape by (simp add: same_shape_def)
  ultimately show ?thesis unfolding groups_ok_but_def same_shape_keeps [OF shape] by (simp only:)
qed

definition recount_one :: "event_row list \<Rightarrow> uuid \<Rightarrow> group_tables \<Rightarrow> group_tables" where
  "recount_one evs gid t = rebuild_group_releases gid evs (clear_group_releases gid
     (recount_group gid evs (restore_group_representative gid evs t)))"

lemma recount_one_shape: "same_shape t (recount_one evs gid t)"
  by (simp add: same_shape_def recount_one_def rebuild_group_releases_def clear_group_releases_def
      recount_group_def restore_group_representative_def Let_def map_update_where)

lemma restored_row:
  assumes "r \<in> set (groups (restore_group_representative gid evs t))"
  shows "\<exists>r0 \<in> set (groups t). g_id r = g_id r0 \<and> g_occurrence_count r = g_occurrence_count r0
    \<and> g_first_seen_at r = g_first_seen_at r0 \<and> g_last_seen_at r = g_last_seen_at r0"
proof -
  from assms obtain r0 where r0: "r0 \<in> set (groups t)"
    and r: "r = (if g_id r0 = gid \<and> g_representative r0 = None then r0\<lparr>g_representative := latest_event
       (filter (\<lambda>(m, e). m_group_id m = gid) (join_events (memberships t) evs))\<rparr> else r0)"
    by (auto simp: restore_group_representative_def in_update_where)
  from r0 show ?thesis by (intro bexI [of _ r0]) (simp_all add: r)
qed

lemma recounted_row:
  fixes gid evs t
  assumes "r \<in> set (groups (recount_group gid evs (restore_group_representative gid evs t)))"
  defines "ev \<equiv> evidence gid evs (restore_group_representative gid evs t)"
  shows "\<exists>r0 \<in> set (groups t). g_id r = g_id r0
    \<and> g_occurrence_count r = (if g_id r0 = gid then sum_list (map (snd \<circ> snd) ev) else g_occurrence_count r0)
    \<and> g_first_seen_at r = (if g_id r0 = gid \<and> ev \<noteq> [] then least_of fst ev else g_first_seen_at r0)
    \<and> g_last_seen_at r = (if g_id r0 = gid \<and> ev \<noteq> [] then greatest_of (fst \<circ> snd) ev else g_last_seen_at r0)"
proof -
  from assms(1) obtain r1 where r1: "r1 \<in> set (groups (restore_group_representative gid evs t))"
    and r: "r = (if g_id r1 = gid then r1\<lparr>g_occurrence_count := sum_list (map (snd \<circ> snd) ev),
              g_first_seen_at := (if ev = [] then g_first_seen_at r1 else least_of fst ev),
              g_last_seen_at := (if ev = [] then g_last_seen_at r1 else greatest_of (fst \<circ> snd) ev)\<rparr> else r1)"
    unfolding recount_group_def Let_def ev_def by (auto simp: in_update_where)
  from restored_row [OF r1] obtain r0 where "r0 \<in> set (groups t)" "g_id r1 = g_id r0"
    "g_occurrence_count r1 = g_occurrence_count r0" "g_first_seen_at r1 = g_first_seen_at r0"
    "g_last_seen_at r1 = g_last_seen_at r0" by auto
  then show ?thesis by (intro bexI [of _ r0]) (simp_all add: r)
qed

lemma recount_one_ok:
  assumes ok: "groups_ok_but S t" and members: "stored_members evs t"
  shows "groups_ok_but (S - {gid}) (recount_one evs gid t)"
proof -
  let ?t' = "recount_one evs gid t"
  define u where "u = recount_group gid evs (restore_group_representative gid evs t)"
  note keep = same_shape_keeps [OF recount_one_shape [of t evs gid]]
  have u: "memberships u = memberships t" "snapshots u = snapshots t" "group_releases u = group_releases t"
    by (simp_all add: u_def recount_group_def restore_group_representative_def Let_def)
  have groups: "groups ?t' = groups u"
    by (simp add: recount_one_def u_def rebuild_group_releases_def clear_group_releases_def)
  have hist: "history_ok t" and counted: "releases.counted (group_releases t)" using ok by (auto simp: groups_ok_but_def)
  have "stored_members evs u" "history_ok u"
    using members hist by (simp_all add: stored_members_def u history_ok_def)
      (simp_all add: u_def recount_group_def restore_group_representative_def Let_def image_update_where)
  note rel = rebuilt_releases [OF this, unfolded u, OF counted, where gid = gid]
  have "(g_id r \<in> S - {gid} \<or> g_occurrence_count r = occurrences (g_id r) t) \<and> g_first_seen_at r \<le> g_last_seen_at r"
    if "r \<in> set (groups u)" for r
  proof -
    let ?ev = "evidence gid evs t"
    have ev: "evidence gid evs (restore_group_representative gid evs t) = ?ev"
      by (simp add: evidence_def restore_group_representative_def)
    note row = recounted_row [OF that [unfolded u_def], unfolded ev]
    then obtain r0 where r0: "r0 \<in> set (groups t)" and r: "g_id r = g_id r0"
      "g_occurrence_count r = (if g_id r0 = gid then sum_list (map (snd \<circ> snd) ?ev) else g_occurrence_count r0)"
      "g_first_seen_at r = (if g_id r0 = gid \<and> ?ev \<noteq> [] then least_of fst ?ev else g_first_seen_at r0)"
      "g_last_seen_at r = (if g_id r0 = gid \<and> ?ev \<noteq> [] then greatest_of (fst \<circ> snd) ?ev else g_last_seen_at r0)"
      by blast
    from ok r0 have "g_id r0 \<in> S \<or> g_occurrence_count r0 = occurrences (g_id r0) t" "g_first_seen_at r0 \<le> g_last_seen_at r0"
      by (auto simp: groups_ok_but_def)
    then show ?thesis
      using evidence_sum [OF members, of gid] evidence_window [OF hist, of gid evs] by (cases "g_id r0 = gid") (simp_all add: r)
  qed
  moreover have "gid' \<in> S - {gid} \<or> release_count rel' gid' ?t' = release_members_of rel' gid' t + archived_release rel' gid' t"
    for rel' gid'
  proof (cases "gid' = gid")
    case True
    then show ?thesis using rel(2) by (simp add: recount_one_def u_def release_members_of_def archived_release_def u [unfolded u_def])
  next
    case False
    moreover from ok have "gid' \<in> S \<or> release_count rel' gid' t = release_members_of rel' gid' t + archived_release rel' gid' t"
      by (auto simp: groups_ok_but_def)
    moreover have "release_count rel' gid' ?t' = release_count rel' gid' t"
      using rel(3) [OF False] by (simp add: recount_one_def u_def release_count_def u [unfolded u_def])
    ultimately show ?thesis by auto
  qed
  moreover have "releases.counted (group_releases ?t')" using rel(1) by (simp add: recount_one_def u_def)
  moreover have "announced t \<subseteq># mset (map g_id (groups ?t'))" "members_ok t"
    using ok recount_one_shape [of t evs gid] by (auto simp: groups_ok_but_def same_shape_def)
  ultimately show ?thesis unfolding groups_ok_but_def keep using hist by (simp add: groups)
qed

lemma recount_all_ok:
  assumes "groups_ok_but S t" and "stored_members evs t"
  shows "groups_ok_but (S - set gids) (fold (recount_one evs) gids t) \<and> same_shape t (fold (recount_one evs) gids t)"
  using assms
proof (induction gids arbitrary: S t)
  case (Cons gid gids)
  note shape = recount_one_shape [of t evs gid]
  have "groups_ok_but (S - {gid} - set gids) (fold (recount_one evs) gids (recount_one evs gid t))
      \<and> same_shape (recount_one evs gid t) (fold (recount_one evs) gids (recount_one evs gid t))"
    using Cons.prems same_shape_keeps(3) [OF shape] by (intro Cons.IH recount_one_ok) simp_all
  then show ?case using same_shape_trans [OF shape] by (simp add: insert_Diff1 Diff_insert2 [symmetric])
qed simp

lemma restore_releases_counts: "same_counts t (restore_release_representatives gids evs t)"
  by (simp add: same_counts_def same_shape_def restore_release_representatives_def map_update_where release_key_def)

lemma recount_groups_ok:
  assumes "groups_ok_but S t" and "S \<subseteq> set gids" and "stored_members evs t"
  shows "groups_ok (recount_groups gids evs t)" and "same_shape t (recount_groups gids evs t)"
proof -
  have fold: "recount_groups gids evs t = restore_release_representatives gids evs (fold (recount_one evs) gids t)"
    by (simp add: recount_groups_def recount_one_def [abs_def])
  have "S - set gids = {}" using assms(2) by blast
  with recount_all_ok [OF assms(1,3), of gids] have "groups_ok (fold (recount_one evs) gids t)"
    and shape: "same_shape t (fold (recount_one evs) gids t)" by (simp_all add: groups_ok_but_none)
  then show "groups_ok (recount_groups gids evs t)" 
    by (simp add: fold same_counts_ok [OF restore_releases_counts] groups_ok_but_none [symmetric])
  show "same_shape t (recount_groups gids evs t)"
    unfolding fold using shape restore_releases_counts by (auto simp: same_counts_def intro: same_shape_trans)
qed

section \<open>Folding events into the history\<close>

definition folded :: "uuid list \<Rightarrow> datetime option \<Rightarrow> bool \<Rightarrow> membership_row \<times> event_row \<Rightarrow> bool" where
  "folded ids expired_before with_rel = (\<lambda>(m, e). er_id e \<in> set ids \<and> keeps_history expired_before e
     \<and> (m_release_id m \<noteq> None) = with_rel)"

definition history_place :: "membership_row \<times> event_row \<Rightarrow> uuid \<times> uuid option \<times> int" where
  "history_place = (\<lambda>(m, e). (m_group_id m, m_release_id m, day_of (er_observed_at e)))"

lemma snapshot_of_simps [simp]:
  "snapshot_key (snapshot_of draw (k, ys)) = k"
  "sn_occurrence_count (snapshot_of draw (k, ys)) = length ys"
  by (cases k; simp add: snapshot_of_def snapshot_key_def)+

lemma add_snapshot_simps [simp]:
  "snapshot_key (add_snapshot r s) = snapshot_key s"
  "sn_occurrence_count (add_snapshot r s) = sn_occurrence_count s + sn_occurrence_count r"
  "sn_group_id (add_snapshot r s) = sn_group_id s"
  by (simp_all add: add_snapshot_def snapshot_key_def)

lemma fold_history:
  fixes draw ids expired_before with_rel evs t
  assumes "members_ok t" and hist: "history_ok t"
  defines "t' \<equiv> fold_into_history_snapshots draw ids expired_before with_rel evs t"
  shows "history_ok t'"
    and "tally (\<lambda>s. h (snapshot_key s)) sn_occurrence_count P (snapshots t')
      = tally (\<lambda>s. h (snapshot_key s)) sn_occurrence_count P (snapshots t)
        + length (filter (\<lambda>x. folded ids expired_before with_rel x \<and> P (h (history_place x))) (join_events (memberships t) evs))"
    and "groups t' = groups t" "memberships t' = memberships t" "group_releases t' = group_releases t" "outbox t' = outbox t"
proof -
  let ?xs = "filter (folded ids expired_before with_rel) (join_events (memberships t) evs)"
  define new where "new = map (snapshot_of draw) (group_by history_place ?xs)"
  have t': "snapshots t' = merge_rows snapshot_key add_snapshot new (snapshots t)"
    by (simp add: t'_def fold_into_history_snapshots_def new_def folded_def history_place_def)
  show same: "groups t' = groups t" "memberships t' = memberships t" "group_releases t' = group_releases t" "outbox t' = outbox t"
    by (simp_all add: t'_def fold_into_history_snapshots_def)
  have "distinct (map snapshot_key (snapshots t))" using hist by (simp add: history_ok_def)
  note merged = merge_rows_tally [of snapshot_key add_snapshot sn_occurrence_count "snapshots t", OF _ _ this]
  have "tally (\<lambda>s. h (snapshot_key s)) sn_occurrence_count P new = sum_list (map (\<lambda>_. 1) (filter (\<lambda>x. P (h (history_place x))) ?xs))"
    unfolding new_def by (rule tally_group_by) (simp_all add: sum_list_triv)
  then show "tally (\<lambda>s. h (snapshot_key s)) sn_occurrence_count P (snapshots t')
      = tally (\<lambda>s. h (snapshot_key s)) sn_occurrence_count P (snapshots t)
        + length (filter (\<lambda>x. folded ids expired_before with_rel x \<and> P (h (history_place x))) (join_events (memberships t) evs))"
    using merged [of h P new] by (simp add: t' sum_list_triv)
  let ?Q = "\<lambda>s. sn_group_id s \<in> g_id ` set (groups t) \<and> 0 < sn_occurrence_count s \<and> sn_first_observed_at s \<le> sn_last_observed_at s"
  have "?Q s" if "s \<in> set new" for s
  proof -
    from that obtain k ys where ys: "(k, ys) \<in> set (group_by history_place ?xs)" "s = snapshot_of draw (k, ys)"
      by (auto simp: new_def)
    from ys(1) have "ys \<noteq> []" by (rule group_by_nonempty)
    moreover from ys(1) have "fst k \<in> g_id ` set (groups t)"
      using assms(1) by (auto simp: in_group_by history_place_def members_ok_def dest!: join_events_in)
    moreover have "sn_group_id s = fst k" by (simp add: ys(2) snapshot_of_def split: prod.splits)
    moreover have "sn_first_observed_at s = least_of (er_observed_at \<circ> snd) ys" "sn_last_observed_at s = greatest_of (er_observed_at \<circ> snd) ys"
      by (simp_all add: ys(2) snapshot_of_def split: prod.splits)
    ultimately show ?thesis using window_le [of ys "er_observed_at \<circ> snd" "er_observed_at \<circ> snd"] by (simp add: ys(2))
  qed
  moreover have "?Q (add_snapshot r s)" if "?Q r" "?Q s" for r s
    using that by (simp add: add_snapshot_def min_le_iff_disj le_max_iff_disj)
  ultimately have "\<forall>s \<in> set (snapshots t'). ?Q s"
    unfolding t' using hist by (intro merge_rows_all) (simp_all add: history_ok_def)
  then show "history_ok t'" using merged [of id "\<lambda>_. True" new] by (simp add: history_ok_def t' same)
qed

section \<open>Deleting events\<close>

lemma clear_windows_counts: "same_counts t (clear_restart_loop_windows gids t)"
  by (simp add: same_counts_def same_shape_def clear_restart_loop_windows_def map_update_where)

lemma detach_counts:
  "same_counts (t\<lparr>memberships := ms\<rparr>) ((detach_events ids t)\<lparr>memberships := ms\<rparr>)"
  by (simp add: same_counts_def same_shape_def detach_events_def Let_def map_update_where release_key_def)

definition fold_both ::
    "(uuid \<Rightarrow> uuid option \<Rightarrow> int \<Rightarrow> uuid) \<Rightarrow> uuid list \<Rightarrow> datetime option \<Rightarrow> event_row list \<Rightarrow> group_tables \<Rightarrow> group_tables" where
  "fold_both draw ids expired_before evs t =
     fold_into_history_snapshots draw ids expired_before True evs
       (fold_into_history_snapshots draw ids expired_before False evs t)"

definition archives :: "uuid list \<Rightarrow> datetime option \<Rightarrow> membership_row \<times> event_row \<Rightarrow> bool" where
  "archives ids expired_before = (\<lambda>(m, e). er_id e \<in> set ids \<and> keeps_history expired_before e)"

lemma fold_both:
  fixes draw ids expired_before evs t
  assumes "members_ok t" and "history_ok t"
  defines "t' \<equiv> fold_both draw ids expired_before evs t"
  shows "history_ok t'"
    and "archived gid t' = archived gid t
      + length (filter (\<lambda>x. archives ids expired_before x \<and> m_group_id (fst x) = gid) (join_events (memberships t) evs))"
    and "archived_release rel gid t' = archived_release rel gid t
      + length (filter (\<lambda>x. archives ids expired_before x \<and> m_group_id (fst x) = gid \<and> m_release_id (fst x) = Some rel)
          (join_events (memberships t) evs))"
    and "groups t' = groups t" "memberships t' = memberships t" "group_releases t' = group_releases t" "outbox t' = outbox t"
proof -
  define u where "u = fold_into_history_snapshots draw ids expired_before False evs t"
  note one = fold_history [OF assms(1,2), where with_rel = False and draw = draw and ids = ids
      and expired_before = expired_before and evs = evs, folded u_def]
  have "members_ok u" using assms(1) by (simp add: members_ok_def one)
  note two = fold_history [OF this one(1), where with_rel = True and draw = draw and ids = ids
      and expired_before = expired_before and evs = evs, unfolded u_def, folded fold_both_def, folded t'_def, folded u_def]
  have split: "length (filter (\<lambda>x. folded ids expired_before False x \<and> P (h (history_place x))) xs)
      + length (filter (\<lambda>x. folded ids expired_before True x \<and> P (h (history_place x))) xs)
      = length (filter (\<lambda>x. archives ids expired_before x \<and> P (h (history_place x))) xs)" for P h xs
    by (induction xs) (auto simp: folded_def archives_def)
  have both: "tally (\<lambda>s. h (snapshot_key s)) sn_occurrence_count P (snapshots t')
      = tally (\<lambda>s. h (snapshot_key s)) sn_occurrence_count P (snapshots t)
        + length (filter (\<lambda>x. archives ids expired_before x \<and> P (h (history_place x))) (join_events (memberships t) evs))" for P h
    using one(2) [of h P] two(2) [of h P] split [of P h] by (simp add: one(4))
  show "archived gid t' = archived gid t
      + length (filter (\<lambda>x. archives ids expired_before x \<and> m_group_id (fst x) = gid) (join_events (memberships t) evs))"
    using both [of fst "\<lambda>g. g = gid"] by (simp add: archived_def snapshot_key_def history_place_def case_prod_beta)
  have conj: "(m_release_id m = Some rel \<and> m_group_id m = gid) = (m_group_id m = gid \<and> m_release_id m = Some rel)" for m by blast
  show "archived_release rel gid t' = archived_release rel gid t
      + length (filter (\<lambda>x. archives ids expired_before x \<and> m_group_id (fst x) = gid \<and> m_release_id (fst x) = Some rel)
          (join_events (memberships t) evs))"
    using both [of "\<lambda>(g, r, d). (r, g)" "\<lambda>k. k = (Some rel, gid)"]
    by (simp add: archived_release_def snapshot_key_def history_place_def case_prod_beta conj)
  show "history_ok t'" "groups t' = groups t" "memberships t' = memberships t" "group_releases t' = group_releases t" "outbox t' = outbox t"
    by (simp_all add: two one)
qed

lemma length_filter_none: "(\<And>x. x \<in> set xs \<Longrightarrow> \<not> P x) \<Longrightarrow> length (filter P xs) = 0"
  by (simp add: filter_empty_conv)

lemma delete_events_ok:
  fixes draw ids expired_before evs t
  assumes ok: "groups_ok t" and stored: "stored_members evs t"
  defines "u \<equiv> (fold_both draw ids expired_before evs t)
     \<lparr>memberships := delete_where (\<lambda>m. m_event_id m \<in> set ids) (memberships t)\<rparr>"
  shows "groups_ok_but (set (groups_of_events ids t)) u"
    and "stored_members (delete_where (\<lambda>e. er_id e \<in> set ids) evs) u"
proof -
  let ?S = "set (groups_of_events ids t)"
  have mem: "members_ok t" and hist: "history_ok t" and counted: "releases.counted (group_releases t)"
    using ok by (simp_all add: groups_ok_def)
  note f = fold_both [OF mem hist, where draw = draw and ids = ids and expired_before = expired_before and evs = evs]
  have u: "groups u = groups t" "group_releases u = group_releases t" "outbox u = outbox t"
    "memberships u = delete_where (\<lambda>m. m_event_id m \<in> set ids) (memberships t)"
    "snapshots u = snapshots (fold_both draw ids expired_before evs t)" by (simp_all add: u_def f)
  have out: "m_group_id m \<in> ?S" if "m \<in> set (memberships t)" "m_event_id m \<in> set ids" for m
    using that by (auto simp: groups_of_events_def)
  have none: "length (filter (\<lambda>x. archives ids expired_before x \<and> m_group_id (fst x) = gid \<and> Q x) (join_events (memberships t) evs)) = 0"
    if "gid \<notin> ?S" for gid Q
    using that out by (intro length_filter_none) (auto simp: archives_def dest!: join_events_in)
  have kept: "filter (\<lambda>m. m_group_id m = gid \<and> Q m) (memberships u) = filter (\<lambda>m. m_group_id m = gid \<and> Q m) (memberships t)"
    if "gid \<notin> ?S" for gid Q
    unfolding u delete_where_def using that out by (auto intro!: filter_cong)
  have archived: "archived gid u = archived gid t" "archived_release rel gid u = archived_release rel gid t" if "gid \<notin> ?S" for gid rel
    using that none [OF that, of "\<lambda>_. True"] none [OF that, of "\<lambda>x. m_release_id (fst x) = Some rel"] f(2) [of gid] f(3) [of rel gid]
    by (simp_all add: archived_def archived_release_def u)
  have "occurrences gid u = occurrences gid t" if "gid \<notin> ?S" for gid
    using kept [OF that, of "\<lambda>_. True"] archived [OF that] by (simp add: occurrences_def members_of_def)
  moreover have "release_members_of rel gid u = release_members_of rel gid t" if "gid \<notin> ?S" for rel gid
    using kept [OF that] by (simp add: release_members_of_def)
  moreover have "release_count rel gid u = release_count rel gid t" for rel gid by (simp add: release_count_def u)
  moreover have "history_ok u" using f(1) by (simp add: history_ok_def u f)
  moreover have "members_ok u" using mem by (simp add: members_ok_def u distinct_delete_where)
  ultimately show "groups_ok_but ?S u"
    using ok archived unfolding groups_ok_but_def groups_ok_def by (simp add: u announced_def) (metis u(1))
  show "stored_members (delete_where (\<lambda>e. er_id e \<in> set ids) evs) u"
    using stored by (auto simp: stored_members_def u distinct_delete_where)
qed

section \<open>Counting inventory items again\<close>

definition stored_items :: "event_row list \<Rightarrow> inventory_tables \<Rightarrow> bool" where
  "stored_items evs t \<longleftrightarrow> distinct (map er_id evs) \<and> (\<forall>m \<in> set (item_memberships t). im_event_id m \<in> er_id ` set evs)"

definition inventory_ok_but :: "uuid set \<Rightarrow> inventory_tables \<Rightarrow> bool" where
  "inventory_ok_but S t \<longleftrightarrow>
     distinct (map it_id (items t)) \<and> distinct (map it_key (items t))
     \<and> distinct (map member_key (item_memberships t))
     \<and> (\<forall>m \<in> set (item_memberships t). im_item_id m \<in> it_id ` set (items t))
     \<and> (\<forall>r \<in> set (items t). (it_id r \<in> S \<or> it_occurrence_count r = events_of (it_id r) t)
          \<and> it_first_seen_at r \<le> it_last_seen_at r)
     \<and> sighting.counted (sightings t) \<and> (\<forall>iid. iid \<in> S \<or> sighted iid t = events_of iid t)
     \<and> item_release.counted (item_releases t) \<and> (\<forall>iid. iid \<in> S \<or> released iid t \<le> events_of iid t)
     \<and> distinct (group_links t) \<and> (\<forall>l \<in> set (group_links t). gl_item_id l \<in> it_id ` set (items t))"

lemma inventory_ok_but_none: "inventory_ok_but {} t \<longleftrightarrow> inventory_ok t"
  by (auto simp: inventory_ok_but_def inventory_ok_def items_ok_def rollups_ok_def)

definition item_events :: "uuid \<Rightarrow> event_row list \<Rightarrow> inventory_tables \<Rightarrow> event_row list" where
  "item_events iid evs t = map snd (filter (\<lambda>(m, e). im_item_id m = iid) (join_item_events (item_memberships t) evs))"

lemma length_item_events:
  assumes "stored_items evs t"
  shows "length (item_events iid evs t) = events_of iid t"
proof -
  have "map fst (join_item_events (item_memberships t) evs) = item_memberships t"
    unfolding join_item_events_def using assms by (intro join_fst) (simp_all add: stored_items_def)
  then show ?thesis unfolding item_events_def events_of_def by (simp add: length_join_filter)
qed

definition released_events :: "uuid \<Rightarrow> event_row list \<Rightarrow> inventory_tables \<Rightarrow> (uuid \<times> event_row) list" where
  "released_events iid evs t = [(rel, e). (m, e) \<leftarrow> join_item_events (item_memberships t) evs, im_item_id m = iid,
     Some rel \<leftarrow> [er_release_id e]]"

lemma length_released_events: "length (released_events iid evs t) \<le> length (item_events iid evs t)"
proof -
  have "length [(rel, e). (m, e) \<leftarrow> xs, im_item_id m = iid, Some rel \<leftarrow> [er_release_id e]]
      \<le> length (map snd (filter (\<lambda>(m, e). im_item_id m = iid) xs))" for xs :: "(item_membership \<times> event_row) list"
    by (induction xs) (auto split: option.splits)
  then show ?thesis by (simp add: released_events_def item_events_def)
qed

lemma rebuilt_item_releases:
  fixes iid :: uuid and evs
  assumes counted: "item_release.counted (item_releases t)"
  defines "rs \<equiv> delete_where (\<lambda>r. ir_item_id r = iid) (item_releases t)
     @ map (\<lambda>(rel, es). \<lparr>ir_item_id = iid, ir_release_id = rel,
           ir_occurrence_count = length es, ir_first_seen_at = least_of (er_observed_at \<circ> snd) es,
           ir_last_seen_at = greatest_of (er_observed_at \<circ> snd) es\<rparr>) (group_by fst (released_events iid evs t))"
  shows "item_release.counted rs"
    and "tally item_release_key ir_occurrence_count (\<lambda>k. fst k = i) rs
      = (if i = iid then length (released_events iid evs t) else released i t)"
proof -
  note new = item_release.rebuild [where rs = "item_releases t" and h = "\<lambda>r. (iid, r)" and f = fst and xs = "released_events iid evs t"
      and n = "\<lambda>_. 1" and Q = "\<lambda>r. ir_item_id r = iid" and q = "\<lambda>k. fst k = iid", OF counted]
  have window: "least_of (er_observed_at \<circ> snd) es \<le> greatest_of (er_observed_at \<circ> snd) es" if "es \<noteq> []" for es :: "(uuid \<times> event_row) list"
    using that by (rule window_le) simp
  show "item_release.counted rs"
    unfolding rs_def by (rule new(1)) (auto simp: item_release_key_def inj_def sum_list_triv window dest: group_by_nonempty)
  have pred: "(\<lambda>k. fst k = i \<and> \<not> fst k = iid) = (if i = iid then (\<lambda>k. False) else (\<lambda>k. fst k = i))" by auto
  have sum: "tally item_release_key ir_occurrence_count (\<lambda>k. fst k = i) rs
      = tally item_release_key ir_occurrence_count (\<lambda>k. fst k = i \<and> \<not> fst k = iid) (item_releases t)
        + sum_list (map (\<lambda>_. 1) (filter (\<lambda>x. fst (iid, fst x) = i) (released_events iid evs t)))"
    unfolding rs_def
    by (rule new(2)) (auto simp: item_release_key_def inj_def sum_list_triv window dest: group_by_nonempty)
  show "tally item_release_key ir_occurrence_count (\<lambda>k. fst k = i) rs
      = (if i = iid then length (released_events iid evs t) else released i t)"
    using sum unfolding pred by (cases "i = iid") (simp_all add: sum_list_triv released_def)
qed

lemma rebuilt_sightings:
  fixes iid :: uuid and evs
  assumes counted: "sighting.counted (sightings t)"
  defines "rs \<equiv> delete_where (\<lambda>r. sk_item_id (sg_key r) = iid) (sightings t)
     @ map (\<lambda>(k, es). \<lparr>sg_key = k,
           sg_pod_name = Max ((pod_name \<circ> er_attribution) ` set es), sg_occurrence_count = length es,
           sg_first_seen_at = least_of er_observed_at es, sg_last_seen_at = greatest_of er_observed_at es\<rparr>)
         (group_by (\<lambda>e. sighting_at iid (er_cluster_id e) (er_attribution e)) (item_events iid evs t))"
  shows "sighting.counted rs"
    and "tally sg_key sg_occurrence_count (\<lambda>k. sk_item_id k = i) rs
      = (if i = iid then length (item_events iid evs t) else sighted i t)"
proof -
  let ?f = "\<lambda>e. sighting_at iid (er_cluster_id e) (er_attribution e)"
  note new = sighting.rebuild [where rs = "sightings t" and h = id and f = ?f and xs = "item_events iid evs t"
      and n = "\<lambda>_. 1" and Q = "\<lambda>r. sk_item_id (sg_key r) = iid" and q = "\<lambda>k. sk_item_id k = iid", OF counted]
  have window: "least_of er_observed_at es \<le> greatest_of er_observed_at es" if "es \<noteq> []" for es
    using that by (rule window_le) simp
  show "sighting.counted rs"
    unfolding rs_def by (rule new(1)) (auto simp: sum_list_triv window sighting_at_def dest: group_by_nonempty)
  have pred: "(\<lambda>k. sk_item_id k = i \<and> \<not> sk_item_id k = iid) = (if i = iid then (\<lambda>k. False) else (\<lambda>k. sk_item_id k = i))" by auto
  have sum: "tally sg_key sg_occurrence_count (\<lambda>k. sk_item_id k = i) rs
      = tally sg_key sg_occurrence_count (\<lambda>k. sk_item_id k = i \<and> \<not> sk_item_id k = iid) (sightings t)
        + sum_list (map (\<lambda>_. 1) (filter (\<lambda>x. sk_item_id (id (?f x)) = i) (item_events iid evs t)))"
    unfolding rs_def by (rule new(2)) (auto simp: sum_list_triv window sighting_at_def dest: group_by_nonempty)
  show "tally sg_key sg_occurrence_count (\<lambda>k. sk_item_id k = i) rs
      = (if i = iid then length (item_events iid evs t) else sighted i t)"
    using sum unfolding pred by (cases "i = iid") (simp_all add: sum_list_triv sighted_def sighting_at_def)
qed

lemma rebuilt_links:
  fixes iid :: uuid and ms
  assumes "distinct (group_links t)" and "\<forall>l \<in> set (group_links t). gl_item_id l \<in> I"
    and "\<forall>m \<in> set (item_memberships t). im_item_id m \<in> I"
  defines "ls \<equiv> delete_where (\<lambda>l. gl_item_id l = iid) (group_links t) @ remdups [\<lparr>gl_item_id = iid, gl_group_id = m_group_id g\<rparr>.
         m \<leftarrow> item_memberships t, im_item_id m = iid, g \<leftarrow> ms, m_event_id g = im_event_id m]"
  shows "distinct ls \<and> (\<forall>l \<in> set ls. gl_item_id l \<in> I)"
  using assms(1-3) distinct_delete_where [of id "group_links t"] by (auto simp: ls_def split: if_splits)

definition recount_item_one ::
    "event_row list \<Rightarrow> membership_row list \<Rightarrow> uuid \<Rightarrow> policy_tables \<times> inventory_tables \<Rightarrow> policy_tables \<times> inventory_tables" where
  "recount_item_one evs ms iid = (\<lambda>(p, t). case clear_item_projections iid (p, recount_item iid evs t) of
     (p', t') \<Rightarrow> (p', rebuild_item_group_links iid ms (rebuild_item_sightings iid evs (rebuild_item_releases iid evs t'))))"

lemmas recount_item_one_defs = recount_item_one_def rebuild_item_group_links_def rebuild_item_sightings_def
  rebuild_item_releases_def clear_item_projections_def recount_item_def Let_def

lemma recounted_item_row:
  assumes "r \<in> set (items (recount_item iid evs t))"
  shows "\<exists>r0 \<in> set (items t). it_id r = it_id r0
    \<and> it_occurrence_count r = (if it_id r0 = iid then length (item_events iid evs t) else it_occurrence_count r0)
    \<and> it_first_seen_at r = (if it_id r0 = iid \<and> item_events iid evs t \<noteq> [] then least_of er_observed_at (item_events iid evs t) else it_first_seen_at r0)
    \<and> it_last_seen_at r = (if it_id r0 = iid \<and> item_events iid evs t \<noteq> [] then greatest_of er_observed_at (item_events iid evs t) else it_last_seen_at r0)"
proof -
  from assms obtain r0 where "r0 \<in> set (items t)" and r: "r = (if it_id r0 = iid
      then r0\<lparr>it_occurrence_count := length (item_events iid evs t),
        it_first_seen_at := (if item_events iid evs t = [] then it_first_seen_at r0 else least_of er_observed_at (item_events iid evs t)),
        it_last_seen_at := (if item_events iid evs t = [] then it_last_seen_at r0 else greatest_of er_observed_at (item_events iid evs t)),
        it_semantic := it_semantic r\<rparr> else r0)"
    unfolding recount_item_def Let_def item_events_def [symmetric] by (auto simp: in_update_where)
  from this(1) show ?thesis by (intro bexI [of _ r0]) (subst r, simp)+
qed

lemma recount_item_one_shape:
  fixes p t evs ms iid
  defines "t' \<equiv> snd (recount_item_one evs ms iid (p, t))"
  shows "item_memberships t' = item_memberships t" "map it_id (items t') = map it_id (items t)"
    "map it_key (items t') = map it_key (items t)" "items t' = items (recount_item iid evs t)"
    "item_releases t' = delete_where (\<lambda>r. ir_item_id r = iid) (item_releases t)
     @ map (\<lambda>(rel, es). \<lparr>ir_item_id = iid, ir_release_id = rel,
           ir_occurrence_count = length es, ir_first_seen_at = least_of (er_observed_at \<circ> snd) es,
           ir_last_seen_at = greatest_of (er_observed_at \<circ> snd) es\<rparr>) (group_by fst (released_events iid evs t))"
    "sightings t' = delete_where (\<lambda>r. sk_item_id (sg_key r) = iid) (sightings t)
     @ map (\<lambda>(k, es). \<lparr>sg_key = k,
           sg_pod_name = Max ((pod_name \<circ> er_attribution) ` set es), sg_occurrence_count = length es,
           sg_first_seen_at = least_of er_observed_at es, sg_last_seen_at = greatest_of er_observed_at es\<rparr>)
         (group_by (\<lambda>e. sighting_at iid (er_cluster_id e) (er_attribution e)) (item_events iid evs t))"
    "group_links t' = delete_where (\<lambda>l. gl_item_id l = iid) (group_links t) @ remdups [\<lparr>gl_item_id = iid, gl_group_id = m_group_id g\<rparr>.
         m \<leftarrow> item_memberships t, im_item_id m = iid, g \<leftarrow> ms, m_event_id g = im_event_id m]"
  by (simp_all add: t'_def recount_item_one_defs map_update_where item_events_def released_events_def)

lemma recount_item_one_ok:
  assumes ok: "inventory_ok_but S t" and stored: "stored_items evs t"
  shows "inventory_ok_but (S - {iid}) (snd (recount_item_one evs ms iid (p, t)))"
proof -
  define t' where "t' = snd (recount_item_one evs ms iid (p, t))"
  note shape = recount_item_one_shape [where evs = evs and ms = ms and iid = iid and p = p and t = t, folded t'_def]
  note len = length_item_events [OF stored]
  have ids: "it_id ` set (items t') = it_id ` set (items t)" using shape(2) by (metis list.set_map)
  have events: "events_of i t' = events_of i t" for i by (simp add: events_of_def shape(1))
  have parts: "sighting.counted (sightings t)" "item_release.counted (item_releases t)" "distinct (group_links t)"
    "\<forall>l \<in> set (group_links t). gl_item_id l \<in> it_id ` set (items t)"
    "\<forall>m \<in> set (item_memberships t). im_item_id m \<in> it_id ` set (items t)"
    using ok by (simp_all add: inventory_ok_but_def)
  have rows: "(it_id r \<in> S - {iid} \<or> it_occurrence_count r = events_of (it_id r) t) \<and> it_first_seen_at r \<le> it_last_seen_at r"
    if "r \<in> set (items t')" for r
  proof -
    note row = recounted_item_row [OF that [unfolded shape(4)]]
    then obtain r0 where r0: "r0 \<in> set (items t)" and r: "it_id r = it_id r0"
      "it_occurrence_count r = (if it_id r0 = iid then length (item_events iid evs t) else it_occurrence_count r0)"
      "it_first_seen_at r = (if it_id r0 = iid \<and> item_events iid evs t \<noteq> [] then least_of er_observed_at (item_events iid evs t) else it_first_seen_at r0)"
      "it_last_seen_at r = (if it_id r0 = iid \<and> item_events iid evs t \<noteq> [] then greatest_of er_observed_at (item_events iid evs t) else it_last_seen_at r0)"
      by blast
    from ok r0 have "it_id r0 \<in> S \<or> it_occurrence_count r0 = events_of (it_id r0) t" "it_first_seen_at r0 \<le> it_last_seen_at r0"
      by (auto simp: inventory_ok_but_def)
    then show ?thesis using window_le [of "item_events iid evs t" er_observed_at er_observed_at]
      by (cases "it_id r0 = iid") (simp_all add: r len)
  qed
  have sightings: "sighting.counted (sightings t')" "sighted i t' = (if i = iid then events_of i t else sighted i t)" for i
    using rebuilt_sightings [OF parts(1), where iid = iid and evs = evs, folded shape] unfolding len sighted_def [of _ t'] by simp_all
  have releases: "item_release.counted (item_releases t')"
    "released i t' = (if i = iid then length (released_events iid evs t) else released i t)" for i
    using rebuilt_item_releases [OF parts(2), where iid = iid and evs = evs, folded shape] unfolding released_def [of _ t'] by simp_all
  have links: "distinct (group_links t') \<and> (\<forall>l \<in> set (group_links t'). gl_item_id l \<in> it_id ` set (items t))"
    unfolding shape by (rule rebuilt_links [OF parts(3-5)])
  have "i \<in> S - {iid} \<or> sighted i t' = events_of i t" "i \<in> S - {iid} \<or> released i t' \<le> events_of i t" for i
    using ok length_released_events [of iid evs t] by (auto simp: sightings releases len inventory_ok_but_def)
  with ok rows sightings(1) releases(1) links show ?thesis
    unfolding inventory_ok_but_def t'_def [symmetric] events ids shape(1-3) by (simp only: simp_thms) blast
qed

lemma recount_inventory_ok:
  assumes "inventory_ok_but S t" and "stored_items evs t" and "S \<subseteq> set iids"
  shows "inventory_ok (snd (recount_inventory iids evs ms (p, t)))
    \<and> item_memberships (snd (recount_inventory iids evs ms (p, t))) = item_memberships t
    \<and> it_id ` set (items (snd (recount_inventory iids evs ms (p, t)))) = it_id ` set (items t)"
proof -
  have fold: "recount_inventory iids evs ms pt = fold (recount_item_one evs ms) iids pt" for pt
    by (simp add: recount_inventory_def recount_item_one_def [abs_def])
  have "inventory_ok_but (S - set iids) (snd (fold (recount_item_one evs ms) iids (p, t)))
    \<and> item_memberships (snd (fold (recount_item_one evs ms) iids (p, t))) = item_memberships t
    \<and> it_id ` set (items (snd (fold (recount_item_one evs ms) iids (p, t)))) = it_id ` set (items t)"
    using assms(1,2)
  proof (induction iids arbitrary: S p t)
    case (Cons iid iids)
    obtain p1 t1 where one: "recount_item_one evs ms iid (p, t) = (p1, t1)" by fastforce
    note shape = recount_item_one_shape [where evs = evs and ms = ms and iid = iid and p = p and t = t, unfolded one snd_conv]
    have "inventory_ok_but (S - {iid}) t1" using recount_item_one_ok [OF Cons.prems, of iid ms p] by (simp add: one)
    moreover have "stored_items evs t1" using Cons.prems(2) by (simp add: stored_items_def shape(1))
    moreover have "it_id ` set (items t1) = it_id ` set (items t)" using shape(2) by (metis list.set_map)
    ultimately show ?case using Cons.IH [of "S - {iid}" t1 p1] by (simp add: one shape(1) Diff_insert2 [symmetric])
  qed simp
  moreover have "S - set iids = {}" using assms(3) by blast
  ultimately show ?thesis by (simp add: fold inventory_ok_but_none)
qed

lemma delete_item_events_ok:
  fixes ids t
  assumes ok: "inventory_ok t"
  defines "u \<equiv> t\<lparr>item_memberships := delete_where (\<lambda>m. im_event_id m \<in> set ids) (item_memberships t)\<rparr>"
  shows "inventory_ok_but (set (items_of_events ids t)) u"
proof -
  let ?S = "set (items_of_events ids t)"
  have "im_item_id m \<in> ?S" if "m \<in> set (item_memberships t)" "im_event_id m \<in> set ids" for m
    using that by (auto simp: items_of_events_def)
  then have events: "iid \<in> ?S \<or> events_of iid u = events_of iid t" for iid
    unfolding u_def events_of_def delete_where_def by (auto intro!: arg_cong [of _ _ length] filter_cong)
  have same: "sighted iid u = sighted iid t" "released iid u = released iid t" for iid
    by (simp_all add: sighted_def released_def u_def)
  have "it_id r \<in> ?S \<or> it_occurrence_count r = events_of (it_id r) u" if "r \<in> set (items t)" for r
    using events [of "it_id r"] ok that by (auto simp: inventory_ok_def items_ok_def)
  moreover have "iid \<in> ?S \<or> sighted iid u = events_of iid u" "iid \<in> ?S \<or> released iid u \<le> events_of iid u" for iid
    using events [of iid] ok by (auto simp: same inventory_ok_def rollups_ok_def)
  moreover have "items u = items t" "sightings u = sightings t" "item_releases u = item_releases t" "group_links u = group_links t"
    "item_memberships u = delete_where (\<lambda>m. im_event_id m \<in> set ids) (item_memberships t)" by (simp_all add: u_def)
  ultimately show ?thesis
    using ok unfolding inventory_ok_but_def inventory_ok_def items_ok_def rollups_ok_def by (simp add: distinct_delete_where)
qed

section \<open>Compaction keeps the database consistent\<close>

definition compacted_groups ::
    "(uuid \<Rightarrow> uuid option \<Rightarrow> int \<Rightarrow> uuid) \<Rightarrow> uuid list \<Rightarrow> datetime option \<Rightarrow> event_row list \<Rightarrow> group_tables \<Rightarrow> group_tables" where
  "compacted_groups draw ids expired_before evs t =
     recount_groups (groups_of_events ids t) (delete_where (\<lambda>e. er_id e \<in> set ids) evs)
       (clear_restart_loop_windows (groups_of_events ids t)
         ((detach_events ids (fold_both draw ids expired_before evs t))
            \<lparr>memberships := delete_where (\<lambda>m. m_event_id m \<in> set ids) (memberships t)\<rparr>))"

lemma compacted_groups_ok:
  fixes draw ids expired_before evs t
  assumes "groups_ok t" and "stored_members evs t"
  defines "t' \<equiv> compacted_groups draw ids expired_before evs t"
  shows "groups_ok t'" and "memberships t' = delete_where (\<lambda>m. m_event_id m \<in> set ids) (memberships t)"
    and "snapshots t' = snapshots (fold_both draw ids expired_before evs t)"
    and "map g_id (groups t') = map g_id (groups t)" and "outbox t' = outbox t"
proof -
  let ?ms = "delete_where (\<lambda>m. m_event_id m \<in> set ids) (memberships t)"
  define u where "u = (fold_both draw ids expired_before evs t)\<lparr>memberships := ?ms\<rparr>"
  define v where "v = clear_restart_loop_windows (groups_of_events ids t)
     ((detach_events ids (fold_both draw ids expired_before evs t))\<lparr>memberships := ?ms\<rparr>)"
  have parts: "members_ok t" "history_ok t" using assms(1) by (simp_all add: groups_ok_def)
  note f = fold_both [OF parts, where draw = draw and ids = ids and expired_before = expired_before and evs = evs]
  note del = delete_events_ok [OF assms(1,2), where draw = draw and ids = ids and expired_before = expired_before, folded u_def]
  have counts: "same_counts u v"
  proof -
    have "same_counts u ((detach_events ids (fold_both draw ids expired_before evs t))\<lparr>memberships := ?ms\<rparr>)"
      unfolding u_def by (rule detach_counts)
    moreover have "same_counts ((detach_events ids (fold_both draw ids expired_before evs t))\<lparr>memberships := ?ms\<rparr>) v"
      unfolding v_def by (rule clear_windows_counts)
    ultimately show ?thesis by (auto simp: same_counts_def intro: same_shape_trans)
  qed
  then have shape: "same_shape u v" by (simp add: same_counts_def)
  have "groups_ok_but (set (groups_of_events ids t)) v" using del(1) same_counts_ok [OF counts] by simp
  moreover have "stored_members (delete_where (\<lambda>e. er_id e \<in> set ids) evs) v" using del(2) same_shape_keeps(3) [OF shape] by simp
  moreover have t': "t' = recount_groups (groups_of_events ids t) (delete_where (\<lambda>e. er_id e \<in> set ids) evs) v"
    by (simp add: t'_def compacted_groups_def v_def)
  ultimately have "groups_ok t'" and rest: "same_shape v t'" using recount_groups_ok [of _ v] by auto
  then show "groups_ok t'" by simp
  have "same_shape u t'" using shape rest by (rule same_shape_trans)
  then show "memberships t' = ?ms" "snapshots t' = snapshots (fold_both draw ids expired_before evs t)"
    "map g_id (groups t') = map g_id (groups t)" "outbox t' = outbox t"
    by (simp_all add: same_shape_def u_def f)
qed

lemma compact_tables:
  fixes draw ids expired_before db
  assumes "ids \<noteq> []"
  defines "db' \<equiv> compact draw ids expired_before db" and "t \<equiv> db_projections db"
  shows "pt_groups (db_projections db') = compacted_groups draw ids expired_before (db_events db) (pt_groups t)"
    and "(db_policies db', pt_inventory (db_projections db'))
      = recount_inventory (items_of_events ids (pt_inventory t)) (delete_where (\<lambda>e. er_id e \<in> set ids) (db_events db))
          (memberships (pt_groups (db_projections db')))
          (db_policies db, (pt_inventory t)\<lparr>item_memberships := delete_where (\<lambda>m. im_event_id m \<in> set ids) (item_memberships (pt_inventory t))\<rparr>)"
    and "db_events db' = delete_where (\<lambda>e. er_id e \<in> set ids) (db_events db)"
    and "db_projects db' = db_projects db" "db_organizations db' = db_organizations db" "db_deliveries db' = db_deliveries db"
      "db_windows db' = db_windows db"
  using assms(1) by (simp_all add: db'_def t_def compact_def Let_def delete_events_def compacted_groups_def fold_both_def
      fold_into_history_snapshots_def detach_events_def case_prod_beta)

end
