(* ===== verification/Ingestion_Laws.thy ===== *)
theory Ingestion_Laws
  imports Ingestion
begin

text \<open>
  What ingestion guarantees. \<open>database_ok\<close> ties the tables together: every stored event is a member of
  exactly one Runtime Group and is counted on exactly one inventory item, and nothing else is. A
  committed batch keeps it, a batch that is sent again adds nothing, and all that a batch adds belongs
  to the credential that authenticated the session. The last part shows an event that no retry can get
  past.
\<close>

section \<open>The projections of one event\<close>

lemma fingerprint_v1_version: "fingerprint_v1 S sha scope e = Ok f \<Longrightarrow> fp_version f = FINGERPRINT_V1"
  by (auto simp: fingerprint_v1_def result_laws)

definition used_ids :: "projection_tables \<Rightarrow> uuid set" where
  "used_ids t = g_id ` set (groups (pt_groups t)) \<union> it_id ` set (items (pt_inventory t))"

definition joins_projections :: "uuid \<Rightarrow> projection_tables \<Rightarrow> projection_tables \<Rightarrow> bool" where
  "joins_projections raw t t' \<longleftrightarrow> projections_ok t'
     \<and> (\<exists>gid rel extra. memberships (pt_groups t') = memberships (pt_groups t)
          @ \<lparr>m_event_id = raw, m_version = 1, m_group_id = gid, m_release_id = rel\<rparr> # extra
          \<and> (\<forall>m \<in> set extra. m_event_id m = raw \<and> m_version m = DERIVED_GROUP_FINGERPRINT_VERSION))
     \<and> (\<exists>m. item_memberships (pt_inventory t') = item_memberships (pt_inventory t) @ [m] \<and> im_event_id m = raw)"

lemma project_stored_joins:
  assumes ok: "projections_ok t"
    and raw: "fi_event ids \<notin> m_event_id ` set (memberships (pt_groups t))"
      "fi_event ids \<notin> im_event_id ` set (item_memberships (pt_inventory t))"
    and fresh: "distinct [fi_group ids, fi_loop_group ids]" "fi_group ids \<notin> used_ids t"
      "fi_item ids \<notin> used_ids t" "fi_loop_group ids \<notin> used_ids t"
    and run: "project_stored L S ids ctx release_id e evs (p, t) = Ok (p', t')"
  shows "joins_projections (fi_event ids) t t'"
    and "used_ids t' \<subseteq> used_ids t \<union> {fi_group ids, fi_item ids, fi_loop_group ids}"
proof -
  let ?org = "ss_organization_id (ic_scope ctx)" and ?cluster = "ss_cluster_id (ic_scope ctx)"
  from run obtain g grouping i inventory where
    a: "assign_event S (sha256 L) (fi_group ids) (fi_outbox ids) (fi_event ids) release_id
          (grouping_scope_of ctx (attribution e)) e Live (pt_groups t) = Ok (g, grouping)"
    and b: "project_event S (sha256 L) (fi_item ids) (fi_event ids) (go_group_id grouping) release_id ?cluster ?org e
          (pt_inventory t) = Ok (i, inventory)"
    and c: "project_durable_evidence L S (fi_loop_group ids) (fi_loop_outbox ids) (fi_event ids) ?org ?cluster e evs
          (t\<lparr>pt_groups := g, pt_inventory := i\<rparr>) = Ok t'"
    by (auto simp: project_stored_def Let_def result_laws split: prod.splits)
  from a obtain f where f: "fingerprint_v1 S (sha256 L) (grouping_scope_of ctx (attribution e)) e = Ok f"
    by (auto simp: assign_event_def result_laws)
  from b obtain h where h: "inventory_fingerprint_of S (sha256 L) (scope_of ?org e) e = Ok h"
    by (auto simp: project_event_def Let_def result_laws)
  have parts: "groups_ok (pt_groups t)" "inventory_ok (pt_inventory t)" using ok by (simp_all add: projections_ok_def)
  have cand: "fi_group ids \<notin> g_id ` set (groups (pt_groups t))" "fi_item ids \<notin> it_id ` set (items (pt_inventory t))"
    "fi_loop_group ids \<notin> g_id ` set (groups (pt_groups t))"
    using fresh by (auto simp: used_ids_def)
  have g: "groups_ok g" "g_id ` set (groups g) \<subseteq> insert (fi_group ids) (g_id ` set (groups (pt_groups t)))"
    using assign_event_ok [OF parts(1) a raw(1) cand(1)] assign_event_ids [OF a raw(1)] by auto
  have one: "unat (fp_version f) = 1" using fingerprint_v1_version [OF f] by (simp add: FINGERPRINT_V1_def)
  obtain gid where gm: "memberships g = memberships (pt_groups t)
      @ [\<lparr>m_event_id = fi_event ids, m_version = 1, m_group_id = gid, m_release_id = release_id\<rparr>]"
    by (rule assign_event_effect [OF parts(1) f a raw(1) cand(1)]) (simp add: one that)
  have new: "(fi_event ids, unat (if_version h)) \<notin> member_key ` set (item_memberships (pt_inventory t))"
    using raw(2) by (auto simp: member_key_def)
  obtain im where i: "inventory_ok i" "item_memberships i = item_memberships (pt_inventory t) @ [im]"
      "im_event_id im = fi_event ids"
    by (rule projected [OF parts(2) h new cand(2), of "go_group_id grouping" release_id ?cluster])
      (simp add: b that)
  have items: "it_id ` set (items i) \<subseteq> insert (fi_item ids) (it_id ` set (items (pt_inventory t)))"
    using project_event_ids [OF h new b] .
  have "derives_only (fi_event ids) (fi_loop_group ids) (t\<lparr>pt_groups := g, pt_inventory := i\<rparr>) t'"
  proof (rule durable_evidence_derives [OF _ _ _ c])
    show "projections_ok (t\<lparr>pt_groups := g, pt_inventory := i\<rparr>)" using g(1) i(1) by (simp add: projections_ok_def)
    show "fi_loop_group ids \<notin> g_id ` set (groups (pt_groups (t\<lparr>pt_groups := g, pt_inventory := i\<rparr>)))"
      using g(2) cand(3) fresh(1) by auto
    show "(fi_event ids, DERIVED_GROUP_FINGERPRINT_VERSION) \<notin>
        (\<lambda>m. (m_event_id m, m_version m)) ` set (memberships (pt_groups (t\<lparr>pt_groups := g, pt_inventory := i\<rparr>)))"
      using raw(1) by (auto simp: gm DERIVED_GROUP_FINGERPRINT_VERSION_def)
  qed
  then obtain extra where d: "projections_ok t'" "item_memberships (pt_inventory t') = item_memberships i"
      "items (pt_inventory t') = items i" "memberships (pt_groups t') = memberships g @ extra"
      "\<forall>m \<in> set extra. m_event_id m = fi_event ids \<and> m_version m = DERIVED_GROUP_FINGERPRINT_VERSION"
      "g_id ` set (groups (pt_groups t')) \<subseteq> insert (fi_loop_group ids) (g_id ` set (groups g))"
    by (simp add: derives_only_def) blast
  from d i gm show "joins_projections (fi_event ids) t t'" by (simp add: joins_projections_def)
  show "used_ids t' \<subseteq> used_ids t \<union> {fi_group ids, fi_item ids, fi_loop_group ids}"
    unfolding used_ids_def d(3) using d(6) g(2) items by blast
qed

section \<open>The branches of \<open>persist_event\<close>\<close>

fun window_of :: "event_payload \<Rightarrow> thread_activity_window option" where
  "window_of (ThreadActivityWindow w) = Some w"
| "window_of _ = None"

definition new_window :: "ingestion_context \<Rightarrow> runtime_event \<Rightarrow> thread_activity_window \<Rightarrow> window_row" where
  "new_window ctx e w = \<lparr>wr_id = tw_id w, wr_organization_id = ss_organization_id (ic_scope ctx),
     wr_project_id = project_id (attribution e), wr_application_id = application_id (attribution e),
     wr_cluster_id = ss_cluster_id (ic_scope ctx), wr_agent_id = ic_agent_id ctx,
     wr_observed_at = event_observed_at e, wr_process = event_process e, wr_window = w\<rparr>"

definition window_fits :: "runtime_event \<Rightarrow> thread_activity_window \<Rightarrow> bool" where
  "window_fits e w \<longleftrightarrow> fits_i64 (cgroup_id (event_process e)) \<and> fits_i64 (generation (tw_generation w))
     \<and> fits_i64 (tw_created w) \<and> fits_i64 (tw_exited w) \<and> fits_i64 (tw_active_at_start w)
     \<and> fits_i64 (tw_active_at_end w) \<and> fits_i64 (tw_peak_active w) \<and> fits_i64 (name_overflow w)"

text \<open>The checks before anything is written.\<close>

definition passes_checks :: "ingestion_context \<Rightarrow> runtime_event \<Rightarrow> database \<Rightarrow> bool" where
  "passes_checks ctx e db \<longleftrightarrow> validate_dns_event e = Ok () \<and> validate_termination_event e = Ok ()
     \<and> schema_version e = EVENT_SCHEMA_VERSION
     \<and> (ss_organization_id (ic_scope ctx), project_id (attribution e), application_id (attribution e))
         \<in> set (db_applications db)
     \<and> (case window_of (payload e) of
          Some w \<Rightarrow> is_ok (validate_window w) \<and> window_fits e w
        | None \<Rightarrow> fits_i64 (cgroup_id (event_process e)))"

definition is_stored :: "ingestion_context \<Rightarrow> runtime_event \<Rightarrow> database \<Rightarrow> bool" where
  "is_stored ctx e db \<longleftrightarrow>
     (case window_of (payload e) of
        Some w \<Rightarrow> \<exists>r \<in> set (db_windows db). same_window r (new_window ctx e w)
      | None \<Rightarrow> (ic_agent_id ctx, event_id e) \<in> event_key ` set (db_events db))"

lemma event_key_new [simp]: "event_key (new_event ctx raw rid e) = (ic_agent_id ctx, event_id e)"
  by (simp add: event_key_def new_event_def)

lemma persist_event_window:
  assumes "window_of (payload e) = Some w"
  shows "persist_event L S ids ctx e db = Ok (db', n) \<longleftrightarrow> passes_checks ctx e db
    \<and> db' = (if is_stored ctx e db then db else db\<lparr>db_windows := db_windows db @ [new_window ctx e w]\<rparr>)
    \<and> n = (if is_stored ctx e db then 0 else 1)"
proof -
  have "payload e = ThreadActivityWindow w" using assms by (cases "payload e") auto
  then show ?thesis
    by (auto simp: persist_event_def persist_thread_window_def result_laws passes_checks_def window_fits_def
        is_stored_def insert_window_def new_window_def Let_def split: if_splits)
qed

lemma not_window_case: "window_of p = None \<Longrightarrow> (case p of ThreadActivityWindow w \<Rightarrow> g w | _ \<Rightarrow> h) = h"
  by (cases p) auto

lemma persist_event_plain:
  assumes "window_of (payload e) = None" and "passes_checks ctx e db"
  shows "persist_event L S ids ctx e db =
    res_bind (resolve_release L (fi_release ids) (ss_organization_id (ic_scope ctx)) e (db_releases db))
       (\<lambda>(rels, rid).
         if is_stored ctx e db then Ok (db\<lparr>db_releases := rels\<rparr>, 0)
         else res_bind (map_err Database (project_stored L S ids ctx rid e
                  (db_events db @ [new_event ctx (fi_event ids) rid e]) (db_policies db, db_projections db)))
                (\<lambda>(p, t). Ok (db\<lparr>db_releases := rels,
                   db_events := db_events db @ [new_event ctx (fi_event ids) rid e],
                   db_policies := p, db_projections := t\<rparr>, 1)))"
  using assms by (cases "is_stored ctx e db")
    (simp_all add: persist_event_def passes_checks_def is_stored_def insert_new_def not_window_case)

lemma persist_event_checked:
  assumes "persist_event L S ids ctx e db = Ok (db', n)"
  shows "passes_checks ctx e db"
proof (cases "window_of (payload e)")
  case None
  with assms show ?thesis
    by (auto simp: persist_event_def passes_checks_def result_laws not_window_case split: if_splits)
next
  case (Some w)
  with assms persist_event_window show ?thesis by blast
qed

lemma persist_event_cases:
  assumes "persist_event L S ids ctx e db = Ok (db', n)"
  obtains (window) w where "window_of (payload e) = Some w"
      "db' = (if is_stored ctx e db then db else db\<lparr>db_windows := db_windows db @ [new_window ctx e w]\<rparr>)"
      "n = (if is_stored ctx e db then 0 else 1)"
  | (duplicate) rels rid where "window_of (payload e) = None" "is_stored ctx e db"
      "resolve_release L (fi_release ids) (ss_organization_id (ic_scope ctx)) e (db_releases db) = Ok (rels, rid)"
      "db' = db\<lparr>db_releases := rels\<rparr>" "n = 0"
  | (fresh) rels rid p t where "window_of (payload e) = None" "\<not> is_stored ctx e db"
      "resolve_release L (fi_release ids) (ss_organization_id (ic_scope ctx)) e (db_releases db) = Ok (rels, rid)"
      "project_stored L S ids ctx rid e (db_events db @ [new_event ctx (fi_event ids) rid e])
         (db_policies db, db_projections db) = Ok (p, t)"
      "db' = db\<lparr>db_releases := rels, db_events := db_events db @ [new_event ctx (fi_event ids) rid e],
         db_policies := p, db_projections := t\<rparr>" "n = 1"
proof (cases "window_of (payload e)")
  case None
  note run = assms [unfolded persist_event_plain [OF None persist_event_checked [OF assms]]]
  then obtain rels rid where r:
    "resolve_release L (fi_release ids) (ss_organization_id (ic_scope ctx)) e (db_releases db) = Ok (rels, rid)"
    by (auto simp: result_laws)
  show ?thesis
  proof (cases "is_stored ctx e db")
    case True
    with run r have "db' = db\<lparr>db_releases := rels\<rparr>" "n = 0" by simp_all
    with duplicate None True r show ?thesis by blast
  next
    case False
    with run r obtain p t where "project_stored L S ids ctx rid e
        (db_events db @ [new_event ctx (fi_event ids) rid e]) (db_policies db, db_projections db) = Ok (p, t)"
      by (auto simp: result_laws)
    moreover from this run r False have "db' = db\<lparr>db_releases := rels,
        db_events := db_events db @ [new_event ctx (fi_event ids) rid e], db_policies := p, db_projections := t\<rparr>"
      "n = 1" by simp_all
    ultimately show ?thesis using fresh None False r by blast
  qed
next
  case (Some w)
  with assms persist_event_window [OF Some] window show ?thesis by blast
qed

section \<open>Consistency of the database\<close>

definition database_ok :: "database \<Rightarrow> bool" where
  "database_ok db \<longleftrightarrow>
     (let stored = er_id ` set (db_events db); t = db_projections db
      in distinct (map er_id (db_events db)) \<and> distinct (map event_key (db_events db)) \<and> projections_ok t
         \<and> m_event_id ` {m \<in> set (memberships (pt_groups t)). m_version m = 1} = stored
         \<and> m_event_id ` set (memberships (pt_groups t)) \<subseteq> stored
         \<and> im_event_id ` set (item_memberships (pt_inventory t)) = stored)"

definition taken_ids :: "database \<Rightarrow> uuid set" where
  "taken_ids db = er_id ` set (db_events db) \<union> used_ids (db_projections db)"

definition ids_of :: "fresh_ids \<Rightarrow> uuid list" where
  "ids_of i = [fi_event i, fi_group i, fi_item i, fi_loop_group i]"

lemma persist_event_keeps_ok:
  assumes ok: "database_ok db" and fresh: "distinct (ids_of ids)" "set (ids_of ids) \<inter> taken_ids db = {}"
    and run: "persist_event L S ids ctx e db = Ok (db', n)"
  shows "database_ok db' \<and> taken_ids db' \<subseteq> taken_ids db \<union> set (ids_of ids)"
  using run
proof (cases rule: persist_event_cases)
  case (window w)
  with ok show ?thesis by (auto simp: database_ok_def taken_ids_def Let_def)
next
  case (duplicate rels rid)
  with ok show ?thesis by (auto simp: database_ok_def taken_ids_def Let_def)
next
  case (fresh rels rid p t)
  let ?t = "db_projections db"
  have new: "fi_event ids \<notin> er_id ` set (db_events db)" using assms(3) by (auto simp: ids_of_def taken_ids_def)
  have parts: "projections_ok ?t" "fi_event ids \<notin> m_event_id ` set (memberships (pt_groups ?t))"
    "fi_event ids \<notin> im_event_id ` set (item_memberships (pt_inventory ?t))"
    using ok new by (auto simp: database_ok_def Let_def)
  have ids: "distinct [fi_group ids, fi_loop_group ids]" "fi_group ids \<notin> used_ids ?t"
    "fi_item ids \<notin> used_ids ?t" "fi_loop_group ids \<notin> used_ids ?t"
    using assms(2,3) by (auto simp: ids_of_def taken_ids_def)
  note joins = project_stored_joins [OF parts ids fresh(4)]
  from joins(1) obtain gid rel extra m where j: "projections_ok t"
      "memberships (pt_groups t) = memberships (pt_groups ?t)
          @ \<lparr>m_event_id = fi_event ids, m_version = 1, m_group_id = gid, m_release_id = rel\<rparr> # extra"
      "\<forall>m \<in> set extra. m_event_id m = fi_event ids \<and> m_version m = DERIVED_GROUP_FINGERPRINT_VERSION"
      "item_memberships (pt_inventory t) = item_memberships (pt_inventory ?t) @ [m]" "im_event_id m = fi_event ids"
    by (auto simp: joins_projections_def)
  have "{x \<in> set extra. m_version x = 1} = {}" using j(3) by (auto simp: DERIVED_GROUP_FINGERPRINT_VERSION_def)
  then have one: "{x \<in> set (memberships (pt_groups t)). m_version x = 1}
      = insert \<lparr>m_event_id = fi_event ids, m_version = 1, m_group_id = gid, m_release_id = rel\<rparr>
          {x \<in> set (memberships (pt_groups ?t)). m_version x = 1}"
    by (auto simp: j(2))
  have key: "(ic_agent_id ctx, event_id e) \<notin> event_key ` set (db_events db)"
    using fresh(1,2) by (simp add: is_stored_def)
  have old: "distinct (map er_id (db_events db))" "distinct (map event_key (db_events db))"
    "m_event_id ` {m \<in> set (memberships (pt_groups ?t)). m_version m = 1} = er_id ` set (db_events db)"
    "m_event_id ` set (memberships (pt_groups ?t)) \<subseteq> er_id ` set (db_events db)"
    "im_event_id ` set (item_memberships (pt_inventory ?t)) = er_id ` set (db_events db)"
    using ok by (simp_all add: database_ok_def Let_def)
  have id: "er_id (new_event ctx (fi_event ids) rid e) = fi_event ids" by (simp add: new_event_def)
  have evs: "er_id ` set (db_events db') = insert (fi_event ids) (er_id ` set (db_events db))"
    using fresh(5) id by simp
  have "distinct (map er_id (db_events db'))" "distinct (map event_key (db_events db'))"
    using fresh(5) old(1,2) new key id by simp_all
  moreover have "m_event_id ` {m \<in> set (memberships (pt_groups t)). m_version m = 1} = er_id ` set (db_events db')"
    unfolding one evs using old(3) by simp
  moreover have "m_event_id ` set (memberships (pt_groups t)) \<subseteq> er_id ` set (db_events db')"
    unfolding evs j(2) using old(4) j(3) by (simp add: image_subset_iff) blast
  moreover have "im_event_id ` set (item_memberships (pt_inventory t)) = er_id ` set (db_events db')"
    unfolding evs j(4) using old(5) j(5) by simp
  ultimately have "database_ok db'"
    using j(1) fresh(5) by (simp add: database_ok_def Let_def)
  moreover have "taken_ids db' \<subseteq> taken_ids db \<union> set (ids_of ids)"
    using joins(2) fresh(5) by (auto simp: taken_ids_def ids_of_def new_event_def)
  ultimately show ?thesis ..
qed

definition fresh_batch :: "(runtime_event \<times> fresh_ids) list \<Rightarrow> database \<Rightarrow> bool" where
  "fresh_batch es db \<longleftrightarrow> distinct (concat (map (ids_of \<circ> snd) es))
     \<and> set (concat (map (ids_of \<circ> snd) es)) \<inter> taken_ids db = {}"

lemma fresh_batch_Cons:
  "fresh_batch ((e, ids) # es) db \<longleftrightarrow> distinct (ids_of ids) \<and> set (ids_of ids) \<inter> taken_ids db = {}
     \<and> set (ids_of ids) \<inter> set (concat (map (ids_of \<circ> snd) es)) = {} \<and> fresh_batch es db"
  by (simp add: fresh_batch_def Int_Un_distrib2) blast

lemma persist_events_keeps_ok:
  assumes "database_ok db" and "fresh_batch es db" and "persist_events L S ctx c closed es out db = Ok (db', out')"
  shows "database_ok db'"
  using assms
proof (induction es arbitrary: out db)
  case Nil
  then show ?case by simp
next
  case (Cons x es)
  obtain e ids accepted dropped where x: "x = (e, ids)" "out = (accepted, dropped)" by (cases x; cases out) auto
  show ?case
  proof (cases "expired closed e")
    case True
    with Cons.prems x Cons.IH show ?thesis by (simp add: fresh_batch_Cons)
  next
    case False
    with Cons.prems(3) x obtain db1 n where
      e: "persist_event L S ids ctx (owned_by c e) db = Ok (db1, n)"
      and rest: "persist_events L S ctx c closed es (min (accepted + n) MAX_U32, dropped) db1 = Ok (db', out')"
      by (auto simp: result_laws)
    have f: "set (ids_of ids) \<inter> set (concat (map (ids_of \<circ> snd) es)) = {}" "fresh_batch es db"
      using Cons.prems(2) x by (simp_all add: fresh_batch_Cons)
    have "database_ok db1 \<and> taken_ids db1 \<subseteq> taken_ids db \<union> set (ids_of ids)"
      using Cons.prems(1,2) x by (intro persist_event_keeps_ok [OF _ _ _ e]) (simp_all add: fresh_batch_Cons)
    moreover from this have "fresh_batch es db1"
      using f unfolding fresh_batch_def by blast
    ultimately show ?thesis using Cons.IH rest by blast
  qed
qed

lemma batch_keeps_ok:
  assumes "database_ok db" and "fresh_batch es db"
    and "persist_application_batch_outcome L S scope c agent es db = (db', r)"
  shows "database_ok db'"
proof (cases "batch_body L S scope c agent es db")
  case (Ok x)
  then obtain closed where "persist_events L S \<lparr>ic_scope = scope, ic_agent_id = agent\<rparr> c closed es (0, 0) db = Ok x"
    by (auto simp: batch_body_def result_laws split: if_splits)
  moreover from assms(3) Ok obtain out where "x = (db', out)"
    by (cases x) (simp add: persist_application_batch_outcome_def)
  ultimately show ?thesis using persist_events_keeps_ok [OF assms(1,2)] by simp
next
  case (Err x)
  with assms show ?thesis by (simp add: persist_application_batch_outcome_def)
qed

section \<open>A batch sent again\<close>

text \<open>An observed release is settled once its row exists: it is found by version and is never replaced.\<close>

definition release_profile :: "release_row \<Rightarrow> uuid \<times> uuid \<times> string \<times> (nat \<times> u8 list) option" where
  "release_profile r = (rel_organization_id r, rel_project_id r, rel_source r, rel_identity r)"

definition profile_of :: "uuid \<Rightarrow> string \<Rightarrow> release_row list \<Rightarrow> (uuid \<times> uuid \<times> string \<times> (nat \<times> u8 list) option) option" where
  "profile_of app version rows =
     map_option release_profile (find (\<lambda>r. rel_application_id r = app \<and> rel_version r = version) rows)"

lemma profile_of_update:
  assumes "\<And>r. rel_application_id (f r) = rel_application_id r" "\<And>r. rel_version (f r) = rel_version r"
    "\<And>r. release_profile (f r) = release_profile r"
  shows "profile_of app version (update_where P f rows) = profile_of app version rows"
  unfolding profile_of_def by (induction rows) (auto simp: assms)

lemma profile_of_append:
  "profile_of app version (rows @ [row]) = (case profile_of app version rows of
     Some p \<Rightarrow> Some p
   | None \<Rightarrow> if rel_application_id row = app \<and> rel_version row = version then Some (release_profile row) else None)"
  unfolding profile_of_def by (induction rows) auto

lemma insert_observed_profile:
  assumes "insert_observed row rows = Ok (rows', i)" and "rel_source row = ''observed''"
  shows "profile_of (rel_application_id row) (rel_version row) rows' = Some (release_profile row)"
    and "profile_of app version rows = Some p \<Longrightarrow> profile_of app version rows' = Some p"
proof -
  let ?P = "\<lambda>r. rel_application_id r = rel_application_id row \<and> rel_version r = rel_version row"
  have upd: "profile_of a v (update_where ?P (\<lambda>x. x\<lparr>rel_components := rel_components row\<rparr>) rows)
      = profile_of a v rows" for a v by (rule profile_of_update) (simp_all add: release_profile_def)
  show "profile_of (rel_application_id row) (rel_version row) rows' = Some (release_profile row)"
  proof (cases "find ?P rows")
    case None
    then have "profile_of (rel_application_id row) (rel_version row) rows = None" by (simp add: profile_of_def)
    with None assms(1) show ?thesis by (auto simp: insert_observed_def profile_of_append)
  next
    case (Some r)
    with assms have "rows' = update_where ?P (\<lambda>x. x\<lparr>rel_components := rel_components row\<rparr>) rows"
      "release_profile r = release_profile row"
      by (auto simp: insert_observed_def release_profile_def split: if_splits)
    with Some upd show ?thesis by (simp add: profile_of_def)
  qed
  show "profile_of app version rows' = Some p" if "profile_of app version rows = Some p"
    using assms(1) that upd by (auto simp: insert_observed_def profile_of_append split: option.splits if_splits)
qed

lemma insert_observed_again:
  assumes "profile_of (rel_application_id row) (rel_version row) rows = Some (release_profile row)"
    and "rel_source row = ''observed''"
  shows "\<exists>rows' i. insert_observed row rows = Ok (rows', i)"
  using assms by (auto simp: insert_observed_def profile_of_def release_profile_def)

definition settled :: "wire_lib \<Rightarrow> uuid \<Rightarrow> runtime_event \<Rightarrow> release_row list \<Rightarrow> bool" where
  "settled L org e rows \<longleftrightarrow> (case release_identity_of (attribution e) of
     None \<Rightarrow> True
   | Some identity \<Rightarrow> validate_release (sha256 L) identity = Ok ()
       \<and> profile_of (application_id (attribution e)) (''sha256:'' @ hex_encode (ri_digest identity)) rows
           = Some (org, project_id (attribution e), ''observed'',
               Some (min (unat (ri_version identity)) (2 ^ 15 - 1), ri_digest identity)))"

lemma resolve_release_settles:
  assumes "resolve_release L cand org e rows = Ok (rows', rid)"
  shows "settled L org e rows'" and "settled L org' e' rows \<Longrightarrow> settled L org' e' rows'"
proof -
  have "settled L org e rows' \<and> (settled L org' e' rows \<longrightarrow> settled L org' e' rows')"
  proof (cases "release_identity_of (attribution e)")
    case None
    with assms have "rows' = rows" by (auto simp: resolve_release_def Let_def split: option.splits)
    with None show ?thesis by (simp add: settled_def)
  next
    case (Some identity)
    with assms obtain i where v: "validate_release (sha256 L) identity = Ok ()"
      and r: "resolve_observed_release cand org (attribution e) identity (event_observed_at e) rows = Ok (rows', i)"
      by (auto simp: resolve_release_def result_laws Let_def)
    note ins = insert_observed_profile [OF r [unfolded resolve_observed_release_def]]
    show ?thesis
      using Some v ins(1) ins(2) by (auto simp: settled_def release_profile_def split: option.splits)
  qed
  then show "settled L org e rows'" "settled L org' e' rows \<Longrightarrow> settled L org' e' rows'" by auto
qed

lemma settled_resolves:
  assumes "settled L org e rows"
  shows "\<exists>rows' rid. resolve_release L cand org e rows = Ok (rows', rid)"
proof (cases "release_identity_of (attribution e)")
  case None
  then show ?thesis by (cases "release (attribution e)") (simp_all add: resolve_release_def)
next
  case (Some identity)
  with assms have "\<exists>rows' i. resolve_observed_release cand org (attribution e) identity (event_observed_at e) rows = Ok (rows', i)"
    unfolding resolve_observed_release_def
    by (intro insert_observed_again) (simp_all add: settled_def release_profile_def)
  with Some assms show ?thesis by (auto simp: resolve_release_def settled_def Let_def)
qed

text \<open>An event that went through: a second attempt finds it stored.\<close>

definition settled_event :: "wire_lib \<Rightarrow> ingestion_context \<Rightarrow> runtime_event \<Rightarrow> database \<Rightarrow> bool" where
  "settled_event L ctx e db \<longleftrightarrow> passes_checks ctx e db \<and> is_stored ctx e db
     \<and> (window_of (payload e) = None \<longrightarrow> settled L (ss_organization_id (ic_scope ctx)) e (db_releases db))"

lemma persist_event_settles:
  assumes "persist_event L S ids ctx e db = Ok (db', n)"
  shows "settled_event L ctx e db'" and "settled_event L ctx' e' db \<Longrightarrow> settled_event L ctx' e' db'"
proof -
  have "settled_event L ctx e db' \<and> (settled_event L ctx' e' db \<longrightarrow> settled_event L ctx' e' db')"
    using assms
  proof (cases rule: persist_event_cases)
    case (window w)
    with persist_event_checked [OF assms] show ?thesis
      by (auto simp: settled_event_def passes_checks_def is_stored_def same_window_def split: option.splits)
  next
    case (duplicate rels rid)
    note settles = resolve_release_settles [OF duplicate(3)]
    from duplicate persist_event_checked [OF assms] settles show ?thesis
      by (auto simp: settled_event_def passes_checks_def is_stored_def split: option.splits)
  next
    case (fresh rels rid p t)
    note settles = resolve_release_settles [OF fresh(3)]
    from fresh persist_event_checked [OF assms] settles show ?thesis
      by (auto simp: settled_event_def passes_checks_def is_stored_def split: option.splits)
  qed
  then show "settled_event L ctx e db'" "settled_event L ctx' e' db \<Longrightarrow> settled_event L ctx' e' db'" by auto
qed

lemma settled_event_again:
  assumes "settled_event L ctx e db"
  shows "\<exists>rels. persist_event L S ids ctx e db = Ok (db\<lparr>db_releases := rels\<rparr>, 0)"
proof (cases "window_of (payload e)")
  case None
  with assms settled_resolves [of L "ss_organization_id (ic_scope ctx)" e "db_releases db" "fi_release ids"]
  show ?thesis by (auto simp: settled_event_def persist_event_plain)
next
  case (Some w)
  have "persist_event L S ids ctx e db = Ok (db, 0)"
    using assms by (simp add: persist_event_window [OF Some] settled_event_def)
  then show ?thesis by (intro exI [of _ "db_releases db"]) simp
qed

text \<open>The rows that a run added, and what it kept.\<close>

definition added :: "database \<Rightarrow> database \<Rightarrow> nat" where
  "added db db' = length (db_events db') - length (db_events db) + (length (db_windows db') - length (db_windows db))"

definition owns_event :: "ingestion_context \<Rightarrow> credential_scope \<Rightarrow> event_row \<Rightarrow> bool" where
  "owns_event ctx c r \<longleftrightarrow> er_organization_id r = ss_organization_id (ic_scope ctx)
     \<and> er_cluster_id r = ss_cluster_id (ic_scope ctx) \<and> er_agent_id r = ic_agent_id ctx
     \<and> project_id (er_attribution r) = ac_project_id c \<and> application_id (er_attribution r) = ac_application_id c"

definition owns_window :: "ingestion_context \<Rightarrow> credential_scope \<Rightarrow> window_row \<Rightarrow> bool" where
  "owns_window ctx c w \<longleftrightarrow> wr_organization_id w = ss_organization_id (ic_scope ctx)
     \<and> wr_cluster_id w = ss_cluster_id (ic_scope ctx) \<and> wr_agent_id w = ic_agent_id ctx
     \<and> wr_project_id w = ac_project_id c \<and> wr_application_id w = ac_application_id c"

definition in_tenant :: "ingestion_context \<Rightarrow> credential_scope \<Rightarrow> database \<Rightarrow> database \<Rightarrow> bool" where
  "in_tenant ctx c db db' \<longleftrightarrow> (\<exists>evs ws. db_events db' = db_events db @ evs \<and> db_windows db' = db_windows db @ ws
     \<and> list_all (owns_event ctx c) evs \<and> list_all (owns_window ctx c) ws)"

definition same_tenants :: "database \<Rightarrow> database \<Rightarrow> bool" where
  "same_tenants db db' \<longleftrightarrow> db_organizations db' = db_organizations db \<and> db_projects db' = db_projects db
     \<and> db_applications db' = db_applications db \<and> db_credentials db' = db_credentials db"

lemma owned_by_simps [simp]:
  "payload (owned_by c e) = payload e" "event_id (owned_by c e) = event_id e"
  "event_observed_at (owned_by c e) = event_observed_at e" "event_process (owned_by c e) = event_process e"
  "project_id (attribution (owned_by c e)) = ac_project_id c"
  "application_id (attribution (owned_by c e)) = ac_application_id c"
  by (simp_all add: owned_by_def)

lemma persist_event_adds:
  assumes "persist_event L S ids ctx (owned_by c e) db = Ok (db', n)"
  shows "in_tenant ctx c db db' \<and> same_tenants db db' \<and> n = added db db'
    \<and> event_key ` set (db_events db') \<subseteq> insert (ic_agent_id ctx, event_id e) (event_key ` set (db_events db))"
  using assms
proof (cases rule: persist_event_cases)
  case (window w)
  then show ?thesis by (auto simp: in_tenant_def same_tenants_def added_def owns_window_def new_window_def)
next
  case (duplicate rels rid)
  then show ?thesis by (auto simp: in_tenant_def same_tenants_def added_def)
next
  case (fresh rels rid p t)
  then show ?thesis
    by (auto simp: in_tenant_def same_tenants_def added_def owns_event_def) (auto simp: new_event_def)
qed

lemma in_tenant_trans:
  assumes "in_tenant ctx c a b" and "in_tenant ctx c b d"
  shows "in_tenant ctx c a d"
proof -
  from assms obtain evs ws evs' ws' where
    "db_events b = db_events a @ evs" "db_windows b = db_windows a @ ws"
    "list_all (owns_event ctx c) evs" "list_all (owns_window ctx c) ws"
    "db_events d = db_events b @ evs'" "db_windows d = db_windows b @ ws'"
    "list_all (owns_event ctx c) evs'" "list_all (owns_window ctx c) ws'"
    by (auto simp: in_tenant_def)
  then show ?thesis unfolding in_tenant_def by (intro exI [of _ "evs @ evs'"] exI [of _ "ws @ ws'"]) simp
qed

lemma in_tenant_added: "in_tenant ctx c a b \<Longrightarrow> in_tenant ctx c b d \<Longrightarrow> added a d = added a b + added b d"
  by (auto simp: in_tenant_def added_def)

text \<open>A run of the loop, by induction over the batch.\<close>

definition batch_done :: "wire_lib \<Rightarrow> ingestion_context \<Rightarrow> credential_scope \<Rightarrow> datetime option \<Rightarrow>
    (runtime_event \<times> fresh_ids) list \<Rightarrow> database \<Rightarrow> bool" where
  "batch_done L ctx c closed es db \<longleftrightarrow>
     (\<forall>x \<in> set es. expired closed (fst x) \<or> settled_event L ctx (owned_by c (fst x)) db)"

lemma keys_grow: "ks1 \<subseteq> insert k ks \<Longrightarrow> ks2 \<subseteq> ks1 \<union> new \<Longrightarrow> ks2 \<subseteq> ks \<union> insert k new"
  by blast

lemma persist_events_run:
  assumes "persist_events L S ctx c closed es (a, d) db = Ok (db', a', d')"
  shows "batch_done L ctx c closed es db' \<and> in_tenant ctx c db db' \<and> same_tenants db db'
    \<and> (a \<le> MAX_U32 \<longrightarrow> a' = min (a + added db db') MAX_U32)
    \<and> d' = d + length (filter (\<lambda>x. expired closed (fst x)) es)
    \<and> event_key ` set (db_events db') \<subseteq> event_key ` set (db_events db) \<union> (\<lambda>x. (ic_agent_id ctx, event_id (fst x))) ` set es
    \<and> (\<forall>e. settled_event L ctx e db \<longrightarrow> settled_event L ctx e db')"
  using assms
proof (induction es arbitrary: a d db)
  case Nil
  then show ?case by (auto simp: batch_done_def in_tenant_def same_tenants_def added_def)
next
  case (Cons x es)
  obtain e ids where x: "x = (e, ids)" by fastforce
  show ?case
  proof (cases "expired closed e")
    case True
    with Cons.prems x have "persist_events L S ctx c closed es (a, d + 1) db = Ok (db', a', d')" by simp
    from Cons.IH [OF this] True x show ?thesis by (simp add: batch_done_def) blast
  next
    case False
    with Cons.prems x obtain db1 n where
      e: "persist_event L S ids ctx (owned_by c e) db = Ok (db1, n)"
      and rest: "persist_events L S ctx c closed es (min (a + n) MAX_U32, d) db1 = Ok (db', a', d')"
      by (auto simp: result_laws)
    note one = persist_event_adds [OF e]
    from Cons.IH [OF rest] have IH: "batch_done L ctx c closed es db'" "in_tenant ctx c db1 db'" "same_tenants db1 db'"
        "a' = min (min (a + n) MAX_U32 + added db1 db') MAX_U32"
        "d' = d + length (filter (\<lambda>x. expired closed (fst x)) es)"
        "event_key ` set (db_events db') \<subseteq> event_key ` set (db_events db1)
           \<union> (\<lambda>x. (ic_agent_id ctx, event_id (fst x))) ` set es"
        "\<And>e. settled_event L ctx e db1 \<Longrightarrow> settled_event L ctx e db'" by auto
    have "settled_event L ctx (owned_by c e) db'" using persist_event_settles(1) [OF e] IH(7) by blast
    then have "batch_done L ctx c closed (x # es) db'" using IH(1) x by (simp add: batch_done_def)
    moreover have "\<forall>e'. settled_event L ctx e' db \<longrightarrow> settled_event L ctx e' db'"
      using persist_event_settles(2) [OF e] IH(7) by blast
    moreover have "in_tenant ctx c db db'" using one IH(2) in_tenant_trans by blast
    moreover have "added db db' = n + added db1 db'" using one in_tenant_added [OF _ IH(2)] by auto
    then have "a' = min (a + added db db') MAX_U32" using IH(4) by (simp add: min_def)
    moreover have "same_tenants db db'" using one IH(3) by (simp add: same_tenants_def)
    moreover have "event_key ` set (db_events db') \<subseteq> event_key ` set (db_events db)
        \<union> (\<lambda>x. (ic_agent_id ctx, event_id (fst x))) ` set (x # es)"
      using keys_grow [OF conjunct2 [OF conjunct2 [OF conjunct2 [OF one]]] IH(6)] x by simp
    moreover have "d' = d + length (filter (\<lambda>x. expired closed (fst x)) (x # es))" using IH(5) False x by simp
    ultimately show ?thesis by blast
  qed
qed

lemma persist_events_again:
  assumes "batch_done L ctx c closed es db" and "a \<le> MAX_U32"
  shows "\<exists>rels. persist_events L S ctx c closed es (a, d) db
    = Ok (db\<lparr>db_releases := rels\<rparr>, a, d + length (filter (\<lambda>x. expired closed (fst x)) es))"
  using assms
proof (induction es arbitrary: d db)
  case Nil
  then show ?case by (auto intro: exI [of _ "db_releases db"])
next
  case (Cons x es)
  obtain e ids where x: "x = (e, ids)" by fastforce
  show ?case
  proof (cases "expired closed e")
    case True
    from Cons.IH [of db "d + 1"] Cons.prems True x show ?thesis by (auto simp: batch_done_def)
  next
    case False
    with Cons.prems x have "settled_event L ctx (owned_by c e) db" by (auto simp: batch_done_def)
    from settled_event_again [OF this] obtain rels where
      e: "persist_event L S ids ctx (owned_by c e) db = Ok (db\<lparr>db_releases := rels\<rparr>, 0)" by blast
    have "batch_done L ctx c closed es (db\<lparr>db_releases := rels\<rparr>)"
      using Cons.prems(1) x persist_event_settles(2) [OF e] by (auto simp: batch_done_def)
    from Cons.IH [OF this Cons.prems(2), of d] obtain rels' where
      "persist_events L S ctx c closed es (a, d) (db\<lparr>db_releases := rels\<rparr>)
        = Ok (db\<lparr>db_releases := rels'\<rparr>, a, d + length (filter (\<lambda>x. expired closed (fst x)) es))" by auto
    with e False x Cons.prems(2) show ?thesis by auto
  qed
qed

text \<open>The transaction around the loop.\<close>

lemma batch_committed:
  assumes "persist_application_batch_outcome L S scope c agent es db = (db', Ok (accepted, dropped))"
  obtains closed where "ac_organization_id c = ss_organization_id scope" "is_active c db"
    "lock_project (ss_organization_id scope) (ac_project_id c) db = Ok closed"
    "persist_events L S \<lparr>ic_scope = scope, ic_agent_id = agent\<rparr> c closed es (0, 0) db = Ok (db', accepted, dropped)"
  using assms
  by (auto simp: persist_application_batch_outcome_def batch_body_def result_laws
      split: if_splits result.splits)

lemma batch_rejected:
  assumes "persist_application_batch_outcome L S scope c agent es db = (db', Err x)"
  shows "db' = db"
  using assms by (auto simp: persist_application_batch_outcome_def split: result.splits)

lemma same_tenants_lock:
  assumes "same_tenants db db'"
  shows "is_active c db' = is_active c db" "lock_project org p db' = lock_project org p db"
  using assms by (simp_all add: same_tenants_def is_active_def lock_project_def)

lemma batch_done_events:
  assumes "map fst es' = map fst es"
  shows "batch_done L ctx c closed es' db = batch_done L ctx c closed es db"
    and "length (filter (\<lambda>x. expired closed (fst x)) es') = length (filter (\<lambda>x. expired closed (fst x)) es)"
proof -
  have d: "batch_done L ctx c closed xs db
      \<longleftrightarrow> (\<forall>e \<in> set (map fst xs). expired closed e \<or> settled_event L ctx (owned_by c e) db)" for xs
    by (simp add: batch_done_def)
  show "batch_done L ctx c closed es' db = batch_done L ctx c closed es db" by (simp only: d assms)
  have n: "length (filter (\<lambda>x. expired closed (fst x)) xs) = length (filter (expired closed) (map fst xs))"
    for xs :: "(runtime_event \<times> fresh_ids) list"
    by (simp add: filter_map comp_def)
  show "length (filter (\<lambda>x. expired closed (fst x)) es') = length (filter (\<lambda>x. expired closed (fst x)) es)"
    by (simp only: n assms)
qed



section \<open>A batch that no retry gets past\<close>

lemma persist_events_split:
  assumes "persist_events L S ctx c closed (xs @ (e, ids) # ys) out db = Ok (db', out')" and "\<not> expired closed e"
  shows "\<exists>db1 out1 db2 n. persist_events L S ctx c closed xs out db = Ok (db1, out1)
    \<and> persist_event L S ids ctx (owned_by c e) db1 = Ok (db2, n)"
  using assms(1)
proof (induction xs arbitrary: out db)
  case Nil
  with assms(2) show ?case by (cases out) (auto simp: result_laws)
next
  case (Cons x xs)
  obtain e' ids' accepted dropped where x: "x = (e', ids')" "out = (accepted, dropped)" by (cases x; cases out) auto
  show ?case
  proof (cases "expired closed e'")
    case True
    with Cons x show ?thesis by simp
  next
    case False
    with Cons.prems x obtain db0 n where
      p: "persist_event L S ids' ctx (owned_by c e') db = Ok (db0, n)"
      and rest:
      "persist_events L S ctx c closed (xs @ (e, ids) # ys) (min (accepted + n) MAX_U32, dropped) db0 = Ok (db', out')"
      by (auto simp: result_laws)
    from Cons.IH [OF rest] p x False show ?thesis by simp
  qed
qed

lemma blank_command_no_fingerprint:
  assumes "payload e = NetworkConnect n" and "normalized (command (event_process e)) = []"
  shows "fingerprint_v1 S sha scope e \<noteq> Ok f"
  using assms by (auto simp: fingerprint_v1_def group_fields_def result_laws)

lemma blank_command_not_persisted:
  assumes "payload e = NetworkConnect n" and "normalized (command (event_process e)) = []"
    and "(ic_agent_id ctx, event_id e) \<notin> event_key ` set (db_events db)"
  shows "persist_event L S ids ctx (owned_by c e) db \<noteq> Ok (db', k)"
proof
  assume "persist_event L S ids ctx (owned_by c e) db = Ok (db', k)"
  then show False
  proof (cases rule: persist_event_cases)
    case (fresh rels rid p t)
    then obtain g grouping where "assign_event S (sha256 L) (fi_group ids) (fi_outbox ids) (fi_event ids) rid
        (grouping_scope_of ctx (attribution (owned_by c e))) (owned_by c e) Live (pt_groups (db_projections db)) = Ok (g, grouping)"
      by (auto simp: project_stored_def Let_def result_laws split: prod.splits)
    then show ?thesis using blank_command_no_fingerprint [of "owned_by c e" n] assms
      by (auto simp: assign_event_def result_laws)
  qed (use assms in \<open>auto simp: is_stored_def\<close>)
qed

text \<open>C40: one connection attempt of a process whose command is blank makes the whole batch fail. Its
  fingerprint requires a command, so the transaction is rolled back and nothing of the batch is stored,
  and since the database is as before, every later attempt with the same batch fails too.\<close>
theorem blank_command_rejects_batch:
  assumes "(e, ids) \<in> set es" and "payload e = NetworkConnect n"
    and "normalized (command (event_process e)) = []"
    and "\<And>closed. lock_project (ss_organization_id scope) (ac_project_id c) db = Ok closed \<Longrightarrow> \<not> expired closed e"
    and "(agent, event_id e) \<notin> event_key ` set (db_events db)" and "distinct (map (event_id \<circ> fst) es)"
  shows "\<exists>x. persist_application_batch_outcome L S scope c agent es db = (db, Err x)"
proof (cases "persist_application_batch_outcome L S scope c agent es db")
  case (Pair db' r)
  let ?ctx = "\<lparr>ic_scope = scope, ic_agent_id = agent\<rparr>"
  show ?thesis
  proof (cases r)
    case (Err x)
    with Pair batch_rejected show ?thesis by blast
  next
    case (Ok out)
    obtain accepted dropped where "out = (accepted, dropped)" by fastforce
    with Pair Ok obtain closed where
      lock: "lock_project (ss_organization_id scope) (ac_project_id c) db = Ok closed"
      and run: "persist_events L S ?ctx c closed es (0, 0) db = Ok (db', accepted, dropped)"
      using batch_committed [of L S scope c agent es db db' accepted dropped] by auto
    from assms(1) obtain xs ys where es: "es = xs @ (e, ids) # ys" by (meson split_list)
    from persist_events_split [OF run [unfolded es] assms(4) [OF lock]] obtain db1 a1 d1 db2 k where
      before: "persist_events L S ?ctx c closed xs (0, 0) db = Ok (db1, a1, d1)"
      and at: "persist_event L S ids ?ctx (owned_by c e) db1 = Ok (db2, k)" by auto
    have "(agent, event_id e) \<notin> (\<lambda>x. (agent, event_id (fst x))) ` set xs" using assms(6) es by auto
    moreover have "event_key ` set (db_events db1)
        \<subseteq> event_key ` set (db_events db) \<union> (\<lambda>x. (agent, event_id (fst x))) ` set xs"
      using persist_events_run [OF before] by simp
    ultimately have "(agent, event_id e) \<notin> event_key ` set (db_events db1)" using assms(5) by blast
    with at blank_command_not_persisted [OF assms(2,3), of ?ctx] show ?thesis by simp
  qed
qed

section \<open>What is stored\<close>

text \<open>With digests of 32 bytes, the projections of an event that has its fingerprints are defined: the
  policy evaluation finds the item that the inventory projection has just counted.\<close>

lemma evaluation_defined:
  assumes "inventory_ok i" and "r \<in> set (items i)" and "it_key r = item_key_of (scope_of org e) h"
    and "length (if_digest h) = 32"
  shows "\<exists>p'. project_current_evaluation org cluster gid (it_id r) e i p = Ok p'"
proof -
  have "distinct (map it_id (items i))" using assms(1) by (simp add: inventory_ok_def items_ok_def)
  then have same: "x = r" if "x \<in> set (items i)" "it_id x = it_id r" for x
    using that assms(2) by (auto simp: distinct_map dest: inj_onD)
  let ?P = "\<lambda>x. it_id x = it_id r \<and> ik_scope (it_key x) = scope_of org e"
  have "find ?P (items i) = Some r"
  proof (cases "find ?P (items i)")
    case None
    with assms(2,3) show ?thesis by (auto simp: find_None_iff item_key_of_def)
  next
    case (Some x)
    then have "x \<in> set (items i)" "it_id x = it_id r" by (auto simp: find_Some_iff)
    with same Some show ?thesis by simp
  qed
  then show ?thesis
    using assms(3,4) by (simp add: project_current_evaluation_def evaluate_item_def identity_key_def policy_scope_of_def
        scope_of_def item_key_of_def Let_def)
qed

lemma project_stored_defined:
  assumes "projections_ok t" and "fingerprint_v1 S (sha256 L) (grouping_scope_of ctx (attribution e)) e = Ok f"
    and h: "inventory_fingerprint_of S (sha256 L) (scope_of (ss_organization_id (ic_scope ctx)) e) e = Ok h"
    and "length (if_digest h) = 32"
    and raw: "fi_event ids \<notin> im_event_id ` set (item_memberships (pt_inventory t))"
    and cand: "fi_item ids \<notin> it_id ` set (items (pt_inventory t))"
    and "\<And>r. payload e \<noteq> ContainerRestart r"
  shows "\<exists>p' t'. project_stored L S ids ctx rid e evs (p, t) = Ok (p', t')"
proof -
  let ?org = "ss_organization_id (ic_scope ctx)" and ?cluster = "ss_cluster_id (ic_scope ctx)"
  obtain g out where a: "assign_event S (sha256 L) (fi_group ids) (fi_outbox ids) (fi_event ids) rid
      (grouping_scope_of ctx (attribution e)) e Live (pt_groups t) = Ok (g, out)"
    using assign_event_defined [OF assms(2)] by blast
  have ok: "inventory_ok (pt_inventory t)" using assms(1) by (simp add: projections_ok_def)
  have new: "(fi_event ids, unat (if_version h)) \<notin> member_key ` set (item_memberships (pt_inventory t))"
    using raw by (auto simp: member_key_def)
  obtain i inv_out r where i: "project_event S (sha256 L) (fi_item ids) (fi_event ids) (go_group_id out) rid ?cluster
      ?org e (pt_inventory t) = Ok (i, inv_out)" "inventory_ok i" "r \<in> set (items i)"
      "it_key r = item_key_of (scope_of ?org e) h" "it_id r = po_item_id inv_out"
    by (rule projected [OF ok h new cand])
  obtain p' where p: "project_current_evaluation ?org ?cluster (go_group_id out) (po_item_id inv_out) e i p = Ok p'"
    using evaluation_defined [OF i(2-4) assms(4)] i(5) by metis
  obtain t' where "project_durable_evidence L S (fi_loop_group ids) (fi_loop_outbox ids) (fi_event ids) ?org ?cluster e evs
      (t\<lparr>pt_groups := g, pt_inventory := i\<rparr>) = Ok t'"
    using assms(7) by (cases "payload e") (auto simp: project_durable_evidence_def)
  then show ?thesis using a i(1) p by (simp add: project_stored_def Let_def)
qed

lemma persist_event_accepts:
  assumes "database_ok db" and "set (ids_of ids) \<inter> taken_ids db = {}"
    and "passes_checks ctx e db" and "\<not> is_stored ctx e db" and "window_of (payload e) = None"
    and "\<And>r. payload e \<noteq> ContainerRestart r"
    and "resolve_release L (fi_release ids) (ss_organization_id (ic_scope ctx)) e (db_releases db) = Ok (rels, rid)"
    and "fingerprint_v1 S (sha256 L) (grouping_scope_of ctx (attribution e)) e = Ok f"
    and "inventory_fingerprint_of S (sha256 L) (scope_of (ss_organization_id (ic_scope ctx)) e) e = Ok h"
    and "length (if_digest h) = 32"
  shows "\<exists>db'. persist_event L S ids ctx e db = Ok (db', 1)"
proof -
  have t: "projections_ok (db_projections db)"
    "fi_event ids \<notin> im_event_id ` set (item_memberships (pt_inventory (db_projections db)))"
    "fi_item ids \<notin> it_id ` set (items (pt_inventory (db_projections db)))"
    using assms(1,2) by (auto simp: database_ok_def Let_def taken_ids_def used_ids_def ids_of_def)
  obtain p' t' where "project_stored L S ids ctx rid e (db_events db @ [new_event ctx (fi_event ids) rid e])
      (db_policies db, db_projections db) = Ok (p', t')"
    using project_stored_defined [OF t(1) assms(8,9,10) t(2,3) assms(6)] by blast
  with assms(4,7) persist_event_plain [OF assms(5,3)] show ?thesis by simp
qed

section \<open>A concrete batch\<close>

definition sample_credential :: credential_scope where
  "sample_credential = \<lparr>ac_credential_id = 2, ac_organization_id = 1, ac_project_id = 7, ac_application_id = 8\<rparr>"

definition sample_session :: session_scope where
  "sample_session = \<lparr>ss_organization_id = 1, ss_cluster_id = 2\<rparr>"

definition sample_database :: database where
  "sample_database = \<lparr>db_organizations = [\<lparr>org_id = 1, org_retention_enabled = True, org_retention_raw_days = 1,
       org_retention_history_days = None\<rparr>],
     db_projects = [\<lparr>pr_organization_id = 1, pr_id = 7, pr_retention = None, pr_closed_before = Some 4,
       pr_history_expired_before = None\<rparr>],
     db_applications = [(1, 7, 8)], db_credentials = [\<lparr>cr_scope = sample_credential, cr_revoked_at = None\<rparr>],
     db_releases = [], db_events = [], db_windows = [],
     db_policies = \<lparr>policies = [], revisions = [], state_versions = [], group_evaluations = [], sighting_evaluations = [],
       commands = [], recomputations = [], suppressions = []\<rparr>,
     db_projections = \<lparr>pt_groups = no_groups, pt_inventory = no_items,
       pt_terminations = \<lparr>outcomes = [], correlations = [], restarts = [], restart_loops = []\<rparr>\<rparr>, db_deliveries = []\<rparr>"

definition sample_ids :: fresh_ids where
  "sample_ids = \<lparr>fi_release = 10, fi_event = 11, fi_group = 12, fi_outbox = 13, fi_item = 14, fi_loop_group = 15,
     fi_loop_outbox = 16\<rparr>"

definition sample_lib :: wire_lib where
  "sample_lib = \<lparr>uuid_to_string = (\<lambda>_. ''u''), uuid_parse_str = (\<lambda>_. None), from_timestamp = (\<lambda>s n. Some s),
     timestamp_nanos_opt = (\<lambda>_. None), sha256 = (\<lambda>_. replicate 32 7)\<rparr>"

definition sample_batch :: "(runtime_event \<times> fresh_ids) list" where
  "sample_batch = [(listen_event, sample_ids),
     (listen_event\<lparr>event_id := 9, event_observed_at := 3\<rparr>,
      sample_ids\<lparr>fi_event := 21, fi_group := 22, fi_item := 24, fi_loop_group := 25\<rparr>)]"

lemma sample_database_ok: "database_ok sample_database" "taken_ids sample_database = {}"
  using no_items_ok no_groups_ok
  by (simp_all add: database_ok_def taken_ids_def used_ids_def sample_database_def projections_ok_def)
    (simp_all add: no_groups_def no_items_def)

lemma sample_owned: "owned_by sample_credential listen_event = listen_event"
  by (simp add: owned_by_def sample_credential_def listen_event_def endpoint_event_def)

lemma sample_event_accepted:
  "\<exists>db'. persist_event sample_lib plain_serde sample_ids \<lparr>ic_scope = sample_session, ic_agent_id = 4\<rparr> listen_event
     sample_database = Ok (db', 1)"
proof -
  let ?ctx = "\<lparr>ic_scope = sample_session, ic_agent_id = 4 :: uuid\<rparr>"
  obtain fs j where "group_fields plain_serde (grouping_scope_of ?ctx (attribution listen_event)) listen_event = Ok (fs, j)"
    by (simp add: group_fields_def grouping_scope_of_def sample_fingerprint_defs)
  then obtain f where f: "fingerprint_v1 plain_serde (sha256 sample_lib)
      (grouping_scope_of ?ctx (attribution listen_event)) listen_event = Ok f"
    by (simp add: fingerprint_v1_def)
  obtain fs k j where "inventory_fields plain_serde CURRENT_INVENTORY_IDENTITY_VERSION
      (scope_of (ss_organization_id (ic_scope ?ctx)) listen_event) listen_event = Ok (fs, k, j)"
    by (simp add: inventory_fields_def inbound_endpoint_fingerprint_def sample_fingerprint_defs)
  then obtain h where h: "inventory_fingerprint_of plain_serde (sha256 sample_lib)
      (scope_of (ss_organization_id (ic_scope ?ctx)) listen_event) listen_event = Ok h" "length (if_digest h) = 32"
    by (simp add: inventory_fingerprint_of_def fingerprint_with_version_def sample_lib_def)
  show ?thesis
    by (rule persist_event_accepts [OF sample_database_ok(1) _ _ _ _ _ _ f h], simp add: sample_database_ok(2))
      (simp_all add: passes_checks_def validate_dns_event_def validate_termination_event_def
        listen_event_def endpoint_event_def EVENT_SCHEMA_VERSION_def sample_session_def sample_database_def
        fits_i64_def MAX_I64_def is_stored_def resolve_release_def resolve_observed_release_def)
qed

lemma sample_batch_committed:
  "\<exists>db'. persist_application_batch_outcome sample_lib plain_serde sample_session sample_credential 4 sample_batch
     sample_database = (db', Ok (1, 1))"
proof -
  have "lock_project (ss_organization_id sample_session) (ac_project_id sample_credential) sample_database = Ok (Some 4)"
    "is_active sample_credential sample_database"
    by (simp_all add: lock_project_def sample_session_def sample_credential_def sample_database_def is_active_def)
  moreover have "ac_organization_id sample_credential = ss_organization_id sample_session"
    by (simp add: sample_session_def sample_credential_def)
  moreover have "\<not> expired (Some 4) listen_event" "expired (Some 4) (listen_event\<lparr>event_id := 9, event_observed_at := 3\<rparr>)"
    by (simp_all add: expired_def listen_event_def endpoint_event_def)
  ultimately show ?thesis
    using sample_event_accepted
    by (auto simp: persist_application_batch_outcome_def batch_body_def sample_batch_def sample_owned MAX_U32_def)
qed

lemma sample_batch_fresh: "fresh_batch sample_batch sample_database"
  by (simp add: fresh_batch_def sample_batch_def sample_ids_def ids_of_def sample_database_ok(2))



definition blank_event :: runtime_event where
  "blank_event = endpoint_event [] (NetworkConnect \<lparr>address_family = Ipv4, destination_address = V4 1,
     destination_port = 443, outcome = Succeeded, errno = None, dns_context_of = None\<rparr>)"

theorem blank_command_rejects_batch_witness:
  "\<exists>x. persist_application_batch_outcome sample_lib plain_serde sample_session sample_credential 4
     [(listen_event\<lparr>event_id := 2\<rparr>, sample_ids), (blank_event, sample_ids)] sample_database = (sample_database, Err x)"
proof -
  have lock: "lock_project (ss_organization_id sample_session) (ac_project_id sample_credential) sample_database = Ok (Some 4)"
    by (simp add: lock_project_def sample_session_def sample_credential_def sample_database_def)
  show ?thesis
  proof (rule blank_command_rejects_batch [where e = blank_event and ids = sample_ids])
    show "normalized (command (event_process blank_event)) = []"
      by (simp add: blank_event_def endpoint_event_def)
    show "\<not> expired closed blank_event" if "lock_project (ss_organization_id sample_session)
        (ac_project_id sample_credential) sample_database = Ok closed" for closed
      using that lock by (auto simp: expired_def blank_event_def endpoint_event_def)
  qed (simp_all add: blank_event_def endpoint_event_def listen_event_def sample_database_def)
qed

end
