(* ===== verification/Retention_Laws.thy ===== *)
theory Retention_Laws
  imports Retention_Counts Ingestion_Laws
begin

text \<open>
  What retention guarantees: a run keeps the database consistent, deletes nothing but closed events,
  keeps every occurrence count when history is unlimited, and empties the backlog in finitely many
  runs.
\<close>

section \<open>Compaction\<close>

lemma database_stored:
  assumes "database_ok db"
  shows "stored_members (db_events db) (pt_groups (db_projections db))"
    and "stored_items (db_events db) (pt_inventory (db_projections db))"
    and "groups_ok (pt_groups (db_projections db))" and "inventory_ok (pt_inventory (db_projections db))"
  using assms by (auto simp: database_ok_def Let_def stored_members_def stored_items_def projections_ok_def)

lemma image_deleted:
  "f ` {x \<in> set (delete_where (\<lambda>x. f x \<in> D) xs). P x} = f ` {x \<in> set xs. P x} - D"
  "f ` set (delete_where (\<lambda>x. f x \<in> D) xs) = f ` set xs - D"
  by auto

lemma compact_ok:
  fixes draw ids expired_before db
  assumes ok: "database_ok db"
  defines "db' \<equiv> compact draw ids expired_before db"
  shows "database_ok db'" and "used_ids (db_projections db') = used_ids (db_projections db)"
proof -
  have "database_ok db' \<and> used_ids (db_projections db') = used_ids (db_projections db)"
  proof (cases "ids = []")
    case True
    with ok show ?thesis by (simp add: db'_def compact_def)
  next
    case False
    let ?evs = "delete_where (\<lambda>e. er_id e \<in> set ids) (db_events db)"
    let ?t = "db_projections db" and ?t' = "db_projections db'"
    let ?i = "(pt_inventory ?t)\<lparr>item_memberships := delete_where (\<lambda>m. im_event_id m \<in> set ids) (item_memberships (pt_inventory ?t))\<rparr>"
    note stored = database_stored [OF ok]
    note tab = compact_tables [OF False, of draw expired_before db, folded db'_def]
    note g = compacted_groups_ok [OF stored(3,1), where draw = draw and ids = ids and expired_before = expired_before, folded tab(1)]
    have "stored_items ?evs ?i" using stored(2) by (auto simp: stored_items_def distinct_delete_where)
    note i = recount_inventory_ok [OF delete_item_events_ok [OF stored(4), of ids] this subset_refl,
        where p = "db_policies db" and ms = "memberships (pt_groups ?t')", folded tab(2), unfolded snd_conv]
    have im: "item_memberships (pt_inventory ?t') = delete_where (\<lambda>m. im_event_id m \<in> set ids) (item_memberships (pt_inventory ?t))"
      using i by simp
    have "m_event_id ` {m \<in> set (memberships (pt_groups ?t')). m_version m = 1} = er_id ` set ?evs"
      "m_event_id ` set (memberships (pt_groups ?t')) \<subseteq> er_id ` set ?evs"
      "im_event_id ` set (item_memberships (pt_inventory ?t')) = er_id ` set ?evs"
      using ok unfolding g(2) im image_deleted database_ok_def Let_def by auto
    moreover have "used_ids ?t' = used_ids ?t"
      using i arg_cong [OF g(4), of set] by (simp add: used_ids_def)
    ultimately show ?thesis
      using ok g(1) i by (simp add: database_ok_def Let_def projections_ok_def tab(3) distinct_delete_where)
  qed
  then show "database_ok db'" "used_ids (db_projections db') = used_ids (db_projections db)" by simp_all
qed

section \<open>Expiry\<close>

lemma expire_snapshots_ok:
  assumes ok: "groups_ok t" and run: "expire_snapshots proj expired_before limit t = (u, gids)"
  shows "groups_ok_but (set gids) u"
    and "groups u = groups t" "memberships u = memberships t" "outbox u = outbox t"
    and "expired_before = None \<Longrightarrow> u = t \<and> gids = []"
proof -
  obtain gone where u: "u = t\<lparr>snapshots := delete_where gone (snapshots t)\<rparr>"
    and gids: "gids = map sn_group_id (filter gone (snapshots t))"
    using run by (auto simp: expire_snapshots_def Let_def)
  have kept: "filter P (delete_where gone (snapshots t)) = filter P (snapshots t)"
    if "\<And>s. P s \<Longrightarrow> sn_group_id s \<notin> set gids" for P
    using that unfolding delete_where_def gids by (auto intro!: filter_cong)
  have "archived gid u = archived gid t" "archived_release rel gid u = archived_release rel gid t" if "gid \<notin> set gids" for gid rel
    using that kept [of "\<lambda>s. sn_group_id s = gid"] kept [of "\<lambda>s. sn_release_id s = Some rel \<and> sn_group_id s = gid"]
    by (simp_all add: u archived_def archived_release_def tally_def)
  then have "occurrences gid u = occurrences gid t" "archived_release rel gid u = archived_release rel gid t" if "gid \<notin> set gids" for gid rel
    using that by (simp_all add: occurrences_def members_of_def u)
  moreover have "members_ok u = members_ok t" "release_count rel gid u = release_count rel gid t"
    "release_members_of rel gid u = release_members_of rel gid t" "announced u = announced t" for rel gid
    by (simp_all add: u members_ok_def release_count_def release_members_of_def announced_def)
  moreover have "history_ok u" using ok by (auto simp: u groups_ok_def history_ok_def distinct_delete_where)
  ultimately show "groups_ok_but (set gids) u"
    using ok unfolding groups_ok_but_def groups_ok_def by (simp add: u) metis
  show "groups u = groups t" "memberships u = memberships t" "outbox u = outbox t" by (simp_all add: u)
  show "u = t \<and> gids = []" if "expired_before = None"
    using run that by (auto simp: expire_snapshots_def delete_where_def)
qed

lemma expire_ok:
  assumes ok: "database_ok db" and run: "expire proj expired_before limit db = (db', n)"
  shows "database_ok db'" and "used_ids (db_projections db') = used_ids (db_projections db)"
    and "db_events db' = db_events db" "db_projects db' = db_projects db" "db_policies db' = db_policies db"
      "pt_inventory (db_projections db') = pt_inventory (db_projections db)"
proof -
  let ?t = "db_projections db"
  obtain g1 gids where snap: "expire_snapshots proj expired_before limit (pt_groups ?t) = (g1, gids)" by fastforce
  obtain ws windows where ws: "expire_thread_windows proj (closed_before proj db) limit (db_windows db) = (ws, windows)" by fastforce
  let ?g = "recount_groups gids (db_events db) g1"
  have db': "db' = db\<lparr>db_projections := ?t\<lparr>pt_groups := ?g,
      pt_terminations := expire_restart_loop_projections proj (closed_before proj db) limit (pt_terminations ?t)\<rparr>, db_windows := ws\<rparr>"
    using run by (simp add: expire_def snap ws Let_def)
  note stored = database_stored [OF ok]
  note e = expire_snapshots_ok [OF stored(3) snap]
  have "stored_members (db_events db) g1" using stored(1) by (simp add: stored_members_def e)
  note g = recount_groups_ok [OF e(1) subset_refl this]
  have "map g_id (groups ?g) = map g_id (groups (pt_groups ?t))" "memberships ?g = memberships (pt_groups ?t)"
    using g(2) by (simp_all add: same_shape_def e)
  with g(1) ok show "database_ok db'" by (simp add: database_ok_def Let_def projections_ok_def db')
  show "used_ids (db_projections db') = used_ids ?t"
    using arg_cong [OF \<open>map g_id (groups ?g) = _\<close>, of set] by (simp add: used_ids_def db')
  show "db_events db' = db_events db" "db_projects db' = db_projects db" "db_policies db' = db_policies db"
      "pt_inventory (db_projections db') = pt_inventory (db_projections db)" by (simp_all add: db')
qed

section \<open>What has become empty\<close>

lemma announced_delete: "announced (t\<lparr>outbox := delete_where Q (outbox t)\<rparr>) \<subseteq># announced t"
proof -
  have "filter_mset (\<lambda>r. \<not> Q r \<and> F r) M \<subseteq># filter_mset F M" for F M
    using multiset_filter_subset [of "\<lambda>r. \<not> Q r" "filter_mset F M"] by (simp add: filter_filter_mset conj_commute)
  then show ?thesis by (simp add: announced_def delete_where_def image_mset_subseteq_mono)
qed

lemma tally_delete_key:
  "tally key cnt (\<lambda>k. f k = i) (delete_where (\<lambda>r. q (f (key r))) rs) = (if q i then 0 else tally key cnt (\<lambda>k. f k = i) rs)"
  by (induction rs) auto

lemma delete_outbox_ok:
  fixes proj limit delivered t
  assumes "groups_ok t"
  defines "t' \<equiv> delete_empty_group_outbox proj limit delivered t"
  shows "groups_ok t'" and "groups t' = groups t" "memberships t' = memberships t" "snapshots t' = snapshots t"
proof -
  obtain Q where t': "t' = t\<lparr>outbox := delete_where Q (outbox t)\<rparr>" by (auto simp: t'_def delete_empty_group_outbox_def Let_def)
  show "groups t' = groups t" "memberships t' = memberships t" "snapshots t' = snapshots t" by (simp_all add: t')
  have "announced t' \<subseteq># mset (map g_id (groups t))"
    using assms(1) announced_delete [where t = t and Q = Q] unfolding t' groups_ok_def by (auto intro: subset_mset.order_trans)
  then show "groups_ok t'"
    using assms(1) by (simp add: groups_ok_def t' members_ok_def history_ok_def occurrences_def members_of_def archived_def
        release_count_def release_members_of_def archived_release_def)
qed

lemma delete_where_none: "(\<And>x. x \<in> set xs \<Longrightarrow> \<not> Q x) \<Longrightarrow> delete_where Q xs = xs"
  by (simp add: delete_where_def)

lemma delete_empty_items_ok:
  assumes ok: "inventory_ok t" and run: "delete_empty_items proj limit (p, t) = (p', t')"
  shows "inventory_ok t'" and "item_memberships t' = item_memberships t" and "set (items t') \<subseteq> set (items t)"
proof -
  define old where "old = map it_id (take limit (filter (\<lambda>r. is_project_id (ik_scope (it_key r)) = proj \<and> it_occurrence_count r = 0
                 \<and> \<not> (\<exists>v \<in> set (revisions p). rv_source_item v = Some (it_id r))
                 \<and> \<not> (\<exists>v \<in> set (suppressions p). su_source_item v = Some (it_id r))) (items t)))"
  have t': "t' = t\<lparr>items := delete_where (\<lambda>r. it_id r \<in> set old) (items t),
           item_memberships := delete_where (\<lambda>m. im_item_id m \<in> set old) (item_memberships t),
           item_releases := delete_where (\<lambda>r. ir_item_id r \<in> set old) (item_releases t),
           sightings := delete_where (\<lambda>r. sk_item_id (sg_key r) \<in> set old) (sightings t),
           group_links := delete_where (\<lambda>l. gl_item_id l \<in> set old) (group_links t)\<rparr>"
    using run [unfolded delete_empty_items_def prod.case Let_def, folded old_def, symmetric] by simp
  have empty: "events_of iid t = 0" if "iid \<in> set old" for iid
  proof -
    from that obtain r where "r \<in> set (items t)" "it_id r = iid" "it_occurrence_count r = 0"
      by (auto simp: old_def dest!: in_set_takeD)
    then show ?thesis using ok by (auto simp: inventory_ok_def items_ok_def)
  qed
  have members: "delete_where (\<lambda>m. im_item_id m \<in> set old) (item_memberships t) = item_memberships t"
    using empty by (intro delete_where_none) (force simp: events_of_def filter_empty_conv)
  show "item_memberships t' = item_memberships t" "set (items t') \<subseteq> set (items t)" by (auto simp: t' members)
  have events: "events_of iid t' = events_of iid t" for iid by (simp add: events_of_def t' members)
  have "sighted iid t' = (if iid \<in> set old then 0 else sighted iid t)" for iid
    using tally_delete_key [of sg_key sg_occurrence_count sk_item_id iid "\<lambda>i. i \<in> set old" "sightings t"] by (simp add: sighted_def t')
  moreover have "released iid t' \<le> events_of iid t" for iid
    using tally_delete_key [of item_release_key ir_occurrence_count fst iid "\<lambda>i. i \<in> set old" "item_releases t"] ok
    by (simp add: released_def t' item_release_key_def inventory_ok_def rollups_ok_def)
  moreover have "sighting.counted (sightings t')" "item_release.counted (item_releases t')"
    using ok by (simp_all add: t' sighting.counted_delete item_release.counted_delete inventory_ok_def rollups_ok_def)
  moreover have "it_id r \<notin> set old" if "r \<in> set (items t)" "m \<in> set (item_memberships t)" "im_item_id m = it_id r" for r m
    using that empty [of "it_id r"] by (auto simp: events_of_def filter_empty_conv)
  ultimately show "inventory_ok t'"
    using ok empty unfolding inventory_ok_def items_ok_def rollups_ok_def events
    by (auto simp: t' members distinct_delete_where distinct_delete_where [of id, simplified])
qed

text \<open>Dropping groups that no event, snapshot or message belongs to.\<close>

definition drop_groups :: "uuid list \<Rightarrow> group_tables \<Rightarrow> group_tables" where
  "drop_groups old g = g\<lparr>groups := delete_where (\<lambda>r. g_id r \<in> set old) (groups g),
     memberships := delete_where (\<lambda>m. m_group_id m \<in> set old) (memberships g),
     group_releases := delete_where (\<lambda>r. gr_group_id r \<in> set old) (group_releases g),
     snapshots := delete_where (\<lambda>s. sn_group_id s \<in> set old) (snapshots g)\<rparr>"

lemma drop_groups_rows:
  assumes ok: "groups_ok g" and empty: "\<forall>gid \<in> set old. occurrences gid g = 0"
  shows "m \<in> set (memberships g) \<Longrightarrow> m_group_id m \<notin> set old" and "s \<in> set (snapshots g) \<Longrightarrow> sn_group_id s \<notin> set old"
    and "memberships (drop_groups old g) = memberships g" and "snapshots (drop_groups old g) = snapshots g"
proof -
  have m: "m_group_id m \<notin> set old" if "m \<in> set (memberships g)" for m
    using that empty by (force simp: occurrences_def members_of_def filter_empty_conv)
  have s: "sn_group_id s \<notin> set old" if s: "s \<in> set (snapshots g)" for s
  proof
    assume old: "sn_group_id s \<in> set old"
    have "sn_occurrence_count s \<le> archived (sn_group_id s) g"
      unfolding archived_def tally_def using s by (intro member_le_sum_list) auto
    with empty old s ok show False by (auto simp: occurrences_def groups_ok_def history_ok_def)
  qed
  show "m \<in> set (memberships g) \<Longrightarrow> m_group_id m \<notin> set old" "s \<in> set (snapshots g) \<Longrightarrow> sn_group_id s \<notin> set old"
    using m s by blast+
  show "memberships (drop_groups old g) = memberships g" "snapshots (drop_groups old g) = snapshots g"
    using m s by (simp_all add: drop_groups_def delete_where_none)
qed

lemma drop_groups_ok:
  assumes ok: "groups_ok g" and empty: "\<forall>gid \<in> set old. occurrences gid g = 0"
    and silent: "\<And>b. b \<in> set (outbox g) \<Longrightarrow> ob_aggregate_id b \<notin> set old"
  shows "groups_ok (drop_groups old g)"
proof -
  let ?g' = "drop_groups old g"
  note rows = drop_groups_rows [OF ok empty]
  have g': "groups ?g' = delete_where (\<lambda>r. g_id r \<in> set old) (groups g)"
    "group_releases ?g' = delete_where (\<lambda>r. gr_group_id r \<in> set old) (group_releases g)" "outbox ?g' = outbox g"
    by (simp_all add: drop_groups_def)
  have ids: "g_id ` set (groups ?g') = g_id ` set (groups g) - set old" unfolding g' by (rule image_deleted)
  have counts: "occurrences gid ?g' = occurrences gid g" "release_members_of rel gid ?g' = release_members_of rel gid g"
    "archived_release rel gid ?g' = archived_release rel gid g" "announced ?g' = announced g" for rel gid
    by (simp_all add: occurrences_def members_of_def archived_def release_members_of_def archived_release_def announced_def rows g')
  have "m_group_id m \<in> g_id ` set (groups ?g')" if "m \<in> set (memberships g)" for m
    using that ok rows(1) [OF that] unfolding ids groups_ok_def members_ok_def by blast
  moreover have "sn_group_id s \<in> g_id ` set (groups ?g')" if "s \<in> set (snapshots g)" for s
    using that ok rows(2) [OF that] unfolding ids groups_ok_def history_ok_def by blast
  ultimately have "members_ok ?g'" "history_ok ?g'"
    using ok unfolding members_ok_def history_ok_def groups_ok_def rows(3,4) by (simp_all add: g'(1) distinct_delete_where del: delete_where_simps(3))
  moreover have "release_count rel gid ?g' = release_members_of rel gid g + archived_release rel gid g" for rel gid
  proof -
    have "release_count rel gid ?g' = (if gid \<in> set old then 0 else release_count rel gid g)"
      using tally_delete_key [of release_key gr_occurrence_count "\<lambda>k. k" "(rel, gid)" "\<lambda>k. snd k \<in> set old" "group_releases g"]
      by (simp add: release_count_def g' release_key_def)
    moreover have "release_members_of rel gid g = 0" "archived_release rel gid g = 0" if "gid \<in> set old"
      using that rows(1,2) by (auto simp: release_members_of_def archived_release_def tally_def filter_empty_conv)
    ultimately show ?thesis using ok by (simp add: groups_ok_def)
  qed
  moreover have "announced g \<subseteq># mset (map g_id (groups ?g'))"
  proof -
    have "\<forall>x \<in># announced g. x \<notin> set old" using silent by (auto simp: announced_def)
    then have "filter_mset (\<lambda>x. x \<notin> set old) (announced g) = announced g" by (simp add: filter_mset_eq_conv)
    then have "announced g = filter_mset (\<lambda>x. x \<notin> set old) (announced g)" by (rule sym)
    also have "\<dots> \<subseteq># filter_mset (\<lambda>x. x \<notin> set old) (mset (map g_id (groups g)))"
      using ok by (intro multiset_filter_mono) (simp add: groups_ok_def)
    also have "\<dots> = mset (map g_id (groups ?g'))" unfolding g' by (simp add: delete_where_def filter_mset_image_mset)
    finally show ?thesis .
  qed
  moreover have "releases.counted (group_releases ?g')" using ok by (simp add: g' releases.counted_delete groups_ok_def)
  ultimately show ?thesis using ok unfolding groups_ok_def counts by (auto simp: g')
qed

lemma delete_empty_groups_ok:
  assumes ok: "groups_ok (pt_groups t)" and inv: "inventory_ok (pt_inventory t)"
    and run: "delete_empty_groups proj limit (p, t) = (p', t')"
  shows "groups_ok (pt_groups t')" "inventory_ok (pt_inventory t')"
    and "memberships (pt_groups t') = memberships (pt_groups t)" "snapshots (pt_groups t') = snapshots (pt_groups t)"
    and "item_memberships (pt_inventory t') = item_memberships (pt_inventory t)" "items (pt_inventory t') = items (pt_inventory t)"
    and "set (groups (pt_groups t')) \<subseteq> set (groups (pt_groups t))"
    and "r \<in> set (groups (pt_groups t)) \<Longrightarrow> 0 < g_occurrence_count r \<Longrightarrow> r \<in> set (groups (pt_groups t'))"
proof -
  let ?g = "pt_groups t"
  define old where "old = map g_id (take limit (filter (\<lambda>r. gk_project_id (g_key r) = proj \<and> g_occurrence_count r = 0
                 \<and> \<not> (\<exists>v \<in> set (revisions p). rv_source_group v = Some (g_id r))
                 \<and> \<not> (\<exists>v \<in> set (suppressions p). su_source_group v = Some (g_id r))
                 \<and> \<not> (\<exists>b \<in> set (outbox ?g). ob_aggregate_id b = g_id r)) (groups ?g)))"
  have t': "pt_groups t' = drop_groups old ?g"
    "pt_inventory t' = (pt_inventory t)\<lparr>group_links := delete_where (\<lambda>l. gl_group_id l \<in> set old) (group_links (pt_inventory t))\<rparr>"
    using run [unfolded delete_empty_groups_def prod.case Let_def, folded old_def drop_groups_def, symmetric] by simp_all
  have row: "\<exists>r \<in> set (groups ?g). g_id r = gid \<and> g_occurrence_count r = 0 \<and> (\<forall>b \<in> set (outbox ?g). ob_aggregate_id b \<noteq> gid)"
    if "gid \<in> set old" for gid
    using that by (auto simp: old_def dest!: in_set_takeD)
  have empty: "\<forall>gid \<in> set old. occurrences gid ?g = 0"
    using row ok by (fastforce simp: groups_ok_def)
  show "groups_ok (pt_groups t')" unfolding t' using ok empty row by (intro drop_groups_ok) blast+
  show "memberships (pt_groups t') = memberships ?g" "snapshots (pt_groups t') = snapshots ?g"
    unfolding t' using drop_groups_rows(3,4) [OF ok empty] by blast+
  show "inventory_ok (pt_inventory t')"
    using inv distinct_delete_where [of id "group_links (pt_inventory t)"]
    by (auto simp: t' inventory_ok_def items_ok_def rollups_ok_def events_of_def sighted_def released_def)
  show "r \<in> set (groups (pt_groups t'))" if r: "r \<in> set (groups ?g)" "0 < g_occurrence_count r"
    using empty r ok by (force simp: t' drop_groups_def groups_ok_def)
  show "item_memberships (pt_inventory t') = item_memberships (pt_inventory t)" "items (pt_inventory t') = items (pt_inventory t)"
    "set (groups (pt_groups t')) \<subseteq> set (groups (pt_groups t))" by (auto simp: t' drop_groups_def)
qed

lemma cleanup_empty_ok:
  fixes proj limit db
  assumes ok: "database_ok db"
  defines "db' \<equiv> cleanup_empty proj limit db"
  shows "database_ok db'" and "used_ids (db_projections db') \<subseteq> used_ids (db_projections db)"
    and "db_events db' = db_events db" "db_projects db' = db_projects db"
    and "memberships (pt_groups (db_projections db')) = memberships (pt_groups (db_projections db))"
      "snapshots (pt_groups (db_projections db')) = snapshots (pt_groups (db_projections db))"
    and "r \<in> set (groups (pt_groups (db_projections db))) \<Longrightarrow> 0 < g_occurrence_count r \<Longrightarrow>
      r \<in> set (groups (pt_groups (db_projections db')))"
proof -
  let ?t = "db_projections db"
  define g where "g = delete_empty_group_outbox proj limit (db_deliveries db) (pt_groups ?t)"
  obtain p1 i where items: "delete_empty_items proj limit (db_policies db, pt_inventory ?t) = (p1, i)" by fastforce
  obtain p2 t2 where gr: "delete_empty_groups proj limit (p1, ?t\<lparr>pt_groups := g, pt_inventory := i\<rparr>) = (p2, t2)" by fastforce
  have db': "db' = db\<lparr>db_policies := p2, db_projections := t2\<rparr>"
    using items gr by (simp add: db'_def cleanup_empty_def g_def Let_def)
  note stored = database_stored [OF ok]
  note g = delete_outbox_ok [OF stored(3), of proj limit "db_deliveries db", folded g_def]
  note i = delete_empty_items_ok [OF stored(4) items]
  have parts: "groups_ok (pt_groups (?t\<lparr>pt_groups := g, pt_inventory := i\<rparr>))"
    "inventory_ok (pt_inventory (?t\<lparr>pt_groups := g, pt_inventory := i\<rparr>))" using g(1) i(1) by simp_all
  note e = delete_empty_groups_ok [OF parts gr, simplified]
  show "database_ok db'"
    using ok e(1-6) g(2-4) i(2) by (simp add: database_ok_def Let_def projections_ok_def db')
  show "used_ids (db_projections db') \<subseteq> used_ids ?t" using e(6,7) g(2) i(3) by (auto simp: used_ids_def db')
  show "db_events db' = db_events db" "db_projects db' = db_projects db" by (simp_all add: db')
  show "memberships (pt_groups (db_projections db')) = memberships (pt_groups ?t)"
    "snapshots (pt_groups (db_projections db')) = snapshots (pt_groups ?t)" by (simp_all add: db' e g)
  show "r \<in> set (groups (pt_groups (db_projections db')))" if "r \<in> set (groups (pt_groups ?t))" "0 < g_occurrence_count r"
    using that e(8) by (simp add: db' g)
qed

section \<open>A run\<close>

lemma drain_cases:
  assumes "drain draw now limit org proj db = Ok (db', n)"
  obtains (paused) "db' = db" "n = 0" "\<exists>raw history. retention_policy proj db = Ok (False, raw, history)"
  | (drained) watermark expired_before where "lock_project org proj db = Ok watermark"
      "\<exists>raw history. retention_policy proj db = Ok (True, raw, history) \<and> expired_before = map_option (day_cutoff now) history"
      "db' = cleanup_empty proj (clamp_limit limit) (fst (expire proj expired_before (clamp_limit limit)
         (compact draw (closed_events_for_update proj watermark (clamp_limit limit) (db_events db) (pt_groups (db_projections db)))
            expired_before db)))"
      "n = length (closed_events_for_update proj watermark (clamp_limit limit) (db_events db) (pt_groups (db_projections db)))"
proof -
  from assms obtain watermark enabled raw history where lock: "lock_project org proj db = Ok watermark"
    and policy: "retention_policy proj db = Ok (enabled, raw, history)"
    by (auto simp: drain_def result_laws)
  show ?thesis
  proof (cases enabled)
    case False
    with assms lock policy show ?thesis by (intro paused) (simp_all add: drain_def Let_def)
  next
    case True
    note run = assms [unfolded drain_def lock policy res_bind.simps, simplified True Let_def case_prod_beta, simplified]
    show ?thesis
      by (rule drained [OF lock]) (use policy True run in auto)
  qed
qed

lemma drain_ok:
  assumes ok: "database_ok db" and run: "drain draw now limit org proj db = Ok (db', n)"
  shows "database_ok db' \<and> taken_ids db' \<subseteq> taken_ids db \<and> set (db_events db') \<subseteq> set (db_events db)"
  using run
proof (cases rule: drain_cases)
  case paused
  with ok show ?thesis by simp
next
  case (drained watermark expired_before)
  define ids where "ids = closed_events_for_update proj watermark (clamp_limit limit) (db_events db) (pt_groups (db_projections db))"
  define db1 where "db1 = compact draw ids expired_before db"
  obtain db2 m where exp: "expire proj expired_before (clamp_limit limit) db1 = (db2, m)" by fastforce
  note c = compact_ok [OF ok, of draw ids expired_before, folded db1_def]
  note e = expire_ok [OF c(1) exp]
  note f = cleanup_empty_ok [OF e(1), where proj = proj and limit = "clamp_limit limit"]
  have db': "db' = cleanup_empty proj (clamp_limit limit) db2"
    using drained(3) exp by (simp add: ids_def db1_def)
  have "set (db_events db1) \<subseteq> set (db_events db)"
    using compact_tables(3) [of ids draw expired_before db] by (cases "ids = []") (auto simp: db1_def compact_def)
  then have "set (db_events db') \<subseteq> set (db_events db)" using e(3) f(3) by (simp add: db')
  moreover have "used_ids (db_projections db') \<subseteq> used_ids (db_projections db)" using f(2) e(2) c(2) by (simp add: db')
  ultimately show ?thesis using f(1) by (auto simp: taken_ids_def db')
qed

section \<open>Horizons\<close>

text \<open>A stored event lies behind the horizon of its project.\<close>

definition behind :: "database \<Rightarrow> event_row \<Rightarrow> bool" where
  "behind db e \<longleftrightarrow>
     (case closed_before (project_id (er_attribution e)) db of None \<Rightarrow> False | Some boundary \<Rightarrow> er_observed_at e < boundary)"

definition unique_projects :: "database \<Rightarrow> bool" where
  "unique_projects db \<longleftrightarrow> distinct (map pr_id (db_projects db))"

lemma locked_horizon:
  assumes "unique_projects db" and "lock_project org proj db = Ok watermark"
  shows "closed_before proj db = watermark"
proof -
  from assms(2) obtain r where r: "find (\<lambda>r. pr_organization_id r = org \<and> pr_id r = proj) (db_projects db) = Some r"
    "pr_closed_before r = watermark"
    by (auto simp: lock_project_def result_laws split: if_splits)
  then have "r \<in> set (db_projects db)" "pr_id r = proj" by (auto simp: find_Some_iff)
  then have "find (\<lambda>p. pr_id p = proj) (db_projects db) = Some r"
    using assms(1) find_unique [of pr_id "db_projects db" r] by (simp add: unique_projects_def)
  with r(2) show ?thesis by (simp add: closed_before_def)
qed

lemma find_project_update:
  "(\<And>p. pr_id (f p) = pr_id p) \<Longrightarrow> find (\<lambda>p. pr_id p = proj') (update_where (\<lambda>p. pr_id p = proj) f ps)
     = (if proj' = proj then map_option f (find (\<lambda>p. pr_id p = proj) ps) else find (\<lambda>p. pr_id p = proj') ps)"
  by (induction ps) auto

lemma advanced_horizon:
  "closed_before proj' (advance_horizons proj closed expired_before db)
     = (if proj' = proj then Option.bind (find (\<lambda>p. pr_id p = proj) (db_projects db))
          (\<lambda>p. greatest (pr_closed_before p) (Some closed)) else closed_before proj' db)"
proof -
  let ?f = "\<lambda>p. p\<lparr>pr_closed_before := greatest (pr_closed_before p) (Some closed),
     pr_history_expired_before := greatest (pr_history_expired_before p) expired_before\<rparr>"
  show ?thesis
    using find_project_update [of ?f proj' proj "db_projects db"]
    by (cases "find (\<lambda>p. pr_id p = proj) (db_projects db)") (simp_all add: closed_before_def advance_horizons_def)
qed

definition horizon_le :: "datetime option \<Rightarrow> datetime option \<Rightarrow> bool" where
  "horizon_le a b \<longleftrightarrow> (case a of None \<Rightarrow> True | Some x \<Rightarrow> (case b of None \<Rightarrow> False | Some y \<Rightarrow> x \<le> y))"

lemma close_horizon_cases:
  assumes "close_horizon now org proj db = Ok (db', enabled)"
  shows "(db' = db \<and> \<not> enabled) \<or> (enabled \<and> (\<exists>raw history. retention_policy proj db = Ok (True, raw, history)
     \<and> db' = advance_horizons proj (day_cutoff now raw) (map_option (day_cutoff now) history) db))"
  using assms by (auto simp: close_horizon_def result_laws split: if_splits)

lemma advance_horizons_simps [simp]:
  "db_events (advance_horizons proj c x db) = db_events db"
  "db_projections (advance_horizons proj c x db) = db_projections db"
  "db_policies (advance_horizons proj c x db) = db_policies db"
  "db_organizations (advance_horizons proj c x db) = db_organizations db"
  "database_ok (advance_horizons proj c x db) = database_ok db"
  "taken_ids (advance_horizons proj c x db) = taken_ids db"
  "unique_projects (advance_horizons proj c x db) = unique_projects db"
  by (simp_all add: advance_horizons_def database_ok_def taken_ids_def unique_projects_def map_update_where)

lemma advance_horizons_le: "horizon_le (closed_before proj' db) (closed_before proj' (advance_horizons proj c x db))"
  unfolding advanced_horizon
  by (cases "find (\<lambda>p. pr_id p = proj) (db_projects db)")
    (auto simp: horizon_le_def greatest_def closed_before_def [of _ db] split: option.splits)

text \<open>A drain deletes exactly the chosen events, and only events behind the horizon are chosen.\<close>

definition drained_ids :: "int \<Rightarrow> uuid \<Rightarrow> datetime option \<Rightarrow> database \<Rightarrow> uuid list" where
  "drained_ids limit proj watermark db =
     closed_events_for_update proj watermark (clamp_limit limit) (db_events db) (pt_groups (db_projections db))"

lemma drain_events:
  assumes ok: "database_ok db" and run: "drain draw now limit org proj db = Ok (db', n)"
  obtains "db' = db" "n = 0" "\<exists>raw history. retention_policy proj db = Ok (False, raw, history)"
  | watermark where "lock_project org proj db = Ok watermark"
      "db_events db' = delete_where (\<lambda>e. er_id e \<in> set (drained_ids limit proj watermark db)) (db_events db)"
      "n = length (drained_ids limit proj watermark db)" "db_projects db' = db_projects db"
      "db_organizations db' = db_organizations db"
  using run
proof (cases rule: drain_cases)
  case paused
  then show ?thesis by (rule that(1))
next
  case (drained watermark expired_before)
  define db1 where "db1 = compact draw (drained_ids limit proj watermark db) expired_before db"
  obtain db2 m where exp: "expire proj expired_before (clamp_limit limit) db1 = (db2, m)" by fastforce
  note c = compact_ok [OF ok, of draw "drained_ids limit proj watermark db" expired_before, folded db1_def]
  note e = expire_ok [OF c(1) exp]
  note f = cleanup_empty_ok [OF e(1), where proj = proj and limit = "clamp_limit limit"]
  have db': "db' = cleanup_empty proj (clamp_limit limit) db2"
    using drained(3) exp by (simp add: db1_def drained_ids_def)
  have db1: "db_events db1 = delete_where (\<lambda>e. er_id e \<in> set (drained_ids limit proj watermark db)) (db_events db)"
    "db_projects db1 = db_projects db" "db_organizations db1 = db_organizations db"
    using compact_tables(3-5) [of "drained_ids limit proj watermark db" draw expired_before db]
    by (cases "drained_ids limit proj watermark db = []"; simp add: db1_def compact_def delete_where_none)+
  have "db_organizations db2 = db_organizations db1" "db_organizations db' = db_organizations db2"
    using exp by (auto simp: db' expire_def cleanup_empty_def Let_def case_prod_beta)
  then show ?thesis
    using db1 e(3,4) f(3,4) drained(4) by (intro that(2) [OF drained(1)]) (simp_all add: db' drained_ids_def)
qed

lemma drain_run:
  assumes "database_ok db" and "drain draw now limit org proj db = Ok (db', n)" and "retention_policy proj db = Ok (True, raw, history)"
  shows "\<exists>w. lock_project org proj db = Ok w
    \<and> db_events db' = delete_where (\<lambda>e. er_id e \<in> set (drained_ids limit proj w db)) (db_events db)
    \<and> n = length (drained_ids limit proj w db) \<and> db_projects db' = db_projects db \<and> db_organizations db' = db_organizations db"
  using assms(1,2) by (cases rule: drain_events) (use assms(3) in auto)

lemma drained_closed:
  assumes "distinct (map er_id (db_events db))" and "e \<in> set (db_events db)" and "er_id e \<in> set (drained_ids limit proj watermark db)"
  shows "is_closed proj watermark (pt_groups (db_projections db)) e"
proof -
  from assms(3) obtain x where "x \<in> set (db_events db)" "is_closed proj watermark (pt_groups (db_projections db)) x" "er_id x = er_id e"
    using first_rows_set by (fastforce simp: drained_ids_def closed_events_for_update_def)
  with assms(1,2) show ?thesis by (auto simp: distinct_map dest: inj_onD)
qed

lemma advanced_policy [simp]: "retention_policy proj' (advance_horizons proj c x db) = retention_policy proj' db"
proof -
  let ?f = "\<lambda>p. p\<lparr>pr_closed_before := greatest (pr_closed_before p) (Some c),
     pr_history_expired_before := greatest (pr_history_expired_before p) x\<rparr>"
  show ?thesis
    using find_project_update [of ?f proj' proj "db_projects db"]
    by (cases "find (\<lambda>p. pr_id p = proj) (db_projects db)") (simp_all add: retention_policy_def advance_horizons_def)
qed

lemma process_project_cases:
  assumes "process_project draw now limit org proj db = (db', r)"
  obtains (unchanged) "db' = db" "\<forall>x. r = Ok x \<longrightarrow> x = 0 \<and> (\<exists>raw history. retention_policy proj db = Ok (False, raw, history))"
  | (closed) db1 x where "close_horizon now org proj db = Ok (db1, True)" "drain draw now limit org proj db1 = Err x" "db' = db1" "r = Err x"
  | (drained) db1 n where "close_horizon now org proj db = Ok (db1, True)" "drain draw now limit org proj db1 = Ok (db', n)" "r = Ok n"
proof (cases "close_horizon now org proj db")
  case (Ok x)
  then obtain db1 enabled where c: "close_horizon now org proj db = Ok (db1, enabled)" by (cases x) auto
  show ?thesis
  proof (cases enabled)
    case True
    then show ?thesis
      using assms c closed drained by (cases "drain draw now limit org proj db1") (auto simp: process_project_def split: prod.splits)
  next
    case False
    with c have "db1 = db" "\<exists>raw history. retention_policy proj db = Ok (False, raw, history)"
      by (auto simp: close_horizon_def result_laws split: if_splits)
    with assms c False show ?thesis by (intro unchanged) (auto simp: process_project_def)
  qed
next
  case (Err x)
  with assms show ?thesis by (intro unchanged) (auto simp: process_project_def)
qed

section \<open>Unlimited history\<close>

lemma compacted_occurrences:
  assumes "groups_ok t" and "stored_members evs t"
  shows "occurrences gid (compacted_groups draw ids None evs t) = occurrences gid t"
proof -
  have parts: "members_ok t" "history_ok t" using assms(1) by (simp_all add: groups_ok_def)
  note c = compacted_groups_ok [OF assms, where draw = draw and ids = ids and expired_before = None]
  let ?xs = "join_events (memberships t) evs"
  have "filter (\<lambda>x. archives ids None x \<and> m_group_id (fst x) = gid) ?xs
      = filter (\<lambda>(m, e). m_event_id m \<in> set ids \<and> m_group_id m = gid) ?xs"
    by (rule filter_cong) (auto simp: archives_def keeps_history_def dest: join_events_in)
  then have "archived gid (compacted_groups draw ids None evs t)
      = archived gid t + length (filter (\<lambda>m. m_event_id m \<in> set ids \<and> m_group_id m = gid) (memberships t))"
    using fold_both(2) [OF parts, of gid draw ids None evs] length_join_events [OF assms(2), of "\<lambda>m. m_event_id m \<in> set ids \<and> m_group_id m = gid"]
    by (simp add: archived_def c(3))
  moreover have split: "length (filter (\<lambda>m. m_group_id m = gid) ms)
      = length (filter (\<lambda>m. m_group_id m = gid) (delete_where (\<lambda>m. m_event_id m \<in> set ids) ms))
        + length (filter (\<lambda>m. m_event_id m \<in> set ids \<and> m_group_id m = gid) ms)" for ms
    by (induction ms) auto
  ultimately show ?thesis using split [of "memberships t"] by (simp add: occurrences_def members_of_def c(2))
qed

lemma compact_keeps_counts:
  fixes draw ids db
  assumes ok: "database_ok db"
  defines "db' \<equiv> compact draw ids None db"
  assumes r: "r \<in> set (groups (pt_groups (db_projections db)))"
  shows "\<exists>r' \<in> set (groups (pt_groups (db_projections db'))). g_id r' = g_id r \<and> g_occurrence_count r' = g_occurrence_count r"
proof (cases "ids = []")
  case True
  with r show ?thesis by (auto simp: db'_def compact_def)
next
  case False
  note stored = database_stored [OF ok]
  note tab = compact_tables(1) [OF False, of draw None db, folded db'_def]
  note c = compacted_groups_ok [OF stored(3,1), where draw = draw and ids = ids and expired_before = None, folded tab]
  have "g_id r \<in> g_id ` set (groups (pt_groups (db_projections db')))" using r arg_cong [OF c(4), of set] by auto
  then obtain r' where r': "r' \<in> set (groups (pt_groups (db_projections db')))" "g_id r' = g_id r" by force
  moreover have "g_occurrence_count r' = occurrences (g_id r) (pt_groups (db_projections db'))"
    using r' c(1) by (auto simp: groups_ok_def)
  moreover have "g_occurrence_count r = occurrences (g_id r) (pt_groups (db_projections db))"
    using r stored(3) by (auto simp: groups_ok_def)
  ultimately show ?thesis using compacted_occurrences [OF stored(3,1), of "g_id r" draw ids] by (auto simp: tab)
qed

lemma expire_nothing:
  "pt_groups (db_projections (fst (expire proj None limit db))) = pt_groups (db_projections db)"
  by (simp add: expire_def expire_snapshots_def Let_def case_prod_beta recount_groups_def restore_release_representatives_def
      delete_where_none update_where_none)

text \<open>C12: a project whose history is kept without limit forgets no occurrence. Whatever a retention run
  compacts, every Runtime Group that has been seen is still there, with the count it had: the events
  that are deleted live on in the daily snapshots.\<close>
theorem unlimited_history_keeps_counts:
  assumes ok: "database_ok db" and run: "process_project draw now limit org proj db = (db', Ok n)"
    and policy: "retention_policy proj db = Ok (enabled, raw, None)"
    and r: "r \<in> set (groups (pt_groups (db_projections db)))" "0 < g_occurrence_count r"
  shows "\<exists>r' \<in> set (groups (pt_groups (db_projections db'))). g_id r' = g_id r \<and> g_occurrence_count r' = g_occurrence_count r"
  using run
proof (cases rule: process_project_cases)
  case (drained db1 m)
  have db1: "database_ok db1" "r \<in> set (groups (pt_groups (db_projections db1)))" "retention_policy proj db1 = Ok (enabled, raw, None)"
    using close_horizon_cases [OF drained(1)] ok r policy by auto
  from drained(2) show ?thesis
  proof (cases rule: drain_cases)
    case (drained watermark expired_before)
    then have none: "expired_before = None" using db1(3) by simp
    define db2 where "db2 = compact draw (drained_ids limit proj watermark db1) None db1"
    note c = compact_ok [OF db1(1), of draw "drained_ids limit proj watermark db1" None, folded db2_def]
    obtain r' where r': "r' \<in> set (groups (pt_groups (db_projections db2)))" "g_id r' = g_id r" "g_occurrence_count r' = g_occurrence_count r"
      using compact_keeps_counts [OF db1(1,2), of draw "drained_ids limit proj watermark db1", folded db2_def] by blast
    obtain db3 k where exp: "expire proj None (clamp_limit limit) db2 = (db3, k)" by fastforce
    have "r' \<in> set (groups (pt_groups (db_projections db3)))" using expire_nothing [of proj "clamp_limit limit" db2] r'(1) by (simp add: exp)
    then have "r' \<in> set (groups (pt_groups (db_projections (cleanup_empty proj (clamp_limit limit) db3))))"
      using cleanup_empty_ok(7) [OF expire_ok(1) [OF c(1) exp]] r'(3) r(2) by simp
    moreover have "db' = cleanup_empty proj (clamp_limit limit) db3"
      using drained(3) exp by (simp add: none db2_def drained_ids_def)
    ultimately show ?thesis using r' by blast
  qed (use db1 r in blast)
qed (use r in auto)

section \<open>The backlog\<close>

definition backlog :: "uuid \<Rightarrow> database \<Rightarrow> event_row list" where
  "backlog proj db = filter (is_closed proj (closed_before proj db) (pt_groups (db_projections db))) (db_events db)"

lemma is_closed_stored:
  assumes "database_ok db" and "database_ok db'" and "e \<in> set (db_events db)" and "e \<in> set (db_events db')"
  shows "is_closed proj closed (pt_groups (db_projections db')) e = is_closed proj closed (pt_groups (db_projections db)) e"
proof -
  have "\<exists>m \<in> set (memberships (pt_groups (db_projections d))). m_event_id m = er_id e \<and> m_version m = 1"
    if "database_ok d" "e \<in> set (db_events d)" for d
  proof -
    have "er_id e \<in> m_event_id ` {m \<in> set (memberships (pt_groups (db_projections d))). m_version m = 1}"
      using that by (simp add: database_ok_def Let_def)
    then show ?thesis by force
  qed
  from this [OF assms(1,3)] this [OF assms(2,4)] show ?thesis by (simp add: is_closed_def cong: option.case_cong)
qed

lemma length_delete_chosen:
  assumes "distinct (map key xs)" and "set ks \<subseteq> key ` {x \<in> set xs. P x}" and "distinct ks"
  shows "length (filter P (delete_where (\<lambda>x. key x \<in> set ks) xs)) = length (filter P xs) - length ks"
proof -
  have card: "length (filter P ys) = card (key ` {x \<in> set ys. P x})" if "distinct (map key ys)" for ys
  proof -
    from that have "distinct (map key (filter P ys))" by (rule distinct_map_filter)
    then show ?thesis by (metis distinct_card length_map list.set_map set_filter)
  qed
  have "key ` {x \<in> set (delete_where (\<lambda>x. key x \<in> set ks) xs). P x} = key ` {x \<in> set xs. P x} - set ks"
    by (rule image_deleted)
  then have "length (filter P (delete_where (\<lambda>x. key x \<in> set ks) xs)) = card (key ` {x \<in> set xs. P x} - set ks)"
    using card [OF distinct_delete_where [OF assms(1)]] by simp
  also have "\<dots> = length (filter P xs) - length ks"
    using card [OF assms(1)] assms(2,3) by (simp add: card_Diff_subset distinct_card)
  finally show ?thesis .
qed

text \<open>A project whose runs succeed: it exists and its retention is enabled.\<close>

definition retained :: "uuid \<Rightarrow> uuid \<Rightarrow> int \<Rightarrow> int option \<Rightarrow> database \<Rightarrow> bool" where
  "retained org proj raw history db \<longleftrightarrow> database_ok db \<and> unique_projects db \<and> is_ok (lock_project org proj db)
     \<and> retention_policy proj db = Ok (True, raw, history)"

lemma lock_ok: "is_ok (lock_project org proj db) \<longleftrightarrow> org \<in> org_id ` set (db_organizations db)
    \<and> (org, proj) \<in> (\<lambda>p. (pr_organization_id p, pr_id p)) ` set (db_projects db)"
  by (cases "find (\<lambda>r. pr_organization_id r = org \<and> pr_id r = proj) (db_projects db)")
    (auto simp: lock_project_def is_ok_iff result_laws find_None_iff find_Some_iff)

lemma lock_advanced: "is_ok (lock_project org proj' (advance_horizons proj c x db)) = is_ok (lock_project org proj' db)"
  unfolding lock_ok by (simp add: advance_horizons_def image_update_where)

lemma drain_backlog:
  assumes ret: "retained org proj raw history db" and run: "drain draw now limit org proj db = Ok (db', n)"
  shows "n = min (clamp_limit limit) (length (backlog proj db))"
    and "length (backlog proj db') = length (backlog proj db) - n"
    and "retained org proj raw history db'" and "closed_before proj db' = closed_before proj db"
proof -
  have ok: "database_ok db" and uniq: "unique_projects db" and policy: "retention_policy proj db = Ok (True, raw, history)"
    using ret by (simp_all add: retained_def)
  have ok': "database_ok db'" using drain_ok [OF ok run] by simp
  obtain w where lock: "lock_project org proj db = Ok w"
    and evs: "db_events db' = delete_where (\<lambda>e. er_id e \<in> set (drained_ids limit proj w db)) (db_events db)"
    and n: "n = length (drained_ids limit proj w db)" and same: "db_projects db' = db_projects db" "db_organizations db' = db_organizations db"
    using drain_run [OF ok run policy] by blast
  have w: "closed_before proj db = w" by (rule locked_horizon [OF uniq lock])
  show closed: "closed_before proj db' = closed_before proj db" by (simp add: closed_before_def same)
  show "retained org proj raw history db'"
  proof -
    have "lock_project org proj db' = lock_project org proj db" "retention_policy proj db' = retention_policy proj db"
      "unique_projects db' = unique_projects db"
      by (simp_all add: lock_project_def retention_policy_def unique_projects_def same)
    then show ?thesis using ret ok' by (simp add: retained_def)
  qed
  let ?P = "is_closed proj w (pt_groups (db_projections db))"
  have distinct: "distinct (map er_id (db_events db))" using ok by (simp add: database_ok_def Let_def)
  show "n = min (clamp_limit limit) (length (backlog proj db))"
    by (simp add: n drained_ids_def closed_events_for_update_def first_rows_length backlog_def w)
  have "backlog proj db' = filter ?P (db_events db')"
    unfolding backlog_def closed w using is_closed_stored [OF ok ok'] evs by (intro filter_cong) auto
  moreover have "length (filter ?P (db_events db')) = length (filter ?P (db_events db)) - n"
    unfolding evs n
  proof (rule length_delete_chosen [OF distinct])
    show "set (drained_ids limit proj w db) \<subseteq> er_id ` {x \<in> set (db_events db). ?P x}"
      using first_rows_set by (fastforce simp: drained_ids_def closed_events_for_update_def)
    show "distinct (drained_ids limit proj w db)"
      unfolding drained_ids_def closed_events_for_update_def by (rule first_rows_distinct [OF distinct])
  qed
  ultimately show "length (backlog proj db') = length (backlog proj db) - n" by (simp add: backlog_def w)
qed

lemma run_backlog:
  assumes ret: "retained org proj raw history db"
  shows "\<exists>db1 db' n. close_horizon now org proj db = Ok (db1, True) \<and> process_project draw now limit org proj db = (db', Ok n)
    \<and> retained org proj raw history db' \<and> closed_before proj db' = closed_before proj db1
    \<and> closed_before proj db1 = greatest (closed_before proj db) (Some (day_cutoff now raw))
    \<and> n = min (clamp_limit limit) (length (backlog proj db1)) \<and> length (backlog proj db') = length (backlog proj db1) - n
    \<and> db_events db1 = db_events db \<and> db_projections db1 = db_projections db"
proof -
  obtain w where lock: "lock_project org proj db = Ok w" using ret by (auto simp: retained_def is_ok_iff)
  have policy: "retention_policy proj db = Ok (True, raw, history)" and uniq: "unique_projects db" using ret by (simp_all add: retained_def)
  define db1 where "db1 = advance_horizons proj (day_cutoff now raw) (map_option (day_cutoff now) history) db"
  have close: "close_horizon now org proj db = Ok (db1, True)"
    by (simp add: close_horizon_def lock policy db1_def)
  have lock1: "\<exists>w'. lock_project org proj db1 = Ok w'"
    using lock_advanced [of org proj proj "day_cutoff now raw" "map_option (day_cutoff now) history" db] lock
    by (simp add: db1_def is_ok_iff)
  with ret have ret1: "retained org proj raw history db1" by (auto simp: retained_def db1_def)
  obtain db' n where run: "drain draw now limit org proj db1 = Ok (db', n)"
    using lock1 ret1 by (auto simp: drain_def retained_def Let_def case_prod_beta)
  have "closed_before proj db1 = greatest (closed_before proj db) (Some (day_cutoff now raw))"
    using policy unfolding db1_def advanced_horizon
    by (cases "find (\<lambda>p. pr_id p = proj) (db_projects db)")
      (simp_all add: closed_before_def [of _ db] retention_policy_def result_laws)
  moreover have "process_project draw now limit org proj db = (db', Ok n)" by (simp add: process_project_def close run)
  ultimately show ?thesis using close drain_backlog [OF ret1 run] by (auto simp: db1_def)
qed

fun retention_runs ::
    "(uuid \<Rightarrow> uuid option \<Rightarrow> int \<Rightarrow> uuid) \<Rightarrow> datetime \<Rightarrow> int \<Rightarrow> uuid \<Rightarrow> uuid \<Rightarrow> nat \<Rightarrow> database \<Rightarrow> database" where
  "retention_runs draw now limit org proj 0 db = db"
| "retention_runs draw now limit org proj (Suc k) db =
     retention_runs draw now limit org proj k (fst (process_project draw now limit org proj db))"

lemma runs_backlog:
  fixes draw limit k
  assumes "retained org proj raw history db" and "closed_before proj db = Some b" and "day_cutoff now raw \<le> b"
  defines "db' \<equiv> retention_runs draw now limit org proj k db"
  shows "retained org proj raw history db' \<and> closed_before proj db' = Some b
    \<and> length (backlog proj db') \<le> length (backlog proj db) - k * clamp_limit limit"
  unfolding db'_def using assms(1,2)
proof (induction k arbitrary: db)
  case (Suc k)
  obtain db1 db2 n where run: "process_project draw now limit org proj db = (db2, Ok n)" "retained org proj raw history db2"
    "closed_before proj db2 = closed_before proj db1" "closed_before proj db1 = greatest (closed_before proj db) (Some (day_cutoff now raw))"
    "n = min (clamp_limit limit) (length (backlog proj db1))" "length (backlog proj db2) = length (backlog proj db1) - n"
    "db_events db1 = db_events db" "db_projections db1 = db_projections db"
    using run_backlog [OF Suc.prems(1)] by blast
  have b: "closed_before proj db1 = Some b" using run(4) Suc.prems(2) assms(3) by (simp add: greatest_def max_absorb1)
  then have "backlog proj db1 = backlog proj db" by (simp add: backlog_def run(7,8) Suc.prems(2))
  moreover have "closed_before proj db2 = Some b" using run(3) b by simp
  ultimately show ?case using Suc.IH [OF run(2)] run(1,5,6) by (auto simp: algebra_simps)
qed simp

text \<open>C4: retention terminates. A project with enabled retention needs finitely many runs: once as many
  runs have been made as the stored events fill bounded batches, the next run finds nothing to do, and
  no event of the project is left that is older than the retention period and the ten minutes of
  grace that lifecycle events have.\<close>
theorem retention_empties_backlog:
  assumes ret: "retained org proj raw history db" and k: "0 < k" "length (db_events db) \<le> k * clamp_limit limit"
    and runs: "retention_runs draw now limit org proj k db = db'"
  shows "snd (process_project draw now limit org proj db') = Ok 0
    \<and> (\<forall>e \<in> set (db_events db'). project_id (er_attribution e) = proj \<longrightarrow> day_cutoff now raw - LIFECYCLE_GRACE \<le> er_observed_at e)"
proof -
  obtain j where j: "k = Suc j" using k(1) by (cases k) auto
  obtain db1 db2 n where run: "process_project draw now limit org proj db = (db2, Ok n)" "retained org proj raw history db2"
    "closed_before proj db2 = closed_before proj db1" "closed_before proj db1 = greatest (closed_before proj db) (Some (day_cutoff now raw))"
    "n = min (clamp_limit limit) (length (backlog proj db1))" "length (backlog proj db2) = length (backlog proj db1) - n"
    "db_events db1 = db_events db"
    using run_backlog [OF ret] by blast
  obtain b where b: "closed_before proj db2 = Some b" "day_cutoff now raw \<le> b"
    using run(3,4) by (cases "closed_before proj db") (auto simp: greatest_def)
  have "length (backlog proj db1) \<le> length (db_events db)" unfolding backlog_def run(7) by (rule length_filter_le)
  then have few: "length (backlog proj db2) \<le> j * clamp_limit limit" using run(5,6) k(2) by (auto simp: j)
  have db': "db' = retention_runs draw now limit org proj j db2" using runs by (simp add: j run(1))
  note last = runs_backlog [OF run(2) b, where draw = draw and limit = limit and k = j, folded db']
  then have empty: "backlog proj db' = []" using few by simp
  from last obtain db3 db4 m where next_run: "process_project draw now limit org proj db' = (db4, Ok m)"
    "closed_before proj db3 = greatest (closed_before proj db') (Some (day_cutoff now raw))"
    "m = min (clamp_limit limit) (length (backlog proj db3))" "db_events db3 = db_events db'" "db_projections db3 = db_projections db'"
    using run_backlog [of org proj raw history db'] by blast
  have "backlog proj db3 = backlog proj db'"
    using next_run(2,4,5) last b(2) by (simp add: backlog_def greatest_def max_absorb1)
  moreover have "day_cutoff now raw - LIFECYCLE_GRACE \<le> er_observed_at e"
    if e: "e \<in> set (db_events db')" "project_id (er_attribution e) = proj" for e
  proof (rule ccontr)
    assume "\<not> ?thesis"
    moreover have "database_ok db'" using last by (simp add: retained_def)
    then have "er_id e \<in> m_event_id ` {m \<in> set (memberships (pt_groups (db_projections db'))). m_version m = 1}"
      using e(1) by (simp add: database_ok_def Let_def)
    ultimately have "is_closed proj (closed_before proj db') (pt_groups (db_projections db')) e"
      using last b(2) e(2) by (force simp: is_closed_def LIFECYCLE_GRACE_def)
    with empty e(1) show False by (auto simp: backlog_def filter_empty_conv)
  qed
  ultimately show ?thesis using next_run(1,3) empty by auto
qed

section \<open>Runs and batches together\<close>

lemma process_project_keeps_ok:
  assumes ok: "database_ok db" and run: "process_project draw now limit org proj db = (db', r)"
  shows "database_ok db' \<and> taken_ids db' \<subseteq> taken_ids db"
  using run
proof (cases rule: process_project_cases)
  case unchanged
  with ok show ?thesis by simp
next
  case (closed db1 x)
  with close_horizon_cases [OF closed(1)] ok show ?thesis by auto
next
  case (drained db1 n)
  then have "database_ok db1" "taken_ids db1 = taken_ids db" using close_horizon_cases [OF drained(1)] ok by auto
  with drain_ok [OF _ drained(2)] show ?thesis by auto
qed

text \<open>A step of the server that keeps what is behind the horizons closed.\<close>

definition final_step :: "database \<Rightarrow> database \<Rightarrow> bool" where
  "final_step db db' \<longleftrightarrow> unique_projects db'
     \<and> (\<forall>proj. horizon_le (closed_before proj db) (closed_before proj db'))
     \<and> (\<forall>e \<in> set (db_events db'). e \<in> set (db_events db) \<or> \<not> behind db e)
     \<and> (\<forall>e \<in> set (db_events db). e \<in> set (db_events db') \<or> behind db' e)"

lemma horizon_le_refl [simp]: "horizon_le a a"
  by (simp add: horizon_le_def split: option.splits)

lemma horizon_le_trans: "horizon_le a b \<Longrightarrow> horizon_le b c \<Longrightarrow> horizon_le a c"
  by (auto simp: horizon_le_def split: option.splits)

lemma behind_mono:
  "(\<And>proj. horizon_le (closed_before proj db) (closed_before proj db')) \<Longrightarrow> behind db e \<Longrightarrow> behind db' e"
  by (force simp: behind_def horizon_le_def split: option.splits)

lemma final_step_trans:
  assumes "final_step db db1" and "final_step db1 db2"
  shows "final_step db db2"
proof -
  have le: "horizon_le (closed_before proj db) (closed_before proj db1)" "horizon_le (closed_before proj db1) (closed_before proj db2)" for proj
    using assms by (auto simp: final_step_def)
  then have "horizon_le (closed_before proj db) (closed_before proj db2)" for proj using horizon_le_trans by blast
  moreover have "e \<in> set (db_events db) \<or> \<not> behind db e" if "e \<in> set (db_events db2)" for e
    using assms that behind_mono [OF le(1), of e] unfolding final_step_def by blast
  moreover have "e \<in> set (db_events db2) \<or> behind db2 e" if "e \<in> set (db_events db)" for e
    using assms that behind_mono [OF le(2), of e] unfolding final_step_def by blast
  ultimately show ?thesis using assms(2) by (simp add: final_step_def)
qed

lemma final_step_same:
  assumes "unique_projects db" and "db_projects db' = db_projects db"
    and "\<forall>e \<in> set (db_events db'). e \<in> set (db_events db) \<or> \<not> behind db e"
    and "\<forall>e \<in> set (db_events db). e \<in> set (db_events db') \<or> behind db e"
  shows "final_step db db'"
  using assms by (simp add: final_step_def unique_projects_def closed_before_def behind_def)

lemma advance_final:
  assumes "unique_projects db"
  shows "final_step db (advance_horizons proj c x db)"
  using assms advance_horizons_le by (auto simp: final_step_def)

lemma drain_final:
  assumes ok: "database_ok db" and uniq: "unique_projects db" and run: "drain draw now limit org proj db = Ok (db', n)"
  shows "final_step db db'"
  using ok run
proof (cases rule: drain_events)
  case 1
  with uniq show ?thesis by (intro final_step_same) auto
next
  case (2 w)
  have "behind db e" if "e \<in> set (db_events db)" "e \<notin> set (db_events db')" for e
  proof -
    have "is_closed proj w (pt_groups (db_projections db)) e"
      using that ok 2(2) by (intro drained_closed) (auto simp: database_ok_def Let_def)
    then show ?thesis using locked_horizon [OF uniq 2(1)] by (auto simp: is_closed_def behind_def split: option.splits)
  qed
  with 2 uniq show ?thesis by (intro final_step_same) auto
qed

lemma process_project_final:
  assumes ok: "database_ok db" and uniq: "unique_projects db" and run: "process_project draw now limit org proj db = (db', r)"
  shows "final_step db db'"
  using run
proof (cases rule: process_project_cases)
  case unchanged
  with uniq show ?thesis by (intro final_step_same) auto
next
  case (closed db1 x)
  with close_horizon_cases [OF closed(1)] uniq show ?thesis by (auto intro: advance_final)
next
  case (drained db1 n)
  then have "final_step db db1" "database_ok db1" "unique_projects db1"
    using close_horizon_cases [OF drained(1)] ok uniq by (auto intro: advance_final)
  with drain_final [OF _ _ drained(2)] show ?thesis by (blast intro: final_step_trans)
qed

lemma persist_events_final:
  assumes "persist_events L S ctx c closed es out db = Ok (db', out')"
  shows "db_projects db' = db_projects db \<and> set (db_events db) \<subseteq> set (db_events db')
    \<and> (\<forall>e \<in> set (db_events db'). e \<in> set (db_events db) \<or> project_id (er_attribution e) = ac_project_id c
         \<and> (\<forall>b. closed = Some b \<longrightarrow> b \<le> er_observed_at e))"
  using assms
proof (induction es arbitrary: out db)
  case (Cons x es)
  obtain e ids accepted dropped where x: "x = (e, ids)" "out = (accepted, dropped)" by (cases x; cases out) auto
  show ?case
  proof (cases "expired closed e")
    case True
    with Cons.prems x have "persist_events L S ctx c closed es (accepted, dropped + 1) db = Ok (db', out')" by simp
    then show ?thesis by (rule Cons.IH)
  next
    case False
    with Cons.prems x obtain db1 n where e: "persist_event L S ids ctx (owned_by c e) db = Ok (db1, n)"
      and rest: "persist_events L S ctx c closed es (min (accepted + n) MAX_U32, dropped) db1 = Ok (db', out')"
      by (auto simp: result_laws)
    have "db_projects db1 = db_projects db" "set (db_events db) \<subseteq> set (db_events db1)"
      "\<forall>y \<in> set (db_events db1). y \<in> set (db_events db) \<or> project_id (er_attribution y) = ac_project_id c
         \<and> (\<forall>b. closed = Some b \<longrightarrow> b \<le> er_observed_at y)"
      using e False by (cases rule: persist_event_cases; auto simp: new_event_def expired_def)+
    with Cons.IH [OF rest] show ?thesis by (intro conjI ballI) (simp, blast, blast)
  qed
qed simp

lemma batch_final:
  assumes uniq: "unique_projects db" and run: "persist_application_batch_outcome L S scope c agent es db = (db', r)"
  shows "final_step db db'"
proof (cases "batch_body L S scope c agent es db")
  case (Ok x)
  then obtain closed where lock: "lock_project (ss_organization_id scope) (ac_project_id c) db = Ok closed"
    and events: "persist_events L S \<lparr>ic_scope = scope, ic_agent_id = agent\<rparr> c closed es (0, 0) db = Ok x"
    by (auto simp: batch_body_def result_laws split: if_splits)
  from run Ok obtain out where "x = (db', out)"
    by (cases x) (simp add: persist_application_batch_outcome_def)
  with persist_events_final events have e: "db_projects db' = db_projects db" "set (db_events db) \<subseteq> set (db_events db')"
    "\<forall>e \<in> set (db_events db'). e \<in> set (db_events db) \<or> project_id (er_attribution e) = ac_project_id c
         \<and> (\<forall>b. closed = Some b \<longrightarrow> b \<le> er_observed_at e)" by blast+
  moreover have "\<not> behind db e" if "project_id (er_attribution e) = ac_project_id c" "\<forall>b. closed = Some b \<longrightarrow> b \<le> er_observed_at e" for e
    using that locked_horizon [OF uniq lock] by (auto simp: behind_def split: option.splits)
  ultimately show ?thesis using uniq by (intro final_step_same) blast+
next
  case (Err x)
  with run uniq show ?thesis by (intro final_step_same) (auto simp: persist_application_batch_outcome_def)
qed

section \<open>Sample runs\<close>

definition stored_event :: event_row where
  "stored_event = new_event \<lparr>ic_scope = sample_session, ic_agent_id = 4\<rparr> 11 None listen_event"

definition stored_group :: group_row where
  "stored_group = \<lparr>g_id = 12, g_key = \<lparr>gk_organization_id = 1, gk_project_id = 7, gk_application_id = 8, gk_cluster_id = 2,
       gk_namespace = ''ns'', gk_workload_kind = ''job'', gk_workload_name = ''web'', gk_version = 1, gk_digest = []\<rparr>,
     g_event_kind = ''network.listen'', g_semantic = JNull, g_first_seen_at = 5, g_last_seen_at = 5, g_occurrence_count = 1,
     g_representative = Some 11, g_first_seen_event = Some 11\<rparr>"

definition stored_item :: item_row where
  "stored_item = \<lparr>it_id = 14, it_key = \<lparr>ik_scope = scope_of 1 listen_event, ik_kind = InventoryInboundEndpoint,
       ik_version = 1, ik_digest = []\<rparr>, it_semantic = JNull, it_first_seen_at = 5, it_last_seen_at = 5, it_occurrence_count = 1\<rparr>"

definition stored_database :: database where
  "stored_database = sample_database\<lparr>db_events := [stored_event],
     db_projections := (db_projections sample_database)\<lparr>
       pt_groups := no_groups\<lparr>groups := [stored_group], memberships := [\<lparr>m_event_id = 11, m_version = 1, m_group_id = 12, m_release_id = None\<rparr>]\<rparr>,
       pt_inventory := no_items\<lparr>items := [stored_item],
         item_memberships := [\<lparr>im_scope = scope_of 1 listen_event, im_event_id = 11, im_item_id = 14, im_version = 1\<rparr>],
         sightings := [\<lparr>sg_key = sighting_at 14 2 (attribution listen_event), sg_pod_name = ''p'', sg_occurrence_count = 1,
           sg_first_seen_at = 5, sg_last_seen_at = 5\<rparr>]\<rparr>\<rparr>\<rparr>"

lemma stored_database_ok: "database_ok stored_database"
proof -
  have "groups_ok (pt_groups (db_projections stored_database))"
    by (simp add: stored_database_def stored_group_def no_groups_def groups_ok_def members_ok_def history_ok_def occurrences_def
        members_of_def archived_def releases.counted_def release_count_def release_members_of_def archived_release_def announced_def)
  moreover have "inventory_ok (pt_inventory (db_projections stored_database))"
    by (simp add: stored_database_def stored_item_def no_items_def inventory_ok_def items_ok_def rollups_ok_def events_of_def sighted_def
        released_def sighting.counted_def item_release.counted_def sighting_at_def)
  ultimately show ?thesis
    by (simp add: database_ok_def projections_ok_def) (auto simp: stored_database_def no_groups_def no_items_def stored_event_def new_event_def)
qed

lemma stored_database_retained: "retained 1 7 1 None stored_database"
  using stored_database_ok
  by (simp add: retained_def unique_projects_def lock_project_def retention_policy_def) (simp add: stored_database_def sample_database_def)

theorem unlimited_history_keeps_counts_witness:
  "\<exists>db'. process_project (\<lambda>_ _ _. 99) (10 * NANOS_PER_DAY) 100 1 7 stored_database = (db', Ok 1)
     \<and> (\<exists>r' \<in> set (groups (pt_groups (db_projections db'))). g_id r' = 12 \<and> g_occurrence_count r' = 1)"
proof -
  have closed: "closed_before 7 stored_database = Some 4" by (simp add: closed_before_def stored_database_def sample_database_def)
  obtain db1 db' n where run: "process_project (\<lambda>_ _ _. 99) (10 * NANOS_PER_DAY) 100 1 7 stored_database = (db', Ok n)"
    and b: "closed_before 7 db1 = greatest (Some 4) (Some (day_cutoff (10 * NANOS_PER_DAY) 1))"
    and n: "n = min (clamp_limit 100) (length (backlog 7 db1))"
    and same: "db_events db1 = db_events stored_database" "db_projections db1 = db_projections stored_database"
    using run_backlog [OF stored_database_retained, of "10 * NANOS_PER_DAY" "\<lambda>_ _ _. 99" 100] unfolding closed by blast
  have "closed_before 7 db1 = Some (9 * NANOS_PER_DAY)" by (simp add: b greatest_def day_cutoff_def day_of_def NANOS_PER_DAY_def)
  then have "length (backlog 7 db1) = 1"
    unfolding backlog_def same
    by (simp add: is_closed_def stored_database_def stored_event_def new_event_def NANOS_PER_DAY_def listen_event_def endpoint_event_def
        kind_def no_groups_def)
  then have "n = 1" by (simp add: n clamp_limit_def)
  moreover have "\<exists>r' \<in> set (groups (pt_groups (db_projections db'))). g_id r' = g_id stored_group \<and> g_occurrence_count r' = g_occurrence_count stored_group"
    using stored_database_retained
    by (intro unlimited_history_keeps_counts [OF stored_database_ok run]) (auto simp: retained_def stored_database_def stored_group_def)
  ultimately show ?thesis using run by (simp add: stored_group_def)
qed

theorem retention_empties_backlog_witness:
  "snd (process_project (\<lambda>_ _ _. 99) (10 * NANOS_PER_DAY) 100 1 7
      (retention_runs (\<lambda>_ _ _. 99) (10 * NANOS_PER_DAY) 100 1 7 1 stored_database)) = Ok 0
    \<and> stored_event \<notin> set (db_events (retention_runs (\<lambda>_ _ _. 99) (10 * NANOS_PER_DAY) 100 1 7 1 stored_database))"
proof -
  have "length (db_events stored_database) \<le> 1 * clamp_limit 100" by (simp add: stored_database_def clamp_limit_def)
  note final = retention_empties_backlog [OF stored_database_retained _ this refl, of "\<lambda>_ _ _. 99" "10 * NANOS_PER_DAY"]
  moreover have "er_observed_at stored_event < day_cutoff (10 * NANOS_PER_DAY) 1 - LIFECYCLE_GRACE" "project_id (er_attribution stored_event) = 7"
    by (simp_all add: stored_event_def new_event_def listen_event_def endpoint_event_def day_cutoff_def day_of_def NANOS_PER_DAY_def LIFECYCLE_GRACE_def)
  ultimately show ?thesis by fastforce
qed

end
