(* ===== verification/Agent_Session.thy ===== *)
theory Agent_Session
  imports Prelude
begin

text \<open>
  Opening an agent session (\<open>crates/agent/src/session.rs\<close>): the reconnect backoff, the loop that
  retries until a session opens or shutdown is signalled, and the answer to a control message.

  What the network, the clock and the random generator do is an input: a \<open>round\<close> says what one
  pass of the loop in \<open>connect\<close> sees. \<open>jitter\<close> is \<open>Duration::mul_f64\<close> by a random number of the
  unit interval, so it maps a duration to one that is no longer. The loop may run for ever;
  \<open>connect\<close> is then \<open>None\<close>.

  The lemmas show that the loop returns exactly when some pass opens a session or sees the
  shutdown signal, with the session of the first such pass, and how long the agent sleeps
  between two attempts.
\<close>

section \<open>The backoff\<close>

record backoff =
  delay_ceiling :: duration

definition INITIAL :: duration where "INITIAL = 250000000"
definition MAX_DELAY :: duration where "MAX_DELAY = 30000000000"

definition backoff_default :: backoff where
  "backoff_default = \<lparr>delay_ceiling = INITIAL\<rparr>"

definition next_delay :: "(duration \<Rightarrow> duration) \<Rightarrow> backoff \<Rightarrow> backoff \<times> duration" where
  "next_delay jitter b =
     (let c = delay_ceiling b; half = c div 2
      in (b\<lparr>delay_ceiling := min (c * 2) MAX_DELAY\<rparr>, half + jitter half))"

definition exhaust :: "(duration \<Rightarrow> duration) \<Rightarrow> backoff \<Rightarrow> backoff \<times> duration" where
  "exhaust jitter b = next_delay jitter (b\<lparr>delay_ceiling := MAX_DELAY\<rparr>)"

definition reset :: "backoff \<Rightarrow> backoff" where
  "reset b = b\<lparr>delay_ceiling := INITIAL\<rparr>"

definition after_session :: "(duration \<Rightarrow> duration) \<Rightarrow> duration \<Rightarrow> backoff \<Rightarrow> backoff \<times> duration" where
  "after_session jitter lasted b =
     (if lasted \<ge> MAX_DELAY then (reset b, 0) else next_delay jitter b)"

section \<open>The retry loop\<close>

datatype grpc_code =
    GrpcOk | Cancelled | UnknownCode | InvalidArgument | DeadlineExceeded | NotFound | AlreadyExists
  | PermissionDenied | ResourceExhausted | FailedPrecondition | Aborted | OutOfRange
  | Unimplemented | InternalCode | Unavailable | DataLoss | Unauthenticated

datatype session_error = GrpcStatus grpc_code | TransportError

fun is_rejection :: "session_error \<Rightarrow> bool" where
  "is_rejection (GrpcStatus c) =
     (c = Unauthenticated \<or> c = PermissionDenied \<or> c = FailedPrecondition \<or> c = InvalidArgument)"
| "is_rejection TransportError = False"

text \<open>What ends the sleep: the timer, or a change of the shutdown channel (closed or with a value).\<close>

datatype wake = TimerElapsed | ShutdownChanged "bool option"

fun sleep_unless_shutdown :: "bool \<Rightarrow> wake \<Rightarrow> bool" where
  "sleep_unless_shutdown shutdown w =
     (if shutdown then False
      else case w of TimerElapsed \<Rightarrow> True | ShutdownChanged v \<Rightarrow> v = Some False)"

record 'h round =
  shutdown_seen :: bool
  attempt :: "('h, session_error) result"
  jitter :: "duration \<Rightarrow> duration"
  shutdown_asleep :: bool
  woken_by :: wake

definition delay_after :: "'h round \<Rightarrow> session_error \<Rightarrow> backoff \<Rightarrow> backoff \<times> duration" where
  "delay_after r e b = (if is_rejection e then exhaust (jitter r) b else next_delay (jitter r) b)"

text \<open>The last argument and the last result list the delays slept, in order.\<close>

partial_function (option) connect ::
    "(nat \<Rightarrow> 'h round) \<Rightarrow> nat \<Rightarrow> backoff \<Rightarrow> duration list \<Rightarrow>
       ('h option \<times> backoff \<times> duration list) option" where
  "connect env i b slept =
     (if shutdown_seen (env i) then Some (None, b, slept)
      else case attempt (env i) of
        Ok session \<Rightarrow> Some (Some session, b, slept)
      | Err e \<Rightarrow>
          (let (b', delay) = delay_after (env i) e b
           in if sleep_unless_shutdown (shutdown_asleep (env i)) (woken_by (env i))
              then connect env (Suc i) b' (slept @ [delay])
              else Some (None, b', slept @ [delay])))"

section \<open>Control messages\<close>

datatype control_command = Ping
datatype control_status = Applied | Unsupported

record control_message =
  cm_request_id :: string
  command :: "control_command option"

record control_result =
  cr_request_id :: string
  status :: control_status
  detail :: string

definition handle_control :: "control_message \<Rightarrow> control_result" where
  "handle_control m =
     (case command m of
        Some Ping \<Rightarrow> \<lparr>cr_request_id = cm_request_id m, status = Applied, detail = ''pong''\<rparr>
      | None \<Rightarrow> \<lparr>cr_request_id = cm_request_id m, status = Unsupported,
                 detail = ''unsupported or missing typed command''\<rparr>)"

section \<open>How long the agent waits\<close>

definition backoff_ok :: "backoff \<Rightarrow> bool" where
  "backoff_ok b \<longleftrightarrow> INITIAL \<le> delay_ceiling b \<and> delay_ceiling b \<le> MAX_DELAY"

definition shortens :: "(duration \<Rightarrow> duration) \<Rightarrow> bool" where
  "shortens f \<longleftrightarrow> (\<forall>d. f d \<le> d)"

lemmas backoff_defs = backoff_ok_def INITIAL_def MAX_DELAY_def next_delay_def exhaust_def reset_def
  after_session_def backoff_default_def Let_def

lemma backoff_default_ok: "backoff_ok backoff_default"
  by (simp add: backoff_defs)

lemma next_delay_ok: "backoff_ok b \<Longrightarrow> backoff_ok (fst (next_delay f b))"
  by (auto simp: backoff_defs)

lemma next_delay_range:
  assumes "shortens f"
  shows "delay_ceiling b div 2 \<le> snd (next_delay f b) \<and> snd (next_delay f b) \<le> delay_ceiling b"
  using assms [unfolded shortens_def, rule_format, of "delay_ceiling b div 2"]
  by (simp add: next_delay_def Let_def)

lemma exhaust_ok: "backoff_ok (fst (exhaust f b))"
  by (simp add: backoff_defs)

lemma exhaust_range:
  assumes "shortens f"
  shows "MAX_DELAY div 2 \<le> snd (exhaust f b) \<and> snd (exhaust f b) \<le> MAX_DELAY"
  using next_delay_range [OF assms, of "b\<lparr>delay_ceiling := MAX_DELAY\<rparr>"] by (simp add: exhaust_def)

lemma delay_after_ok: "backoff_ok b \<Longrightarrow> backoff_ok (fst (delay_after r e b))"
  by (simp add: delay_after_def next_delay_ok exhaust_ok)

lemma delay_after_range:
  assumes "shortens (jitter r)" and "backoff_ok b"
  shows "INITIAL div 2 \<le> snd (delay_after r e b) \<and> snd (delay_after r e b) \<le> MAX_DELAY"
proof -
  have "INITIAL div 2 \<le> delay_ceiling b div 2" "delay_ceiling b \<le> MAX_DELAY"
    using assms(2) by (auto simp: backoff_ok_def div_le_mono)
  with next_delay_range [OF assms(1), of b] exhaust_range [OF assms(1), of b]
  show ?thesis by (auto simp: delay_after_def INITIAL_def MAX_DELAY_def)
qed

lemma after_session_ok: "backoff_ok b \<Longrightarrow> backoff_ok (fst (after_session f lasted b))"
  by (auto simp: after_session_def next_delay_ok) (simp add: backoff_defs)

section \<open>When the loop returns\<close>

text \<open>A pass ends the loop when it opens a session or sees the shutdown signal.\<close>

definition carries_on :: "'h round \<Rightarrow> bool" where
  "carries_on r \<longleftrightarrow> \<not> shutdown_seen r \<and> \<not> is_ok (attempt r)
     \<and> sleep_unless_shutdown (shutdown_asleep r) (woken_by r)"

definition session_of :: "'h round \<Rightarrow> 'h option" where
  "session_of r = (if shutdown_seen r then None else res_ok (attempt r))"

lemma connect_carry:
  assumes "carries_on (env i)"
  shows "\<exists>e. attempt (env i) = Err e \<and> connect env i b slept =
    connect env (Suc i) (fst (delay_after (env i) e b)) (slept @ [snd (delay_after (env i) e b)])"
proof -
  from assms obtain e where "attempt (env i) = Err e"
    by (cases "attempt (env i)") (auto simp: carries_on_def)
  moreover from this assms have "connect env i b slept =
      connect env (Suc i) (fst (delay_after (env i) e b)) (slept @ [snd (delay_after (env i) e b)])"
    by (subst connect.simps)
      (auto simp: carries_on_def split_beta Let_def simp del: sleep_unless_shutdown.simps)
  ultimately show ?thesis by blast
qed

lemma connect_ends:
  assumes "\<not> carries_on (env i)"
  shows "\<exists>b' ds. connect env i b slept = Some (session_of (env i), b', slept @ ds)"
  using assms by (subst connect.simps)
    (cases "attempt (env i)", auto simp: carries_on_def session_of_def split_beta Let_def
      simp del: sleep_unless_shutdown.simps)

definition delay_bounded :: "duration \<Rightarrow> bool" where
  "delay_bounded d \<longleftrightarrow> INITIAL div 2 \<le> d \<and> d \<le> MAX_DELAY"

lemma connect_ends_delays:
  assumes "\<not> carries_on (env i)" and "shortens (jitter (env i))" and "backoff_ok b"
  shows "\<exists>b' ds. connect env i b slept = Some (session_of (env i), b', slept @ ds)
    \<and> backoff_ok b' \<and> list_all delay_bounded ds \<and> (session_of (env i) \<noteq> None \<longrightarrow> ds = [])"
  using assms delay_after_ok [OF assms(3)] delay_after_range [OF assms(2,3)]
  by (subst connect.simps)
    (cases "attempt (env i)", auto simp: carries_on_def session_of_def split_beta Let_def
      delay_bounded_def simp del: sleep_unless_shutdown.simps)

lemma connect_first_end:
  assumes "\<forall>k < n. carries_on (env (i + k))" and "\<not> carries_on (env (i + n))"
    and "\<forall>k. shortens (jitter (env k))" and "backoff_ok b"
  shows "\<exists>b' ds. connect env i b slept = Some (session_of (env (i + n)), b', slept @ ds)
    \<and> backoff_ok b' \<and> list_all delay_bounded ds
    \<and> (session_of (env (i + n)) \<noteq> None \<longrightarrow> length ds = n)"
  using assms
proof (induction n arbitrary: i b slept)
  case 0
  then show ?case using connect_ends_delays [of env i b slept] by fastforce
next
  case (Suc n)
  from Suc.prems(1) have "carries_on (env i)" by (metis add_0_right zero_less_Suc)
  then obtain e where step: "connect env i b slept =
      connect env (Suc i) (fst (delay_after (env i) e b)) (slept @ [snd (delay_after (env i) e b)])"
    using connect_carry by blast
  have "\<forall>k < n. carries_on (env (Suc i + k))" and "\<not> carries_on (env (Suc i + n))"
    using Suc.prems(1,2) by (metis Suc_mono add_Suc_shift, simp)
  from Suc.IH [OF this Suc.prems(3) delay_after_ok [OF Suc.prems(4), of "env i" e],
      of "slept @ [snd (delay_after (env i) e b)]"]
  obtain b' ds where "connect env i b slept =
      Some (session_of (env (i + Suc n)), b', slept @ snd (delay_after (env i) e b) # ds)"
    "backoff_ok b'" "list_all delay_bounded ds"
    "session_of (env (i + Suc n)) \<noteq> None \<longrightarrow> length ds = n"
    by (auto simp: step)
  moreover have "delay_bounded (snd (delay_after (env i) e b))"
    using delay_after_range [OF Suc.prems(3) [rule_format] Suc.prems(4), of i e]
    by (simp add: delay_bounded_def)
  ultimately show ?case
    by (intro exI [of _ b'] exI [of _ "snd (delay_after (env i) e b) # ds"]) auto
qed

lemma connect_returns_end: "connect env i b slept = Some r \<Longrightarrow> \<exists>k. \<not> carries_on (env (i + k))"
proof (induction rule: connect.raw_induct [rotated, consumes 1, case_names step])
  case (step f env i b slept r)
  show ?case
  proof (cases "carries_on (env i)")
    case True
    then obtain e where "attempt (env i) = Err e"
      by (cases "attempt (env i)") (auto simp: carries_on_def)
    with True step(2) have "f env (Suc i) (fst (delay_after (env i) e b))
        (slept @ [snd (delay_after (env i) e b)]) = Some r"
      by (auto simp: carries_on_def split_beta Let_def simp del: sleep_unless_shutdown.simps)
    from step(1) [OF this] obtain k where "\<not> carries_on (env (Suc i + k))" ..
    then have "\<not> carries_on (env (i + Suc k))" by simp
    then show ?thesis ..
  next
    case False
    then have "\<not> carries_on (env (i + 0))" by simp
    then show ?thesis ..
  qed
qed

text \<open>While no attempt is rejected the delay doubles, up to the longest one.\<close>

definition ceiling_after :: "backoff \<Rightarrow> nat \<Rightarrow> duration" where
  "ceiling_after b k = min (delay_ceiling b * 2 ^ k) MAX_DELAY"

lemma ceiling_after_Suc: "ceiling_after (fst (next_delay f b)) k = ceiling_after b (Suc k)"
proof (cases "delay_ceiling b * 2 \<le> MAX_DELAY")
  case True
  then show ?thesis by (simp add: ceiling_after_def next_delay_def Let_def min_def)
next
  case False
  have grow: "x \<le> x * 2 ^ k" for x :: nat using mult_le_mono2 [of 1 "2 ^ k" x] by simp
  from False have "MAX_DELAY \<le> delay_ceiling b * 2 ^ Suc k"
    using grow [of "delay_ceiling b * 2"] unfolding power_Suc mult.assoc [symmetric] by linarith
  then have "ceiling_after b (Suc k) = MAX_DELAY" by (simp add: ceiling_after_def)
  moreover have "ceiling_after (fst (next_delay f b)) k = min (MAX_DELAY * 2 ^ k) MAX_DELAY"
    using False by (simp add: ceiling_after_def next_delay_def Let_def)
  ultimately show ?thesis using grow [of MAX_DELAY] by (simp only: min_absorb2)
qed

lemma connect_doubles:
  assumes "\<forall>k < n. carries_on (env (i + k)) \<and> (\<exists>e. attempt (env (i + k)) = Err e \<and> \<not> is_rejection e)"
    and "session_of (env (i + n)) = Some h"
    and "\<forall>k. shortens (jitter (env k))" and "backoff_ok b"
  shows "\<exists>b' ds. connect env i b slept = Some (Some h, b', slept @ ds) \<and> length ds = n
    \<and> (\<forall>k < n. ceiling_after b k div 2 \<le> ds ! k \<and> ds ! k \<le> ceiling_after b k)"
  using assms
proof (induction n arbitrary: i b slept)
  case 0
  then have "\<not> carries_on (env i)" by (auto simp: carries_on_def session_of_def is_ok_iff result_laws split: if_splits)
  with connect_ends_delays [of env i b slept] 0 show ?case by fastforce
next
  case (Suc n)
  then have on: "carries_on (env i)" and "\<exists>e. attempt (env i) = Err e \<and> \<not> is_rejection e"
    by (metis add_0_right zero_less_Suc)+
  then obtain e where e: "attempt (env i) = Err e" "\<not> is_rejection e" by blast
  define d where "d = snd (next_delay (jitter (env i)) b)"
  define b1 where "b1 = fst (next_delay (jitter (env i)) b)"
  have step: "connect env i b slept = connect env (Suc i) b1 (slept @ [d])"
    using connect_carry [of env i b slept] on e by (auto simp: delay_after_def b1_def d_def)
  have "\<forall>k < n. carries_on (env (Suc i + k))
      \<and> (\<exists>e. attempt (env (Suc i + k)) = Err e \<and> \<not> is_rejection e)"
    and "session_of (env (Suc i + n)) = Some h"
    using Suc.prems(1,2) by (metis Suc_mono add_Suc_shift, simp)
  moreover have "backoff_ok b1" using Suc.prems(4) by (simp add: b1_def next_delay_ok)
  ultimately obtain b' ds where ds: "connect env i b slept = Some (Some h, b', slept @ d # ds)"
    "length ds = n" "\<forall>k < n. ceiling_after b1 k div 2 \<le> ds ! k \<and> ds ! k \<le> ceiling_after b1 k"
    using Suc.IH [of "Suc i" b1 "slept @ [d]"] Suc.prems(3) step by auto
  have "ceiling_after b 0 div 2 \<le> d \<and> d \<le> ceiling_after b 0"
    using next_delay_range [of "jitter (env i)" b] Suc.prems(3) Suc.prems(4)
    by (simp add: d_def ceiling_after_def backoff_ok_def min_def)
  with ds have "\<forall>k < Suc n. ceiling_after b k div 2 \<le> (d # ds) ! k \<and> (d # ds) ! k \<le> ceiling_after b k"
    by (auto simp: less_Suc_eq_0_disj b1_def ceiling_after_Suc)
  with ds show ?case by (intro exI [of _ b'] exI [of _ "d # ds"]) simp
qed

text \<open>C36: The agent reconnects. Whatever the network does, the retry loop of \<open>connect\<close> returns
  if and only if some pass opens a session or sees the shutdown signal. It then returns what
  the first such pass gives: the session, or nothing after a shutdown. Before a session it
  slept once per failed attempt, each time at least 125 milliseconds and at most 30 seconds;
  and when no attempt was rejected outright, the \<open>k\<close>-th delay lies in the upper half of a ceiling
  that starts at 250 milliseconds and doubles with every failure up to 30 seconds.\<close>

theorem connect_returns:
  assumes "\<forall>k. shortens (jitter (env k))"
  shows "((connect env 0 backoff_default [] \<noteq> None) = (\<exists>n. \<not> carries_on (env n)))
    \<and> (\<forall>n. (\<forall>k < n. carries_on (env k)) \<and> \<not> carries_on (env n) \<longrightarrow>
      (\<exists>b ds. connect env 0 backoff_default [] = Some (session_of (env n), b, ds)
        \<and> (\<forall>d \<in> set ds. 125000000 \<le> d \<and> d \<le> 30000000000)
        \<and> (session_of (env n) \<noteq> None \<longrightarrow> length ds = n
             \<and> ((\<forall>k < n. \<exists>e. attempt (env k) = Err e \<and> \<not> is_rejection e) \<longrightarrow>
                 (\<forall>k < n. let c = min (250000000 * 2 ^ k) 30000000000
                          in c div 2 \<le> ds ! k \<and> ds ! k \<le> c)))))"
proof -
  have returns: "\<exists>b ds. connect env 0 backoff_default [] = Some (session_of (env n), b, ds)
      \<and> list_all delay_bounded ds \<and> (session_of (env n) \<noteq> None \<longrightarrow> length ds = n)"
    if "\<forall>k < n. carries_on (env k)" "\<not> carries_on (env n)" for n
    using connect_first_end [of n env 0 backoff_default "[]"] that assms
    by (auto simp: backoff_default_ok)
  have "(connect env 0 backoff_default [] \<noteq> None) = (\<exists>n. \<not> carries_on (env n))"
  proof
    assume "connect env 0 backoff_default [] \<noteq> None"
    with connect_returns_end [of env 0 backoff_default "[]"]
    show "\<exists>n. \<not> carries_on (env n)" by auto
  next
    assume "\<exists>n. \<not> carries_on (env n)"
    then obtain n where "\<not> carries_on (env n)" and "\<forall>k < n. carries_on (env k)"
      using exists_least_iff [of "\<lambda>n. \<not> carries_on (env n)"] by blast
    from returns [OF this(2,1)] show "connect env 0 backoff_default [] \<noteq> None" by auto
  qed
  moreover have "(\<forall>k < n. carries_on (env k)) \<and> \<not> carries_on (env n) \<longrightarrow>
      (\<exists>b ds. connect env 0 backoff_default [] = Some (session_of (env n), b, ds)
        \<and> (\<forall>d \<in> set ds. 125000000 \<le> d \<and> d \<le> 30000000000)
        \<and> (session_of (env n) \<noteq> None \<longrightarrow> length ds = n
             \<and> ((\<forall>k < n. \<exists>e. attempt (env k) = Err e \<and> \<not> is_rejection e) \<longrightarrow>
                 (\<forall>k < n. let c = min (250000000 * 2 ^ k) 30000000000
                          in c div 2 \<le> ds ! k \<and> ds ! k \<le> c))))" for n
  proof
    assume on: "(\<forall>k < n. carries_on (env k)) \<and> \<not> carries_on (env n)"
    with returns obtain b ds where
      ds: "connect env 0 backoff_default [] = Some (session_of (env n), b, ds)"
        "list_all delay_bounded ds" "session_of (env n) \<noteq> None \<longrightarrow> length ds = n" by blast
    have "let c = min (250000000 * 2 ^ k) 30000000000 in c div 2 \<le> ds ! k \<and> ds ! k \<le> c"
      if "session_of (env n) \<noteq> None" "k < n"
        and "\<forall>k < n. \<exists>e. attempt (env k) = Err e \<and> \<not> is_rejection e" for k
    proof -
      from that(1) obtain h where "session_of (env n) = Some h" by blast
      with connect_doubles [of n env 0 h backoff_default "[]"] that on assms ds(1)
      have "ceiling_after backoff_default k div 2 \<le> ds ! k \<and> ds ! k \<le> ceiling_after backoff_default k"
        by (auto simp: backoff_default_ok)
      then show ?thesis by (simp add: ceiling_after_def backoff_defs)
    qed
    moreover have "\<forall>d \<in> set ds. 125000000 \<le> d \<and> d \<le> 30000000000"
      using ds(2) by (auto simp: list_all_iff delay_bounded_def INITIAL_def MAX_DELAY_def)
    ultimately show "(\<exists>b ds. connect env 0 backoff_default [] = Some (session_of (env n), b, ds)
        \<and> (\<forall>d \<in> set ds. 125000000 \<le> d \<and> d \<le> 30000000000)
        \<and> (session_of (env n) \<noteq> None \<longrightarrow> length ds = n
             \<and> ((\<forall>k < n. \<exists>e. attempt (env k) = Err e \<and> \<not> is_rejection e) \<longrightarrow>
                 (\<forall>k < n. let c = min (250000000 * 2 ^ k) 30000000000
                          in c div 2 \<le> ds ! k \<and> ds ! k \<le> c))))"
      using ds(1,3) by blast
  qed
  ultimately show ?thesis by blast
qed

definition sample_rounds :: "nat \<Rightarrow> nat round" where
  "sample_rounds i = \<lparr>shutdown_seen = False,
     attempt = (if i < 2 then Err TransportError else Ok 7), jitter = (\<lambda>d. d div 2),
     shutdown_asleep = False, woken_by = TimerElapsed\<rparr>"

theorem connect_returns_witness:
  "connect sample_rounds 0 backoff_default []
     = Some (Some 7, \<lparr>delay_ceiling = 1000000000\<rparr>, [187500000, 375000000])
   \<and> (\<exists>b ds. connect sample_rounds 0 backoff_default [] = Some (Some 7, b, ds)
        \<and> (\<forall>d \<in> set ds. 125000000 \<le> d \<and> d \<le> 30000000000) \<and> length ds = 2)"
proof -
  have "\<forall>k. shortens (jitter (sample_rounds k))" by (simp add: sample_rounds_def shortens_def)
  moreover have "\<forall>k < 2. carries_on (sample_rounds k)" "\<not> carries_on (sample_rounds 2)"
    "session_of (sample_rounds 2) = Some 7"
    by (simp_all add: sample_rounds_def carries_on_def session_of_def)
  ultimately have "\<exists>b ds. connect sample_rounds 0 backoff_default [] = Some (Some 7, b, ds)
      \<and> (\<forall>d \<in> set ds. 125000000 \<le> d \<and> d \<le> 30000000000) \<and> length ds = 2"
    using connect_returns [of sample_rounds, THEN conjunct2, rule_format, of 2] by fastforce
  moreover have "connect sample_rounds 0 backoff_default []
      = Some (Some 7, \<lparr>delay_ceiling = 1000000000\<rparr>, [187500000, 375000000])"
    by (simp add: connect.simps [of sample_rounds 0] connect.simps [of sample_rounds "Suc 0"]
        connect.simps [of sample_rounds "Suc (Suc 0)"] sample_rounds_def delay_after_def backoff_defs)
  ultimately show ?thesis by blast
qed

end
