(* ===== verification/Application_Stream.thy ===== *)
theory Application_Stream
  imports Delivery Agent_Session Protocol Protocol_Resources
begin

text \<open>
  The agent's Application streams (\<open>crates/agent/src/multi_stream.rs\<close>): routing of events,
  release observations and resource aggregates to the stream of their Application, and the task
  \<open>run_stream\<close> that buffers them, sends them over a session, handles the server's messages and
  reconnects with everything unacknowledged replayed.

  A bounded \<open>mpsc\<close> channel into a stream is an \<open>item_channel\<close>. The sender of a session is a \<open>link\<close>:
  the messages accepted so far and the number of sends that still succeed before the transport
  drops the receiver (\<open>None\<close> when it never does), so a session may fail between any two sends.
  What the \<open>select!\<close> of the loop observes is a \<open>stream_event\<close>; a session consumes a list of them.
  Of \<open>Counters\<close> and \<open>ApplicationCounters\<close> the records have the fields this module writes; a
  heartbeat message, which carries a snapshot of all of them, is a bare constructor.

  What the streams guarantee is proved in \<open>Stream_Delivery\<close>.
\<close>

section \<open>Messages\<close>

datatype onboarding_state =
  StateUnspecified | AgentAuthenticated | WorkloadNotMatched | StatePermissionDenied
  | KernelUnsupported | WaitingForEvent

datatype onboarding_reason =
  ReasonUnspecified | SelectorNoMatch | KubernetesWatchForbidden | EbpfUnavailable
  | BtfUnavailable | EventNotObserved

datatype agent_message =
    EventBatchMessage u64 "v1_runtime_event list"
  | HeartbeatMessage
  | ResourceSampleBatchMessage u64 "v1_resource_aggregate list"
  | ControlResultMessage control_result
  | RevisionEvidenceMessage v1_workload_revision_evidence
  | ReadinessSnapshotMessage v1_revision_readiness_snapshot
  | OnboardingStatusMessage onboarding_state onboarding_reason

record batch_acknowledgement =
  ba_sequence :: u64
  accepted_events_count :: u32
  retention_expired_events :: u32

record resource_batch_acknowledgement =
  ra_sequence :: u64
  accepted_aggregates :: u32
  duplicate_aggregates :: u32
  retention_expired_aggregates :: u32
  invalid_aggregates :: u32

datatype server_message =
    SessionAcceptedMessage
  | BatchAcknowledgementMessage batch_acknowledgement
  | ResourceBatchAcknowledgementMessage resource_batch_acknowledgement
  | ControlMessage control_message

section \<open>Routing\<close>

datatype release_observation =
    RevisionEvidence uuid workload_revision_evidence
  | ReadinessSnapshot uuid revision_readiness_snapshot

datatype stream_item =
    EventItem runtime_event
  | ReleaseItem release_observation
  | ResourceItem resource_aggregate

datatype send_error = Full | Closed

record item_channel =
  channel_items :: "stream_item list"
  channel_capacity :: nat
  receiver_closed :: bool

definition try_send :: "stream_item \<Rightarrow> item_channel \<Rightarrow> (item_channel, send_error) result" where
  "try_send x ch =
     (if receiver_closed ch then Err Closed
      else if length (channel_items ch) \<ge> channel_capacity ch then Err Full
      else Ok (ch\<lparr>channel_items := channel_items ch @ [x]\<rparr>))"

record application_counters =
  dropped :: u64
  rate_limited :: u64
  lifecycle_output_dropped :: u64
  lifecycle_generation_miss :: u64
  lifecycle_snapshot_failed :: u64
  lifecycle_snapshot_truncated :: u64
  lifecycle_name_overflow :: u64
  lifecycle_incomplete_window :: u64
  lifecycle_delivery_gap :: u64

record routing_counters =
  unattributed :: u64
  routed_capacity_dropped :: u64
  release_evidence_sent :: u64
  routed_release_dropped :: u64
  resource_attribution_failed :: u64
  routed_resource_dropped :: u64

record application_streams =
  routes :: "(uuid \<times> item_channel \<times> application_counters) list"
  route_counters :: routing_counters

fun count_gap :: "thread_gap_reason \<Rightarrow> application_counters \<Rightarrow> application_counters" where
  "count_gap SnapshotPermission c = c\<lparr>lifecycle_snapshot_failed := lifecycle_snapshot_failed c + 1\<rparr>"
| "count_gap SnapshotRace c = c\<lparr>lifecycle_snapshot_failed := lifecycle_snapshot_failed c + 1\<rparr>"
| "count_gap SnapshotTruncated c =
     c\<lparr>lifecycle_snapshot_truncated := lifecycle_snapshot_truncated c + 1\<rparr>"
| "count_gap DeliveryGap c = c\<lparr>lifecycle_delivery_gap := lifecycle_delivery_gap c + 1\<rparr>"
| "count_gap _ c = c"

definition record_lifecycle_diagnostics ::
    "runtime_event \<Rightarrow> application_counters \<Rightarrow> application_counters" where
  "record_lifecycle_diagnostics e c =
     (case payload e of
        ThreadActivityWindow w \<Rightarrow>
          (let c1 = (if start_observed (tw_generation w) then c
                     else c\<lparr>lifecycle_generation_miss := lifecycle_generation_miss c + 1\<rparr>);
               c2 = c1\<lparr>lifecycle_name_overflow := lifecycle_name_overflow c1 + name_overflow w\<rparr>;
               c3 = (if \<not> tw_baseline_complete w \<or> tw_gaps w \<noteq> []
                     then c2\<lparr>lifecycle_incomplete_window := lifecycle_incomplete_window c2 + 1\<rparr>
                     else c2)
           in fold count_gap (tw_gaps w) c3)
      | _ \<Rightarrow> c)"

fun is_thread_window :: "event_payload \<Rightarrow> bool" where
  "is_thread_window (ThreadActivityWindow w) = True"
| "is_thread_window _ = False"

definition drop_one :: "application_counters \<Rightarrow> application_counters" where
  "drop_one c = c\<lparr>dropped := dropped c + 1\<rparr>"

definition route :: "runtime_event \<Rightarrow> application_streams \<Rightarrow> application_streams \<times> bool" where
  "route e s =
     (let route_id = application_id (attribution e); rc = route_counters s
      in case map_of (routes s) route_id of
        None \<Rightarrow> (s\<lparr>route_counters := rc\<lparr>unattributed := unattributed rc + 1\<rparr>\<rparr>, False)
      | Some (ch, ac) \<Rightarrow>
          (let ac1 = record_lifecycle_diagnostics e ac
           in case try_send (EventItem e) ch of
                Ok ch' \<Rightarrow> (s\<lparr>routes := modify route_id (\<lambda>_. (ch', ac1)) (routes s)\<rparr>, True)
              | Err Full \<Rightarrow>
                  (let ac2 = (if is_thread_window (payload e)
                              then ac1\<lparr>lifecycle_output_dropped := lifecycle_output_dropped ac1 + 1\<rparr>
                              else ac1)
                   in (s\<lparr>routes := modify route_id (\<lambda>_. (ch, drop_one ac2)) (routes s),
                         route_counters := rc\<lparr>routed_capacity_dropped := routed_capacity_dropped rc + 1\<rparr>\<rparr>,
                       False))
              | Err Closed \<Rightarrow> (s\<lparr>routes := modify route_id (\<lambda>_. (ch, ac1)) (routes s)\<rparr>, False)))"

fun observation_route :: "release_observation \<Rightarrow> uuid" where
  "observation_route (RevisionEvidence r _) = r"
| "observation_route (ReadinessSnapshot r _) = r"

definition route_release_observation ::
    "release_observation \<Rightarrow> application_streams \<Rightarrow> application_streams \<times> bool" where
  "route_release_observation x s =
     (let route_id = observation_route x; rc = route_counters s
      in case map_of (routes s) route_id of
        None \<Rightarrow> (s\<lparr>route_counters := rc\<lparr>routed_release_dropped := routed_release_dropped rc + 1\<rparr>\<rparr>, False)
      | Some (ch, ac) \<Rightarrow>
          (case try_send (ReleaseItem x) ch of
             Ok ch' \<Rightarrow> (s\<lparr>routes := modify route_id (\<lambda>_. (ch', ac)) (routes s),
                          route_counters := rc\<lparr>release_evidence_sent := release_evidence_sent rc + 1\<rparr>\<rparr>, True)
           | Err _ \<Rightarrow> (s\<lparr>routes := modify route_id (\<lambda>_. (ch, drop_one ac)) (routes s),
                          route_counters := rc\<lparr>routed_release_dropped := routed_release_dropped rc + 1\<rparr>\<rparr>,
                        False)))"

definition route_resource ::
    "uuid \<Rightarrow> resource_aggregate \<Rightarrow> application_streams \<Rightarrow> application_streams \<times> bool" where
  "route_resource route_id x s =
     (let rc = route_counters s
      in case map_of (routes s) route_id of
        None \<Rightarrow> (s\<lparr>route_counters :=
                     rc\<lparr>resource_attribution_failed := resource_attribution_failed rc + 1\<rparr>\<rparr>, False)
      | Some (ch, ac) \<Rightarrow>
          (case try_send (ResourceItem x) ch of
             Ok ch' \<Rightarrow> (s\<lparr>routes := modify route_id (\<lambda>_. (ch', ac)) (routes s)\<rparr>, True)
           | Err _ \<Rightarrow> (s\<lparr>routes := modify route_id (\<lambda>_. (ch, drop_one ac)) (routes s),
                          route_counters := rc\<lparr>routed_resource_dropped := routed_resource_dropped rc + 1\<rparr>\<rparr>,
                        False)))"

definition record_rate_limited :: "uuid \<Rightarrow> application_streams \<Rightarrow> application_streams" where
  "record_rate_limited route_id s =
     s\<lparr>routes := modify route_id (\<lambda>(ch, ac). (ch, ac\<lparr>rate_limited := rate_limited ac + 1\<rparr>)) (routes s)\<rparr>"

section \<open>The state of a stream\<close>

record link =
  link_sent :: "agent_message list"
  sends_left :: "nat option"

definition send :: "agent_message \<Rightarrow> link \<Rightarrow> link \<times> bool" where
  "send m l = (case sends_left l of
       Some 0 \<Rightarrow> (l, False)
     | Some (Suc n) \<Rightarrow> (l\<lparr>link_sent := link_sent l @ [m], sends_left := Some n\<rparr>, True)
     | None \<Rightarrow> (l\<lparr>link_sent := link_sent l @ [m]\<rparr>, True))"

fun send_all :: "agent_message list \<Rightarrow> link \<Rightarrow> link \<times> bool" where
  "send_all [] l = (l, True)"
| "send_all (m # ms) l = (case send m l of (l', ok) \<Rightarrow> if ok then send_all ms l' else (l', False))"

record stream_counters =
  stream_delivery :: delivery_counters
  release_evidence_duplicate :: u64
  release_evidence_dropped :: u64
  release_evidence_replayed :: u64
  resource_queue_dropped :: u64
  resource_retried :: u64
  resource_acknowledged :: u64
  resource_expired :: u64
  stream_dropped :: u64

record stream_config =
  wire :: wire_lib
  queue_capacity :: nat
  event_batch_size :: nat
  resource_queue_capacity :: nat
  resource_batch_size :: nat
  kernel_degraded :: bool

record stream =
  buffer :: "runtime_event event_buffer"
  release_pending :: "(string \<times> release_observation) list"
  resource_queued :: "resource_aggregate list"
  resource_pending :: "(u64 \<times> resource_aggregate list) list"
  resource_sequence :: u64
  stream_backoff :: backoff
  counters :: stream_counters
  release_dirty :: bool
  session_link :: link

definition zero_stream_counters :: stream_counters where
  "zero_stream_counters = \<lparr>stream_delivery = zero_counters, release_evidence_duplicate = 0,
     release_evidence_dropped = 0, release_evidence_replayed = 0, resource_queue_dropped = 0,
     resource_retried = 0, resource_acknowledged = 0, resource_expired = 0, stream_dropped = 0\<rparr>"

definition stream_new :: "stream_config \<Rightarrow> stream option" where
  "stream_new cfg = map_option (\<lambda>b. \<lparr>buffer = b, release_pending = [], resource_queued = [],
       resource_pending = [], resource_sequence = 1, stream_backoff = backoff_default,
       counters = zero_stream_counters, release_dirty = True,
       session_link = \<lparr>link_sent = [], sends_left = Some 0\<rparr>\<rparr>)
     (event_buffer_new (queue_capacity cfg) (event_batch_size cfg))"

text \<open>An operation of the event buffer, on the buffer and the counters of the stream.\<close>

definition on_buffer ::
    "(runtime_event event_buffer \<times> delivery_counters \<Rightarrow>
       (runtime_event event_buffer \<times> delivery_counters) \<times> 'r) \<Rightarrow> stream \<Rightarrow> stream \<times> 'r" where
  "on_buffer f s = (case f (buffer s, stream_delivery (counters s)) of
     ((b, d), r) \<Rightarrow> (s\<lparr>buffer := b, counters := (counters s)\<lparr>stream_delivery := d\<rparr>\<rparr>, r))"

definition send_on :: "agent_message \<Rightarrow> stream \<Rightarrow> stream \<times> bool" where
  "send_on m s = (case send m (session_link s) of (l, ok) \<Rightarrow> (s\<lparr>session_link := l\<rparr>, ok))"

section \<open>The steps of a session\<close>

definition release_observation_key :: "release_observation \<Rightarrow> string" where
  "release_observation_key x = (case x of
       RevisionEvidence _ v \<Rightarrow> ''e:'' @ evidence_id v
     | ReadinessSnapshot _ v \<Rightarrow> ''s:'' @ hex_encode (rs_revision_digest v))"

fun buffer_stream_item :: "stream_config \<Rightarrow> stream_item \<Rightarrow> stream \<Rightarrow> stream" where
  "buffer_stream_item cfg (EventItem e) s =
     (case on_buffer (push e) s of (s', ok) \<Rightarrow>
        if ok then s'
        else s'\<lparr>counters := (counters s')\<lparr>stream_dropped := stream_dropped (counters s') + 1\<rparr>\<rparr>)"
| "buffer_stream_item cfg (ReleaseItem x) s =
     (let key = release_observation_key x;
          known = contains_key (release_pending s) key;
          c = counters s;
          c1 = (if known then c\<lparr>release_evidence_duplicate := release_evidence_duplicate c + 1\<rparr> else c)
      in if length (release_pending s) < queue_capacity cfg \<or> known
         then s\<lparr>counters := c1, release_pending := bt_insert key x (release_pending s),
                release_dirty := True\<rparr>
         else s\<lparr>counters := c1\<lparr>release_evidence_dropped := release_evidence_dropped c1 + 1,
                               stream_dropped := stream_dropped c1 + 1\<rparr>\<rparr>)"
| "buffer_stream_item cfg (ResourceItem x) s =
     (let c = counters s
      in if length (resource_queued s) < resource_queue_capacity cfg
         then s\<lparr>resource_queued := resource_queued s @ [x]\<rparr>
         else s\<lparr>counters := c\<lparr>resource_queue_dropped := resource_queue_dropped c + 1,
                              stream_dropped := stream_dropped c + 1\<rparr>\<rparr>)"

definition batch_message :: "stream_config \<Rightarrow> runtime_event pending_batch \<Rightarrow> agent_message" where
  "batch_message cfg batch =
     EventBatchMessage (sequence batch) (map (encode_event (wire cfg)) (events batch))"

definition resource_message :: "stream_config \<Rightarrow> u64 \<Rightarrow> resource_aggregate list \<Rightarrow> agent_message" where
  "resource_message cfg q xs = ResourceSampleBatchMessage q (map (encode_aggregate (wire cfg)) xs)"

fun observation_message :: "stream_config \<Rightarrow> release_observation \<Rightarrow> agent_message" where
  "observation_message cfg (RevisionEvidence _ v) = RevisionEvidenceMessage (encode_revision (wire cfg) v)"
| "observation_message cfg (ReadinessSnapshot _ v) = ReadinessSnapshotMessage (encode_snapshot (wire cfg) v)"

fun flush_observations :: "stream_config \<Rightarrow> release_observation list \<Rightarrow> stream \<Rightarrow> stream \<times> bool" where
  "flush_observations cfg [] s = (s, True)"
| "flush_observations cfg (x # xs) s =
     (case send_on (observation_message cfg x) s of (s', ok) \<Rightarrow>
        if \<not> ok then (s', False)
        else flush_observations cfg xs
          (s'\<lparr>counters := (counters s')\<lparr>release_evidence_replayed :=
                release_evidence_replayed (counters s') + 1\<rparr>\<rparr>))"

definition flush_release_observations :: "stream_config \<Rightarrow> stream \<Rightarrow> stream" where
  "flush_release_observations cfg s =
     (if \<not> release_dirty s then s
      else case flush_observations cfg (map snd (release_pending s)) s of
        (s', ok) \<Rightarrow> if ok then s'\<lparr>release_dirty := False\<rparr> else s')"

definition resource_pending_count :: "stream \<Rightarrow> nat" where
  "resource_pending_count s = sum_list (map (\<lambda>p. length (snd p)) (resource_pending s))"

definition flush_resource_queue :: "stream_config \<Rightarrow> stream \<Rightarrow> stream \<times> bool" where
  "flush_resource_queue cfg s =
     (if resource_queued s = [] then (s, True)
      else
        let available = resource_queue_capacity cfg - resource_pending_count s; c = counters s
        in if available = 0 then
             (let n = of_nat (length (resource_queued s))
              in (s\<lparr>counters := c\<lparr>resource_queue_dropped := resource_queue_dropped c + n,
                                  stream_dropped := stream_dropped c + n\<rparr>,
                    resource_queued := []\<rparr>, True))
           else
             let split_at = min (min (length (resource_queued s)) (resource_batch_size cfg)) available;
                 aggregates = take split_at (resource_queued s);
                 s1 = s\<lparr>resource_queued := drop split_at (resource_queued s),
                        resource_pending := bt_insert (resource_sequence s) aggregates (resource_pending s)\<rparr>
             in case send_on (resource_message cfg (resource_sequence s) aggregates) s1 of
                  (s2, ok) \<Rightarrow>
                    if \<not> ok then (s2, False)
                    else (s2\<lparr>resource_sequence := saturating_add (resource_sequence s2) 1\<rparr>, True))"

datatype watch_state = WatchStarting | WatchReady | WatchPermissionDenied

definition onboarding_heartbeat :: "watch_state \<Rightarrow> bool \<Rightarrow> bool \<Rightarrow> agent_message" where
  "onboarding_heartbeat w matched degraded =
     (if degraded then OnboardingStatusMessage KernelUnsupported EbpfUnavailable
      else if w = WatchPermissionDenied
        then OnboardingStatusMessage StatePermissionDenied KubernetesWatchForbidden
      else if w = WatchReady \<and> \<not> matched
        then OnboardingStatusMessage WorkloadNotMatched SelectorNoMatch
      else if matched then OnboardingStatusMessage WaitingForEvent EventNotObserved
      else OnboardingStatusMessage AgentAuthenticated ReasonUnspecified)"

definition acknowledge_batch :: "batch_acknowledgement \<Rightarrow> stream \<Rightarrow> stream" where
  "acknowledge_batch ack s = fst (on_buffer (acknowledge (ba_sequence ack)) s)"

fun handle_server_message :: "server_message option \<Rightarrow> stream \<Rightarrow> stream \<times> bool" where
  "handle_server_message (Some (BatchAcknowledgementMessage ack)) s = (acknowledge_batch ack s, True)"
| "handle_server_message (Some (ResourceBatchAcknowledgementMessage ack)) s =
     (case map_of (resource_pending s) (ra_sequence ack) of
        None \<Rightarrow> (s, True)
      | Some values \<Rightarrow>
          (let c = counters s
           in (s\<lparr>resource_pending := AList.delete (ra_sequence ack) (resource_pending s),
                 counters := c\<lparr>resource_acknowledged := resource_acknowledged c + of_nat (length values),
                               resource_expired := resource_expired c + ucast (retention_expired_aggregates ack)\<rparr>\<rparr>,
               True)))"
| "handle_server_message (Some (ControlMessage m)) s = send_on (ControlResultMessage (handle_control m)) s"
| "handle_server_message (Some SessionAcceptedMessage) s = (s, True)"
| "handle_server_message None s = (s, True)"

datatype stream_event =
    Received "stream_item option"
  | FlushTick
  | HeartbeatTick watch_state
  | Incoming "server_message option"
  | StreamClosed
  | StreamFailed
  | ShutdownSignal "bool option"

datatype control = Continue | Break | Return

definition flush_tick :: "stream_config \<Rightarrow> stream \<Rightarrow> stream \<times> control" where
  "flush_tick cfg s =
     (case on_buffer next_batch (flush_release_observations cfg s) of (s1, batch) \<Rightarrow>
        (case (case batch of None \<Rightarrow> (s1, True) | Some b \<Rightarrow> send_on (batch_message cfg b) s1) of
           (s2, ok) \<Rightarrow>
             if \<not> ok then (s2, Break)
             else (case flush_resource_queue cfg s2 of
                     (s3, ok) \<Rightarrow> (s3, if ok then Continue else Break))))"

definition heartbeat_tick :: "stream_config \<Rightarrow> watch_state \<Rightarrow> stream \<Rightarrow> stream \<times> control" where
  "heartbeat_tick cfg w s =
     (case send_on HeartbeatMessage s of (s1, ok) \<Rightarrow>
        if \<not> ok then (s1, Break)
        else (case send_on (onboarding_heartbeat w (release_pending s1 \<noteq> []) (kernel_degraded cfg)) s1 of
                (s2, ok) \<Rightarrow> (s2, if ok then Continue else Break)))"

fun stream_step :: "stream_config \<Rightarrow> stream_event \<Rightarrow> stream \<Rightarrow> stream \<times> control" where
  "stream_step cfg (Received None) s = (s, Return)"
| "stream_step cfg (Received (Some x)) s = (buffer_stream_item cfg x s, Continue)"
| "stream_step cfg FlushTick s = flush_tick cfg s"
| "stream_step cfg (HeartbeatTick w) s = heartbeat_tick cfg w s"
| "stream_step cfg (Incoming m) s =
     (case handle_server_message m s of (s', ok) \<Rightarrow> (s', if ok then Continue else Break))"
| "stream_step cfg StreamClosed s = (s, Break)"
| "stream_step cfg StreamFailed s = (s, Break)"
| "stream_step cfg (ShutdownSignal v) s = (s, if v = Some False then Continue else Return)"

fun session_loop :: "stream_config \<Rightarrow> stream_event list \<Rightarrow> stream \<Rightarrow> stream \<times> control" where
  "session_loop cfg [] s = (s, Continue)"
| "session_loop cfg (x # xs) s =
     (case stream_step cfg x s of (s', c) \<Rightarrow>
        if c = Continue then session_loop cfg xs s' else (s', c))"

section \<open>The task of a stream\<close>

fun replay_resource_batches :: "stream_config \<Rightarrow> (u64 \<times> resource_aggregate list) list \<Rightarrow> stream \<Rightarrow> stream" where
  "replay_resource_batches cfg [] s = s"
| "replay_resource_batches cfg ((q, xs) # rest) s =
     (let c = counters s; d = stream_delivery c; n = of_nat (length xs);
          s1 = s\<lparr>counters := c\<lparr>resource_retried := resource_retried c + n,
                               stream_delivery := d\<lparr>delivery_retry := delivery_retry d + n\<rparr>\<rparr>\<rparr>
      in case send_on (resource_message cfg q xs) s1 of
           (s2, ok) \<Rightarrow> if ok then replay_resource_batches cfg rest s2 else s2)"

definition start_session :: "stream_config \<Rightarrow> nat option \<Rightarrow> stream \<Rightarrow> stream" where
  "start_session cfg sends s =
     (case on_buffer replay_pending (s\<lparr>session_link := \<lparr>link_sent = [], sends_left = sends\<rparr>\<rparr>) of
        (s1, batches) \<Rightarrow>
          (let s2 = s1\<lparr>session_link := fst (send_all (map (batch_message cfg) batches) (session_link s1))\<rparr>
           in (replay_resource_batches cfg (resource_pending s2) s2)\<lparr>release_dirty := True\<rparr>))"

text \<open>What one pass of the outer loop sees. An opened session is given by the sends it allows.\<close>

record session_env =
  connect_rounds :: "nat \<Rightarrow> nat option round"
  session_events :: "stream_event list"
  lasted :: duration
  after_jitter :: "duration \<Rightarrow> duration"
  after_shutdown :: bool
  after_woken :: wake

fun run_stream :: "stream_config \<Rightarrow> session_env list \<Rightarrow> stream \<Rightarrow> stream" where
  "run_stream cfg [] s = s"
| "run_stream cfg (x # xs) s =
     (case connect (connect_rounds x) 0 (stream_backoff s) [] of
        None \<Rightarrow> s
      | Some (None, b, _) \<Rightarrow> s\<lparr>stream_backoff := b\<rparr>
      | Some (Some sends, b, _) \<Rightarrow>
          (case session_loop cfg (session_events x) (start_session cfg sends (s\<lparr>stream_backoff := b\<rparr>)) of
             (s1, c) \<Rightarrow>
               if c \<noteq> Break then s1
               else (case after_session (after_jitter x) (lasted x) (stream_backoff s1) of
                       (b', delay) \<Rightarrow>
                         if sleep_unless_shutdown (after_shutdown x) (after_woken x)
                         then run_stream cfg xs (s1\<lparr>stream_backoff := b'\<rparr>)
                         else s1\<lparr>stream_backoff := b'\<rparr>)))"

end
