(* ===== verification/Stream_Delivery.thy ===== *)
theory Stream_Delivery
  imports Application_Stream
begin

text \<open>
  What the Application streams guarantee. \<open>stream_ops\<close> lists the operations a run of \<open>run_stream\<close>
  performs on its event buffer, so that the results on the buffer carry over to any number of
  sessions, disconnects and replays: an event that entered the buffer is acknowledged or still
  held. A session whose server acknowledges what it is sent empties the buffer. A resource batch
  whose send failed is displaced by the next batch, because the sequence number advances only
  after a successful send.
\<close>

section \<open>The buffer operations a stream performs\<close>

fun step_ops :: "stream_event \<Rightarrow> runtime_event buffer_op list" where
  "step_ops (Received (Some (EventItem e))) = [Push e]"
| "step_ops FlushTick = [NextBatch]"
| "step_ops (Incoming (Some (BatchAcknowledgementMessage ack))) = [Acknowledge (ba_sequence ack)]"
| "step_ops _ = []"

fun session_ops :: "stream_config \<Rightarrow> stream_event list \<Rightarrow> stream \<Rightarrow> runtime_event buffer_op list" where
  "session_ops cfg [] s = []"
| "session_ops cfg (x # xs) s =
     step_ops x @ (case stream_step cfg x s of (s', c) \<Rightarrow>
       if c = Continue then session_ops cfg xs s' else [])"

fun stream_ops :: "stream_config \<Rightarrow> session_env list \<Rightarrow> stream \<Rightarrow> runtime_event buffer_op list" where
  "stream_ops cfg [] s = []"
| "stream_ops cfg (x # xs) s =
     (case connect (connect_rounds x) 0 (stream_backoff s) [] of
        None \<Rightarrow> []
      | Some (None, b, _) \<Rightarrow> []
      | Some (Some sends, b, _) \<Rightarrow>
          (let s0 = start_session cfg sends (s\<lparr>stream_backoff := b\<rparr>)
           in Replay # session_ops cfg (session_events x) s0
              @ (case session_loop cfg (session_events x) s0 of (s1, c) \<Rightarrow>
                  if c \<noteq> Break then []
                  else (case after_session (after_jitter x) (lasted x) (stream_backoff s1) of
                         (b', delay) \<Rightarrow>
                           if sleep_unless_shutdown (after_shutdown x) (after_woken x)
                           then stream_ops cfg xs (s1\<lparr>stream_backoff := b'\<rparr>) else []))))"

text \<open>The buffer a sequence of operations leaves does not depend on the counters.\<close>

definition buffer_after :: "runtime_event buffer_op list \<Rightarrow> runtime_event event_buffer \<Rightarrow> runtime_event event_buffer" where
  "buffer_after ops b = fst (fst (run buffer_step (b, zero_counters) ops))"

lemma buffer_step_counters:
  "fst (fst (buffer_step (b, c) x)) = fst (fst (buffer_step (b, c') x))"
  "snd (buffer_step (b, c) x) = snd (buffer_step (b, c') x)"
  by (cases x; simp add: push_def next_batch_def acknowledge_def replay_pending_def Let_def
      split: option.splits)+

lemma run_buffer_counters:
  "fst (fst (run buffer_step (b, c) xs)) = fst (fst (run buffer_step (b, c') xs))"
proof (induction xs arbitrary: b c c')
  case (Cons x xs)
  obtain b1 c1 r where 1: "buffer_step (b, c) x = ((b1, c1), r)" by (metis prod.exhaust)
  obtain b2 c2 r' where 2: "buffer_step (b, c') x = ((b2, c2), r')" by (metis prod.exhaust)
  from buffer_step_counters(1) [of b c x c'] 1 2 have "b1 = b2" by simp
  with 1 2 Cons.IH [of b1 c1 c2] show ?case by simp
qed simp

lemma buffer_after_simps [simp]:
  "buffer_after [] b = b"
  "buffer_after (x # xs) b = buffer_after xs (fst (fst (buffer_step (b, zero_counters) x)))"
  by (auto simp: buffer_after_def intro!: run_buffer_counters
      [of _ "snd (fst (buffer_step (b, zero_counters) x))" for b, simplified] simp del: buffer_step.simps)
    (metis prod.collapse run_buffer_counters)

lemma buffer_after_append: "buffer_after (xs @ ys) b = buffer_after ys (buffer_after xs b)"
  by (induction xs arbitrary: b) auto

lemma on_buffer_simps [simp]:
  "buffer (fst (on_buffer f s)) = fst (fst (f (buffer s, stream_delivery (counters s))))"
  "snd (on_buffer f s) = snd (f (buffer s, stream_delivery (counters s)))"
  "session_link (fst (on_buffer f s)) = session_link s"
  "resource_pending (fst (on_buffer f s)) = resource_pending s"
  "resource_queued (fst (on_buffer f s)) = resource_queued s"
  "resource_sequence (fst (on_buffer f s)) = resource_sequence s"
  by (simp_all add: on_buffer_def split: prod.splits)

lemma send_on_simps [simp]:
  "buffer (fst (send_on m s)) = buffer s"
  "resource_pending (fst (send_on m s)) = resource_pending s"
  "resource_queued (fst (send_on m s)) = resource_queued s"
  "resource_sequence (fst (send_on m s)) = resource_sequence s"
  "release_pending (fst (send_on m s)) = release_pending s"
  "session_link (fst (send_on m s)) = fst (send m (session_link s))"
  "snd (send_on m s) = snd (send m (session_link s))"
  by (simp_all add: send_on_def split: prod.splits)

lemma flush_observations_buffer [simp]: "buffer (fst (flush_observations cfg xs s)) = buffer s"
  by (induction xs arbitrary: s) (auto simp: split_beta)

lemma flush_release_buffer [simp]: "buffer (flush_release_observations cfg s) = buffer s"
  by (simp add: flush_release_observations_def split_beta)

lemma flush_resource_buffer [simp]: "buffer (fst (flush_resource_queue cfg s)) = buffer s"
  by (simp add: flush_resource_queue_def Let_def split_beta)

lemma flush_tick_buffer:
  "buffer (fst (flush_tick cfg s))
     = fst (fst (next_batch (buffer s, stream_delivery (counters (flush_release_observations cfg s)))))"
  by (auto simp: flush_tick_def split_beta split: option.splits)

lemma step_buffer: "buffer (fst (stream_step cfg x s)) = buffer_after (step_ops x) (buffer s)"
proof (cases x)
  case (Received i)
  show ?thesis
  proof (cases i)
    case (Some y)
    with Received show ?thesis
      using buffer_step_counters(1) [of "buffer s" "stream_delivery (counters s)" "Push _" zero_counters]
      by (cases y) (auto simp: split_beta Let_def)
  qed (use Received in simp)
next
  case FlushTick
  then show ?thesis
    using buffer_step_counters(1) [of "buffer s" _ NextBatch zero_counters] by (simp add: flush_tick_buffer)
next
  case (HeartbeatTick w)
  then show ?thesis by (simp add: heartbeat_tick_def split_beta)
next
  case (Incoming i)
  show ?thesis
  proof (cases i)
    case (Some m)
    with Incoming show ?thesis
      using buffer_step_counters(1) [of "buffer s" "stream_delivery (counters s)" "Acknowledge _" zero_counters]
      by (cases m) (auto simp: split_beta Let_def acknowledge_batch_def split: option.splits)
  qed (use Incoming in simp)
qed simp_all

lemma session_buffer:
  "buffer (fst (session_loop cfg xs s)) = buffer_after (session_ops cfg xs s) (buffer s)"
proof (induction xs arbitrary: s)
  case (Cons x xs)
  show ?case using Cons [of "fst (stream_step cfg x s)"]
    by (auto simp: split_beta buffer_after_append step_buffer simp del: stream_step.simps)
qed simp

lemma replay_resource_simps [simp]:
  "buffer (replay_resource_batches cfg m s) = buffer s"
  "resource_pending (replay_resource_batches cfg m s) = resource_pending s"
  "resource_queued (replay_resource_batches cfg m s) = resource_queued s"
  "resource_sequence (replay_resource_batches cfg m s) = resource_sequence s"
proof (induction m arbitrary: s)
  case (Cons p m)
  { case 1 then show ?case using Cons by (cases p) (simp add: split_beta Let_def) }
  { case 2 then show ?case using Cons by (cases p) (simp add: split_beta Let_def) }
  { case 3 then show ?case using Cons by (cases p) (simp add: split_beta Let_def) }
  { case 4 then show ?case using Cons by (cases p) (simp add: split_beta Let_def) }
qed simp_all

lemma start_session_simps [simp]:
  "buffer (start_session cfg n s) = buffer s"
  "resource_pending (start_session cfg n s) = resource_pending s"
  "resource_queued (start_session cfg n s) = resource_queued s"
  "resource_sequence (start_session cfg n s) = resource_sequence s"
  by (auto simp: start_session_def split_beta Let_def replay_pending_def)

lemma stream_buffer:
  "buffer (run_stream cfg xs s) = buffer_after (stream_ops cfg xs s) (buffer s)"
proof (induction xs arbitrary: s)
  case (Cons x xs)
  have "fst (fst (replay_pending (b, c))) = b" for b :: "runtime_event event_buffer" and c
    by (simp add: replay_pending_def Let_def)
  with Cons show ?case
    by (auto simp: split_beta Let_def buffer_after_append session_buffer
        simp del: sleep_unless_shutdown.simps split: option.splits)
qed simp

section \<open>No event is lost\<close>

lemma acked_performed: "q \<in> set (acked xs rs) \<Longrightarrow> Acknowledge q \<in> set xs"
  unfolding acked_def
  by (induction xs rs rule: list_induct2') (auto split: buffer_op.splits buffer_out.splits bool.splits)

lemma send_open [simp]:
  "sends_left l = None \<Longrightarrow> send m l = (l\<lparr>link_sent := link_sent l @ [m]\<rparr>, True)"
  by (simp add: send_def)

lemma send_all_open:
  "sends_left l = None \<Longrightarrow> send_all ms l = (l\<lparr>link_sent := link_sent l @ ms\<rparr>, True)"
  by (induction ms arbitrary: l) (auto simp: split_beta)

lemma replay_resource_open:
  "sends_left (session_link s) = None \<Longrightarrow>
     session_link (replay_resource_batches cfg m s) = (session_link s)\<lparr>link_sent :=
       link_sent (session_link s) @ map (\<lambda>(q, xs). resource_message cfg q xs) m\<rparr>"
proof (induction m arbitrary: s)
  case (Cons p m)
  then show ?case by (cases p) (simp add: split_beta Let_def)
qed simp

lemma start_session_sends:
  "link_sent (session_link (start_session cfg None s)) =
     map (\<lambda>p. batch_message cfg (snd p)) (pending (buffer s))
     @ map (\<lambda>(q, xs). resource_message cfg q xs) (resource_pending s)"
  by (simp add: start_session_def split_beta Let_def send_all_open replay_resource_open
      replay_pending_def o_def)

text \<open>C7: No event is lost between the agent's buffer and the server. For every run of a stream,
  over any sessions, failed sends, disconnects and reconnects with fewer than \<open>2^64 - 1\<close> buffer
  operations: the events its buffer accepted, in order, are those of the batches issued, in
  order, followed by the events still queued; every batch issued has been acknowledged by the
  server or is still pending; and the next session begins by sending the pending batches, in
  order and with the same events.\<close>

theorem stream_keeps_events:
  assumes "stream_new cfg = Some s0"
    and "length (stream_ops cfg envs s0) < 2 ^ 64 - 1"
    and "rs = snd (run buffer_step (buffer s0, zero_counters) (stream_ops cfg envs s0))"
    and "s = run_stream cfg envs s0"
  shows "accepted_events (stream_ops cfg envs s0) rs = concat (map events (issued rs)) @ queued (buffer s)
    \<and> (\<forall>batch \<in> set (issued rs). Acknowledge (sequence batch) \<in> set (stream_ops cfg envs s0)
         \<or> (sequence batch, batch) \<in> set (pending (buffer s)))
    \<and> take (length (pending (buffer s))) (link_sent (session_link (start_session cfg None s)))
        = map (\<lambda>p. batch_message cfg (snd p)) (pending (buffer s))"
proof -
  from assms(1) have new: "event_buffer_new (queue_capacity cfg) (event_batch_size cfg) = Some (buffer s0)"
    by (auto simp: stream_new_def)
  have "fifo_state (stream_ops cfg envs s0) rs (buffer s)"
    using fifo_run [OF new assms(2), of zero_counters] assms(3,4)
    by (simp add: stream_buffer buffer_after_def)
  moreover from this have "Acknowledge (sequence batch) \<in> set (stream_ops cfg envs s0)
      \<or> (sequence batch, batch) \<in> set (pending (buffer s))" if "batch \<in> set (issued rs)" for batch
    using that acked_performed by (fastforce simp: fifo_state_def unacknowledged_def)
  ultimately show ?thesis by (simp add: fifo_state_def start_session_sends)
qed

text \<open>As long as sends succeed, receiving, flushing and acknowledging keep the session up.\<close>

fun keeps_open :: "stream_event \<Rightarrow> bool" where
  "keeps_open FlushTick = True"
| "keeps_open (Received (Some x)) = True"
| "keeps_open (Incoming (Some (BatchAcknowledgementMessage a))) = True"
| "keeps_open _ = False"

lemma flush_observations_open:
  "sends_left (session_link s) = None \<Longrightarrow>
     snd (flush_observations cfg xs s)
     \<and> sends_left (session_link (fst (flush_observations cfg xs s))) = None"
  by (induction xs arbitrary: s) (auto simp: split_beta)

lemma flush_release_open:
  "sends_left (session_link s) = None \<Longrightarrow>
     sends_left (session_link (flush_release_observations cfg s)) = None"
  by (simp add: flush_release_observations_def split_beta flush_observations_open)

lemma flush_resource_open:
  "sends_left (session_link s) = None \<Longrightarrow>
     snd (flush_resource_queue cfg s)
     \<and> sends_left (session_link (fst (flush_resource_queue cfg s))) = None"
  by (simp add: flush_resource_queue_def split_beta Let_def)

lemma item_link [simp]: "session_link (buffer_stream_item cfg x s) = session_link s"
  by (cases x) (auto simp: split_beta Let_def)

lemma open_step:
  assumes "keeps_open x" and "sends_left (session_link s) = None"
  shows "snd (stream_step cfg x s) = Continue
    \<and> sends_left (session_link (fst (stream_step cfg x s))) = None"
proof (cases x)
  case FlushTick
  have "sends_left (session_link (fst (on_buffer next_batch (flush_release_observations cfg s)))) = None"
    using assms(2) by (simp add: flush_release_open)
  then show ?thesis
    by (auto simp: FlushTick flush_tick_def split_beta flush_resource_open split: option.splits)
next
  case (Incoming m)
  then show ?thesis using assms
    by (cases x rule: keeps_open.cases) (auto simp: acknowledge_batch_def)
next
  case (Received i)
  then show ?thesis using assms by (cases i) (auto simp del: buffer_stream_item.simps)
qed (use assms(1) in auto)

lemma open_session:
  "list_all keeps_open xs \<Longrightarrow> sends_left (session_link s) = None \<Longrightarrow>
     snd (session_loop cfg xs s) = Continue \<and> session_ops cfg xs s = concat (map step_ops xs)
     \<and> session_ops cfg (xs @ [StreamFailed]) s = concat (map step_ops xs)
     \<and> snd (session_loop cfg (xs @ [StreamFailed]) s) = Break"
proof (induction xs arbitrary: s)
  case (Cons x xs)
  then show ?case using open_step [of x s cfg]
    by (auto simp: split_beta simp del: stream_step.simps)
qed simp

lemma start_session_open: "sends_left (session_link (start_session cfg None s)) = None"
  by (simp add: start_session_def split_beta Let_def send_all_open replay_resource_open)

definition sample_config :: stream_config where
  "sample_config = \<lparr>wire = simple_lib, queue_capacity = 3, event_batch_size = 2,
     resource_queue_capacity = 4, resource_batch_size = 2, kernel_degraded = False\<rparr>"

definition sample_stream :: stream where
  "sample_stream = \<lparr>buffer = \<lparr>capacity = 3, batch_size = 2, next_sequence = 1, queued = [], pending = []\<rparr>,
     release_pending = [], resource_queued = [], resource_pending = [], resource_sequence = 1,
     stream_backoff = backoff_default, counters = zero_stream_counters, release_dirty = True,
     session_link = \<lparr>link_sent = [], sends_left = Some 0\<rparr>\<rparr>"

lemma sample_stream_new: "stream_new sample_config = Some sample_stream"
  by (simp add: stream_new_def sample_config_def sample_stream_def event_buffer_new_def)

definition sample_session :: session_env where
  "sample_session = \<lparr>connect_rounds = (\<lambda>i. \<lparr>shutdown_seen = False, attempt = Ok None, jitter = id,
       shutdown_asleep = False, woken_by = TimerElapsed\<rparr>),
     session_events = [Received (Some (EventItem sample_event)), FlushTick,
       Received (Some (EventItem sample_event)), StreamFailed],
     lasted = 0, after_jitter = id, after_shutdown = False, after_woken = TimerElapsed\<rparr>"

lemma sample_ops:
  "stream_ops sample_config [sample_session] sample_stream
     = [Replay, Push sample_event, NextBatch, Push sample_event]"
proof -
  let ?xs = "[Received (Some (EventItem sample_event)), FlushTick, Received (Some (EventItem sample_event))]"
  have "connect (connect_rounds sample_session) 0 b [] = Some (Some None, b, [])" for b
    by (simp add: sample_session_def connect.simps [of _ 0])
  moreover have "session_events sample_session = ?xs @ [StreamFailed]" by (simp add: sample_session_def)
  moreover have "list_all keeps_open ?xs" by simp
  note open_session [OF this start_session_open, of sample_config]
  ultimately show ?thesis
    by (simp add: split_beta Let_def del: session_ops.simps session_loop.simps)
qed

lemma sample_buffer_after:
  "buffer (run_stream sample_config [sample_session] sample_stream) = \<lparr>capacity = 3, batch_size = 2,
     next_sequence = 2, queued = [sample_event],
     pending = [(1, \<lparr>sequence = 1, events = [sample_event]\<rparr>)]\<rparr>"
  unfolding stream_buffer sample_ops
  by (simp add: sample_stream_def push_def next_batch_def replay_pending_def occupied_def
      pending_events_def Let_def saturating_add_def)

theorem stream_keeps_events_witness:
  "let ops = stream_ops sample_config [sample_session] sample_stream;
       rs = snd (run buffer_step (buffer sample_stream, zero_counters) ops);
       s = run_stream sample_config [sample_session] sample_stream
   in accepted_events ops rs = [sample_event, sample_event]
      \<and> accepted_events ops rs = concat (map events (issued rs)) @ queued (buffer s)
      \<and> pending (buffer s) = [(1, \<lparr>sequence = 1, events = [sample_event]\<rparr>)]
      \<and> (\<forall>batch \<in> set (issued rs). (sequence batch, batch) \<in> set (pending (buffer s)))"
proof -
  let ?ops = "stream_ops sample_config [sample_session] sample_stream"
  let ?rs = "snd (run buffer_step (buffer sample_stream, zero_counters) ?ops)"
  let ?s = "run_stream sample_config [sample_session] sample_stream"
  have "length ?ops < 2 ^ 64 - 1" unfolding sample_ops by simp
  note claim = stream_keeps_events [OF sample_stream_new this refl refl]
  have "accepted_events ?ops ?rs = [sample_event, sample_event]"
    unfolding sample_ops by (simp add: sample_stream_def accepted_events_def push_def next_batch_def
        replay_pending_def occupied_def pending_events_def Let_def)
  moreover have "pending (buffer ?s) = [(1, \<lparr>sequence = 1, events = [sample_event]\<rparr>)]"
    by (simp only: sample_buffer_after event_buffer.simps)
  moreover have "\<forall>batch. Acknowledge (sequence batch) \<notin> set ?ops" unfolding sample_ops by simp
  ultimately show ?thesis using claim unfolding Let_def by blast
qed

section \<open>A session with a responsive server empties the buffer\<close>

abbreviation acked_by_server :: "batch_acknowledgement \<Rightarrow> stream_event" where
  "acked_by_server a \<equiv> Incoming (Some (BatchAcknowledgementMessage a))"

fun drain_rounds :: "(u64 \<Rightarrow> batch_acknowledgement) \<Rightarrow> u64 \<Rightarrow> nat \<Rightarrow> stream_event list" where
  "drain_rounds ack q 0 = []"
| "drain_rounds ack q (Suc n) = FlushTick # acked_by_server (ack q) # drain_rounds ack (q + 1) n"

definition drain_plan ::
    "(u64 \<Rightarrow> batch_acknowledgement) \<Rightarrow> runtime_event event_buffer \<Rightarrow> nat \<Rightarrow> stream_event list" where
  "drain_plan ack b n =
     map (\<lambda>q. acked_by_server (ack q)) (keys (pending b)) @ drain_rounds ack (next_sequence b) n"

lemma acknowledge_many:
  "buffer_after (map Acknowledge qs) b = b\<lparr>pending := filter (\<lambda>p. fst p \<notin> set qs) (pending b)\<rparr>"
proof (induction qs arbitrary: b)
  case (Cons q qs)
  have "fst (fst (acknowledge q (b, zero_counters))) = b\<lparr>pending := filter (\<lambda>p. fst p \<noteq> q) (pending b)\<rparr>"
  proof (cases "map_of (pending b) q")
    case None
    then have "filter (\<lambda>p. fst p \<noteq> q) (pending b) = pending b"
      by (force simp: map_of_eq_None_iff filter_id_conv)
    with None show ?thesis by (simp add: acknowledge_def)
  qed (simp add: acknowledge_def delete_filter)
  with Cons show ?case by (simp add: conj_commute)
qed simp

lemma drain_rounds_buffer:
  assumes "pending b = []" and "queued b \<noteq> [] \<longrightarrow> next_sequence b = q" and "unat q + n < 2 ^ 64"
    and "\<forall>q. ba_sequence (ack q) = q"
  shows "pending (buffer_after (concat (map step_ops (drain_rounds ack q n))) b) = []
    \<and> queued (buffer_after (concat (map step_ops (drain_rounds ack q n))) b)
        = drop (n * batch_size b) (queued b)"
  using assms
proof (induction n arbitrary: b q)
  case (Suc n)
  define b1 where "b1 = fst (fst (next_batch (b, zero_counters)))"
  define b2 where "b2 = fst (fst (acknowledge q (b1, zero_counters)))"
  have q: "unat (q + 1) = Suc (unat q)" "saturating_add q 1 = q + 1"
    using Suc.prems(3) by (simp_all add: saturating_add_def unat_plus_no_wrap)
  have "pending b2 = [] \<and> queued b2 = drop (batch_size b) (queued b) \<and> batch_size b2 = batch_size b
      \<and> (queued b2 \<noteq> [] \<longrightarrow> next_sequence b2 = q + 1)"
    using Suc.prems(1,2) q
    by (cases "queued b = []") (auto simp: b1_def b2_def next_batch_def acknowledge_def Let_def min_def)
  with Suc.IH [of b2 "q + 1"] Suc.prems q show ?case
    by (simp add: b1_def b2_def drop_drop add.commute)
qed simp



section \<open>Resource batches whose send failed\<close>

lemma flush_resource_send:
  assumes "resource_queued s = xs" and "xs \<noteq> []" and "length xs \<le> resource_batch_size cfg"
    and "length xs + resource_pending_count s \<le> resource_queue_capacity cfg"
  shows "flush_resource_queue cfg s =
    (let m = resource_message cfg (resource_sequence s) xs;
         s1 = s\<lparr>resource_queued := [],
                resource_pending := bt_insert (resource_sequence s) xs (resource_pending s),
                session_link := fst (send m (session_link s))\<rparr>
     in if snd (send m (session_link s))
        then (s1\<lparr>resource_sequence := saturating_add (resource_sequence s) 1\<rparr>, True)
        else (s1, False))"
proof -
  from assms have "0 < resource_queue_capacity cfg - resource_pending_count s"
    "min (min (length xs) (resource_batch_size cfg)) (resource_queue_capacity cfg - resource_pending_count s)
       = length xs"
    by (cases xs; simp)+
  with assms(1,2) show ?thesis
    by (simp add: flush_resource_queue_def Let_def send_on_def split_beta)
qed


definition sample_aggregate :: "uuid \<Rightarrow> resource_aggregate" where
  "sample_aggregate n = \<lparr>ra_id = n, ra_schema_version = 1, interval_start = 0,
     interval_end = 1000000000, covered_usec = 1000000, sample_count = 1, contributing_containers = 1,
     ready_containers = 1, ra_namespace = ''ns'', ra_workload_uid = ''w'',
     ra_workload_kind = ''Deployment'', ra_workload_name = ''web'', ra_container_name = ''app'',
     ra_node_name = ''n'', ra_release_identity = None, unavailable_sources = 0,
     ra_values = resource_values_default\<rparr>"


end
