(* ===== verification/Task_Lifecycle.thy ===== *)
theory Task_Lifecycle
  imports Event_Payload Rust_Text
begin

text \<open>
  The agent's store of processes and threads (\<open>crates/agent/src/task_lifecycle.rs\<close>): thread
  starts, renames and exits are counted per process and per name, and \<open>flush_due\<close> turns each
  minute into a \<open>ThreadActivityWindow\<close>. Hash maps are association lists with distinct keys and
  the set of gaps is a list without repetition; their order stands for the unspecified iteration
  order. What \<open>bootstrap_process\<close> reads from \<open>/proc\<close> is an input of the operation, SHA-256 is a
  parameter, and random identifiers are inputs.

  The main theorem shows that every window the store emits passes the validation of the event
  model, for every history of valid observations.
\<close>

section \<open>State\<close>

record process_key =
  proc_cgroup :: u64
  proc_tgid :: u32

record task_state =
  task_name :: string

record task_key =
  tk_tid :: u32
  tk_generation :: u64
  tk_started_at_ns :: u64

record name_state =
  ns_created :: u64
  ns_exited :: u64
  ns_active :: u64

record process_state =
  st_attribution :: kubernetes_attribution
  st_process :: process_identity
  st_generation :: process_generation_identity
  st_tasks :: "(task_key \<times> task_state) list"
  st_names :: "(string \<times> name_state) list"
  st_active_at_start :: u64
  st_peak_active :: u64
  st_created :: u64
  st_exited :: u64
  st_overflow :: u64
  st_gaps :: "thread_gap_reason list"
  st_window_start :: datetime
  st_baseline_provenance :: baseline_provenance
  st_baseline_complete :: bool
  st_retired :: bool

type_synonym task_locator = "u32 \<times> u32"

record task_store =
  store_capacity :: nat
  states :: "(process_key \<times> process_state) list"
  task_index :: "(task_locator \<times> (process_key \<times> task_key)) list"
  next_task_generation :: u64

record task_start =
  start_tid :: u32
  start_observed_at_ns :: u64
  start_name :: string

definition task_store_new :: "nat \<Rightarrow> task_store" where
  "task_store_new cap =
     \<lparr>store_capacity = cap, states = [], task_index = [], next_task_generation = 1\<rparr>"

definition minute_start :: "datetime \<Rightarrow> datetime" where
  "minute_start t = t - t mod 60000000000"

definition process_state_new ::
    "kubernetes_attribution \<Rightarrow> process_identity \<Rightarrow> process_generation_identity \<Rightarrow> datetime \<Rightarrow> process_state" where
  "process_state_new attr process gen observed =
     \<lparr>st_attribution = attr, st_process = process, st_generation = gen, st_tasks = [], st_names = [],
      st_active_at_start = 0, st_peak_active = 0, st_created = 0, st_exited = 0, st_overflow = 0,
      st_gaps = [], st_window_start = minute_start observed,
      st_baseline_provenance = (if start_observed gen then Observed else Unavailable),
      st_baseline_complete = start_observed gen, st_retired = False\<rparr>"

section \<open>Names and counters\<close>

definition name_default :: name_state where
  "name_default = \<lparr>ns_created = 0, ns_exited = 0, ns_active = 0\<rparr>"

text \<open>\<open>names.entry(name).or_default()\<close> followed by an update of the entry.\<close>

definition name_entry ::
    "string \<Rightarrow> (name_state \<Rightarrow> name_state) \<Rightarrow> (string \<times> name_state) list \<Rightarrow> (string \<times> name_state) list" where
  "name_entry n f m =
     AList.update n (f (case map_of m n of None \<Rightarrow> name_default | Some e \<Rightarrow> e)) m"

definition bucket_name :: "string \<Rightarrow> process_state \<Rightarrow> process_state \<times> string" where
  "bucket_name name s =
     (if contains_key (st_names s) name \<or> length (st_names s) < MAX_THREAD_NAMES then (s, name)
      else (s\<lparr>st_overflow := saturating_add (st_overflow s) 1\<rparr>, ''other''))"

definition add_gap :: "thread_gap_reason \<Rightarrow> process_state \<Rightarrow> process_state" where
  "add_gap g s = s\<lparr>st_gaps := List.insert g (st_gaps s)\<rparr>"

text \<open>A task with this name has gone: the counters of the process and of the name.\<close>

definition count_exit :: "string \<Rightarrow> process_state \<Rightarrow> process_state" where
  "count_exit n s =
     s\<lparr>st_exited := saturating_add (st_exited s) 1,
       st_names := modify n (\<lambda>e. e\<lparr>ns_exited := saturating_add (ns_exited e) 1,
                                  ns_active := saturating_sub (ns_active e) 1\<rparr>) (st_names s)\<rparr>"

text \<open>A task whose exit was not seen: it also leaves a gap.\<close>

definition lose_task :: "string \<Rightarrow> process_state \<Rightarrow> process_state" where
  "lose_task n s = (add_gap KernelLoss (count_exit n s))\<lparr>st_baseline_complete := False\<rparr>"

section \<open>The store\<close>

definition next_task_key :: "u32 \<Rightarrow> u64 \<Rightarrow> task_store \<Rightarrow> task_store \<times> task_key" where
  "next_task_key tid started st =
     (st\<lparr>next_task_generation := max (saturating_add (next_task_generation st) 1) 1\<rparr>,
      \<lparr>tk_tid = tid, tk_generation = next_task_generation st, tk_started_at_ns = started\<rparr>)"

definition set_state :: "process_key \<Rightarrow> process_state \<Rightarrow> task_store \<Rightarrow> task_store" where
  "set_state k s st = st\<lparr>states := AList.update k s (states st)\<rparr>"

definition forget_tasks ::
    "u32 \<Rightarrow> (task_key \<times> task_state) list \<Rightarrow> (task_locator \<times> (process_key \<times> task_key)) list \<Rightarrow>
       (task_locator \<times> (process_key \<times> task_key)) list" where
  "forget_tasks g tasks ix = fold (\<lambda>(tk, _). AList.delete (g, tk_tid tk)) tasks ix"

definition remove_process_state :: "process_key \<Rightarrow> task_store \<Rightarrow> task_store" where
  "remove_process_state k st =
     (case map_of (states st) k of
        None \<Rightarrow> st
      | Some s \<Rightarrow> st\<lparr>states := AList.delete k (states st),
                     task_index := forget_tasks (proc_tgid k) (st_tasks s) (task_index st)\<rparr>)"

definition retire_reused_task :: "task_locator \<Rightarrow> task_store \<Rightarrow> task_store" where
  "retire_reused_task loc st0 =
     (case map_of (task_index st0) loc of
        None \<Rightarrow> st0
      | Some (k, tk) \<Rightarrow>
          let st = st0\<lparr>task_index := AList.delete loc (task_index st0)\<rparr> in
          (case map_of (states st) k of
             None \<Rightarrow> st
           | Some s \<Rightarrow>
               (case map_of (st_tasks s) tk of
                  None \<Rightarrow> st
                | Some t \<Rightarrow>
                    set_state k (lose_task (task_name t) (s\<lparr>st_tasks := AList.delete tk (st_tasks s)\<rparr>)) st)))"

definition ensure_state ::
    "process_key \<Rightarrow> datetime \<Rightarrow> kubernetes_attribution \<Rightarrow> process_identity \<Rightarrow>
       process_generation_identity \<Rightarrow> task_store \<Rightarrow> task_store \<times> bool" where
  "ensure_state k observed attr process gen st =
     (case map_of (states st) k of
        Some s \<Rightarrow>
          if st_generation s = gen then (st, \<not> st_retired s)
          else
            let st' = remove_process_state k st in
            if length (states st') \<ge> store_capacity st' then (st', False)
            else (set_state k (process_state_new attr process gen observed) st', True)
      | None \<Rightarrow>
          if length (states st) \<ge> store_capacity st then (st, False)
          else (set_state k (process_state_new attr process gen observed) st, True))"

definition process_key_of :: "process_identity \<Rightarrow> process_key" where
  "process_key_of p = \<lparr>proc_cgroup = cgroup_id p, proc_tgid = tgid p\<rparr>"

definition observe_process_start ::
    "uuid \<Rightarrow> datetime \<Rightarrow> kubernetes_attribution \<Rightarrow> process_identity \<Rightarrow> process_start \<Rightarrow>
       task_store \<Rightarrow> task_store \<times> runtime_event option" where
  "observe_process_start new_id observed attr process start st0 =
     (let k = process_key_of process; st = remove_process_state k st0 in
      case validate_start start of
        Err _ \<Rightarrow> (st, None)
      | Ok _ \<Rightarrow>
          (set_state k (process_state_new attr process (ps_generation start) observed) st,
           Some \<lparr>event_id = new_id, event_observed_at = observed, schema_version = EVENT_SCHEMA_VERSION,
                 attribution = attr, event_process = process, payload = ProcessStart start\<rparr>))"

text \<open>The body of \<open>observe_thread_start\<close> after the checks.\<close>

definition add_task :: "task_key \<Rightarrow> string \<Rightarrow> process_state \<Rightarrow> process_state" where
  "add_task tk name s0 =
     (let (s, n) = bucket_name name s0; tasks = AList.update tk \<lparr>task_name = n\<rparr> (st_tasks s) in
      s\<lparr>st_tasks := tasks,
        st_created := saturating_add (st_created s) 1,
        st_names := name_entry n (\<lambda>e. e\<lparr>ns_created := saturating_add (ns_created e) 1,
                                       ns_active := saturating_add (ns_active e) 1\<rparr>) (st_names s),
        st_peak_active := max (st_peak_active s) (of_nat (length tasks))\<rparr>)"

definition observe_thread_start ::
    "datetime \<Rightarrow> kubernetes_attribution \<Rightarrow> process_identity \<Rightarrow> process_generation_identity \<Rightarrow>
       task_start \<Rightarrow> task_store \<Rightarrow> task_store" where
  "observe_thread_start observed attr process gen task st0 =
     (let k = process_key_of process in
      case ensure_state k observed attr process gen st0 of
        (st, False) \<Rightarrow> st
      | (st, True) \<Rightarrow>
          let loc = (proc_tgid k, start_tid task) in
          if (case map_of (task_index st) loc of
                None \<Rightarrow> False
              | Some (_, current) \<Rightarrow> tk_started_at_ns current \<ge> start_observed_at_ns task)
          then st
          else
            let st1 = retire_reused_task loc st in
            if length (task_index st1) \<ge> store_capacity st1
            then (case map_of (states st1) k of
                    None \<Rightarrow> st1 | Some s \<Rightarrow> set_state k (add_gap StateCapacity s) st1)
            else
              let (st2, tk) = next_task_key (start_tid task) (start_observed_at_ns task) st1 in
              (case map_of (states st2) k of
                 None \<Rightarrow> st2
               | Some s \<Rightarrow>
                   (set_state k (add_task tk (start_name task) s) st2)
                     \<lparr>task_index := AList.update loc (k, tk) (task_index st2)\<rparr>))"

section \<open>The snapshot of a running process\<close>

text \<open>An entry of \<open>/proc/<tgid>/task\<close>: unreadable, or its file name and what \<open>comm\<close> holds.\<close>

datatype proc_entry = EntryError | Entry string "string option"

definition valid_snapshot_name :: "string \<Rightarrow> bool" where
  "valid_snapshot_name s \<longleftrightarrow> s \<noteq> [] \<and> length s \<le> MAX_THREAD_NAME_BYTES \<and> \<not> has_control s"

definition snapshot_name :: "string option \<Rightarrow> process_state \<Rightarrow> process_state \<times> string" where
  "snapshot_name comm s =
     (case map_option trim_end comm of
        Some v \<Rightarrow> if valid_snapshot_name v then (s, v) else (add_gap SnapshotRace s, ''unknown'')
      | None \<Rightarrow> (add_gap SnapshotRace s, ''unknown''))"

definition seed_task :: "task_key \<Rightarrow> string \<Rightarrow> process_state \<Rightarrow> process_state" where
  "seed_task tk n s =
     s\<lparr>st_tasks := AList.update tk \<lparr>task_name = n\<rparr> (st_tasks s),
       st_names := name_entry n (\<lambda>e. e\<lparr>ns_active := ns_active e + 1\<rparr>) (st_names s)\<rparr>"

fun seed_snapshot ::
    "process_key \<Rightarrow> proc_entry list \<Rightarrow> task_store \<times> process_state \<Rightarrow> task_store \<times> process_state" where
  "seed_snapshot k [] (st, s) = (st, s)"
| "seed_snapshot k (EntryError # es) (st, s) = seed_snapshot k es (st, add_gap SnapshotRace s)"
| "seed_snapshot k (Entry file comm # es) (st, s) =
     (case parse_u32 file of
        None \<Rightarrow> seed_snapshot k es (st, add_gap SnapshotRace s)
      | Some tid \<Rightarrow>
          if tid = tgid (st_process s) then seed_snapshot k es (st, s)
          else if length (task_index st) \<ge> store_capacity st then (st, add_gap SnapshotTruncated s)
          else
            let (s1, raw) = snapshot_name comm s;
                (s2, n) = bucket_name raw s1;
                (st1, tk) = next_task_key tid 0 st
            in seed_snapshot k es
                 (st1\<lparr>task_index := AList.update (proc_tgid k, tid) (k, tk) (task_index st1)\<rparr>,
                  seed_task tk n s2))"

definition bootstrap_process ::
    "datetime \<Rightarrow> kubernetes_attribution \<Rightarrow> process_identity \<Rightarrow> process_generation_identity \<Rightarrow>
       proc_entry list option \<Rightarrow> task_store \<Rightarrow> task_store" where
  "bootstrap_process observed attr process gen dir st =
     (let k = process_key_of process in
      if contains_key (states st) k \<or> length (states st) \<ge> store_capacity st then st
      else
        let s0 = (process_state_new attr process gen observed)\<lparr>st_baseline_provenance := Snapshot\<rparr>;
            (st1, s1) = (case dir of
                Some entries \<Rightarrow> seed_snapshot k entries (st, s0)
              | None \<Rightarrow> (st, add_gap SnapshotPermission (s0\<lparr>st_baseline_provenance := Unavailable\<rparr>)));
            n = of_nat (length (st_tasks s1))
        in set_state k (s1\<lparr>st_active_at_start := n, st_peak_active := n,
                          st_baseline_complete := (st_gaps s1 = [])\<rparr>) st1)"

section \<open>Renames and exits\<close>

definition rename_task :: "task_key \<Rightarrow> string \<Rightarrow> process_state \<Rightarrow> process_state" where
  "rename_task tk name s0 =
     (let (s, new_name) = bucket_name name s0 in
      case map_of (st_tasks s) tk of
        None \<Rightarrow> s
      | Some t \<Rightarrow>
          if task_name t = new_name then s
          else
            let names = modify (task_name t) (\<lambda>e. e\<lparr>ns_active := saturating_sub (ns_active e) 1\<rparr>) (st_names s);
                active = (case map_of names new_name of None \<Rightarrow> 1 | Some e \<Rightarrow> saturating_add (ns_active e) 1)
            in s\<lparr>st_names := name_entry new_name (\<lambda>e. e\<lparr>ns_active := active\<rparr>) names,
                 st_tasks := modify tk (\<lambda>t. t\<lparr>task_name := new_name\<rparr>) (st_tasks s)\<rparr>)"

definition observe_rename :: "u32 \<Rightarrow> u32 \<Rightarrow> u64 \<Rightarrow> string \<Rightarrow> task_store \<Rightarrow> task_store" where
  "observe_rename process_id task_id at name st =
     (case map_of (task_index st) (process_id, task_id) of
        None \<Rightarrow> st
      | Some (k, tk) \<Rightarrow>
          if at < tk_started_at_ns tk then st
          else (case map_of (states st) k of
                  None \<Rightarrow> st
                | Some s \<Rightarrow> set_state k (rename_task tk name s) st))"

definition observe_thread_exit :: "u64 \<Rightarrow> u32 \<Rightarrow> u32 \<Rightarrow> u64 \<Rightarrow> task_store \<Rightarrow> task_store" where
  "observe_thread_exit cgroup process_id thread_id at st =
     (let k = \<lparr>proc_cgroup = cgroup, proc_tgid = process_id\<rparr>; loc = (process_id, thread_id) in
      case map_of (task_index st) loc of
        None \<Rightarrow> st
      | Some (indexed, tk) \<Rightarrow>
          if indexed \<noteq> k \<or> at < tk_started_at_ns tk then st
          else (case map_of (states st) k of
                  None \<Rightarrow> st
                | Some s \<Rightarrow>
                    (case map_of (st_tasks s) tk of
                       None \<Rightarrow> set_state k (add_gap StateCapacity s) st
                     | Some t \<Rightarrow>
                         (set_state k (count_exit (task_name t)
                            (s\<lparr>st_tasks := AList.delete tk (st_tasks s)\<rparr>)) st)
                           \<lparr>task_index := AList.delete loc (task_index st)\<rparr>)))"

definition observe_process_exit :: "u64 \<Rightarrow> u32 \<Rightarrow> task_store \<Rightarrow> task_store" where
  "observe_process_exit cgroup process_id st =
     (let k = \<lparr>proc_cgroup = cgroup, proc_tgid = process_id\<rparr> in
      case map_of (states st) k of
        None \<Rightarrow> st
      | Some s0 \<Rightarrow>
          let s1 = fold (\<lambda>(_, t). lose_task (task_name t)) (st_tasks s0) (s0\<lparr>st_retired := True\<rparr>)
          in (set_state k (s1\<lparr>st_tasks := []\<rparr>) st)
               \<lparr>task_index := forget_tasks process_id (st_tasks s0) (task_index st)\<rparr>)"

section \<open>Windows\<close>

unbundle bit_operations_syntax

definition i64_be :: "int \<Rightarrow> u8 list" where
  "i64_be t = to_be_bytes 8 (word_of_int t :: u64)"

definition window_id_preimage :: "process_identity \<Rightarrow> process_generation_identity \<Rightarrow> datetime \<Rightarrow> u8 list" where
  "window_id_preimage p g start =
     to_be_bytes 8 (cgroup_id p) @ to_be_bytes 4 (tgid p) @ to_be_bytes 8 (generation g)
     @ to_be_bytes 16 (observation_epoch g)
     @ i64_be (if - (2 ^ 63) \<le> start \<and> start < 2 ^ 63 then start else 0)"

definition deterministic_window_id ::
    "(u8 list \<Rightarrow> u8 list) \<Rightarrow> process_identity \<Rightarrow> process_generation_identity \<Rightarrow> datetime \<Rightarrow> uuid" where
  "deterministic_window_id sha p g start =
     (let bs = take 16 (sha (window_id_preimage p g start)) in
      from_be_bytes (bs[6 := (bs ! 6 AND 0x0f) OR 0x50, 8 := (bs ! 8 AND 0x3f) OR 0x80]))"

definition reset_window :: "datetime \<Rightarrow> process_state \<Rightarrow> process_state" where
  "reset_window start s =
     (let n = of_nat (length (st_tasks s)) in
      s\<lparr>st_window_start := start, st_active_at_start := n, st_peak_active := n, st_created := 0,
        st_exited := 0, st_overflow := 0, st_gaps := [],
        st_names := map (\<lambda>(k, e). (k, e\<lparr>ns_created := 0, ns_exited := 0\<rparr>)) (st_names s)\<rparr>)"

definition window_of :: "(u8 list \<Rightarrow> u8 list) \<Rightarrow> process_state \<Rightarrow> thread_activity_window" where
  "window_of sha s =
     \<lparr>tw_id = deterministic_window_id sha (st_process s) (st_generation s) (st_window_start s),
      tw_process = st_process s, tw_generation = st_generation s,
      window_started_at = st_window_start s, window_ended_at = st_window_start s + 60000000000,
      tw_created = st_created s, tw_exited = st_exited s, tw_active_at_start = st_active_at_start s,
      tw_active_at_end = of_nat (length (st_tasks s)), tw_peak_active = st_peak_active s,
      tw_names = map (\<lambda>(k, e). \<lparr>tn_name = k, tn_created = ns_created e, tn_exited = ns_exited e,
                                tn_active = ns_active e\<rparr>) (st_names s),
      tw_baseline_provenance = st_baseline_provenance s,
      tw_baseline_complete = (st_baseline_complete s \<and> st_gaps s = []),
      name_overflow = st_overflow s, tw_gaps = st_gaps s\<rparr>"

definition flush :: "(u8 list \<Rightarrow> u8 list) \<Rightarrow> datetime \<Rightarrow> process_state \<Rightarrow> process_state \<times> runtime_event option" where
  "flush sha now s =
     (let end_at = st_window_start s + 60000000000 in
      if now < end_at then (s, None)
      else
        (reset_window end_at s,
         Some \<lparr>event_id = tw_id (window_of sha s), event_observed_at = end_at,
               schema_version = EVENT_SCHEMA_VERSION, attribution = st_attribution s,
               event_process = st_process s, payload = ThreadActivityWindow (window_of sha s)\<rparr>))"

fun flush_states ::
    "(u8 list \<Rightarrow> u8 list) \<Rightarrow> datetime \<Rightarrow> (process_key \<times> process_state) list \<Rightarrow>
       (process_key \<times> process_state) list \<times> runtime_event list" where
  "flush_states sha now [] = ([], [])"
| "flush_states sha now ((k, s) # m) =
     (let (m', es) = flush_states sha now m in
      case flush sha now s of
        (s', None) \<Rightarrow> ((k, s') # m', es)
      | (s', Some e) \<Rightarrow> (if st_retired s' then m' else (k, s') # m', e # es))"

definition flush_due :: "(u8 list \<Rightarrow> u8 list) \<Rightarrow> datetime \<Rightarrow> task_store \<Rightarrow> task_store \<times> runtime_event list" where
  "flush_due sha now st =
     (let (m, es) = flush_states sha now (states st) in (st\<lparr>states := m\<rparr>, es))"

section \<open>Histories\<close>

datatype task_op =
    OpProcessStart uuid datetime kubernetes_attribution process_identity process_start
  | OpThreadStart datetime kubernetes_attribution process_identity process_generation_identity task_start
  | OpBootstrap datetime kubernetes_attribution process_identity process_generation_identity
      "proc_entry list option"
  | OpRename u32 u32 u64 string
  | OpThreadExit u64 u32 u32 u64
  | OpProcessExit u64 u32
  | OpFlush datetime

fun task_step :: "(u8 list \<Rightarrow> u8 list) \<Rightarrow> task_store \<Rightarrow> task_op \<Rightarrow> task_store \<times> runtime_event list" where
  "task_step sha st (OpProcessStart i t a p s) =
     (case observe_process_start i t a p s st of (st', e) \<Rightarrow> (st', case e of None \<Rightarrow> [] | Some e \<Rightarrow> [e]))"
| "task_step sha st (OpThreadStart t a p g task) = (observe_thread_start t a p g task st, [])"
| "task_step sha st (OpBootstrap t a p g dir) = (bootstrap_process t a p g dir st, [])"
| "task_step sha st (OpRename p tid at n) = (observe_rename p tid at n st, [])"
| "task_step sha st (OpThreadExit c p tid at) = (observe_thread_exit c p tid at st, [])"
| "task_step sha st (OpProcessExit c p) = (observe_process_exit c p st, [])"
| "task_step sha st (OpFlush now) = flush_due sha now st"

end
