(* ===== verification/Task_Windows.thy ===== *)
theory Task_Windows
  imports Task_Lifecycle
begin

text \<open>
  The invariant of the task store and the validity of the windows it emits. \<open>names_inv\<close> ties the
  counters of the names to the tasks and totals of a process, \<open>balance_inv\<close> is the balance of the
  current minute, \<open>shape_inv\<close> collects what the validation asks of identifiers, names and gaps.
  Each operation on a process state has a lemma for each of them; the store follows.
\<close>

section \<open>Sums over association lists\<close>

definition msum :: "('v \<Rightarrow> nat) \<Rightarrow> ('k \<times> 'v) list \<Rightarrow> nat" where
  "msum f m = sum_list (map (f \<circ> snd) m)"

lemma msum_Nil [simp]: "msum f [] = 0"
  and msum_Cons [simp]: "msum f (p # m) = f (snd p) + msum f m"
  and msum_append [simp]: "msum f (m @ m') = msum f m + msum f m'"
  by (simp_all add: msum_def)

lemma msum_update:
  "distinct (keys m) \<Longrightarrow>
     msum f (AList.update k v m) + (case map_of m k of None \<Rightarrow> 0 | Some w \<Rightarrow> f w) = msum f m + f v"
  by (induction m) (auto split: option.splits)

lemma msum_delete:
  "distinct (keys m) \<Longrightarrow> map_of m k = Some w \<Longrightarrow> msum f (AList.delete k m) + f w = msum f m"
proof (induction m)
  case (Cons p m)
  have "AList.delete k m = m" if "k \<notin> set (keys m)"
    using that by (auto simp: delete_filter filter_id_conv)
  with Cons show ?case by (auto split: if_splits)
qed simp

lemma modify_absent: "k \<notin> set (keys m) \<Longrightarrow> modify k f m = m"
  by (induction m) (auto simp: modify_def)

lemma modify_update:
  "distinct (keys m) \<Longrightarrow> map_of m k = Some v \<Longrightarrow> modify k f m = AList.update k (f v) m"
proof (induction m)
  case (Cons p m)
  show ?case
  proof (cases "fst p = k")
    case True
    with Cons.prems modify_absent [of k m f] show ?thesis by (cases p) (auto simp: modify_def)
  next
    case False
    with Cons show ?thesis by (cases p) (auto simp: modify_def)
  qed
qed simp

lemma msum_modify:
  "distinct (keys m) \<Longrightarrow> map_of m k = Some v \<Longrightarrow>
     msum f (modify k g m) + f v = msum f m + f (g v)"
  using msum_update [of m f k "g v"] by (simp add: modify_update)

text \<open>Summing a value per key, over the keys of the list.\<close>

lemma msum_keys:
  "distinct (keys m) \<Longrightarrow> msum f m = (\<Sum>k \<in> set (keys m). case map_of m k of None \<Rightarrow> 0 | Some v \<Rightarrow> f v)"
proof (induction m)
  case (Cons p m)
  have "map_of (p # m) k = map_of m k" if "k \<in> set (keys m)" for k
    using Cons.prems that by (cases p) auto
  then have "(\<Sum>k \<in> set (keys m). case map_of (p # m) k of None \<Rightarrow> 0 | Some v \<Rightarrow> f v)
      = (\<Sum>k \<in> set (keys m). case map_of m k of None \<Rightarrow> 0 | Some v \<Rightarrow> f v)"
    by (intro sum.cong refl) simp
  with Cons show ?case by (cases p) simp
qed simp

section \<open>Names and tasks\<close>

definition named :: "string \<Rightarrow> (task_key \<times> task_state) list \<Rightarrow> nat" where
  "named n ts = msum (\<lambda>t. if task_name t = n then 1 else 0) ts"

definition active_of :: "(string \<times> name_state) list \<Rightarrow> string \<Rightarrow> nat" where
  "active_of m n = (case map_of m n of None \<Rightarrow> 0 | Some e \<Rightarrow> unat (ns_active e))"

definition names_inv :: "process_state \<Rightarrow> bool" where
  "names_inv s \<longleftrightarrow>
     distinct (keys (st_tasks s)) \<and> distinct (keys (st_names s))
     \<and> (\<forall>n. active_of (st_names s) n = named n (st_tasks s))
     \<and> msum (unat \<circ> ns_created) (st_names s) = unat (st_created s)
     \<and> msum (unat \<circ> ns_exited) (st_names s) = unat (st_exited s)"

definition balance_inv :: "nat \<Rightarrow> process_state \<Rightarrow> bool" where
  "balance_inv w s \<longleftrightarrow>
     unat (st_active_at_start s) + unat (st_created s) = unat (st_exited s) + length (st_tasks s)
     \<and> unat (st_active_at_start s) \<le> unat (st_peak_active s)
     \<and> length (st_tasks s) \<le> unat (st_peak_active s)
     \<and> unat (st_peak_active s) \<le> unat (st_active_at_start s) + unat (st_created s)
     \<and> unat (st_active_at_start s) + unat (st_created s) \<le> w"

definition process_ok :: "process_identity \<Rightarrow> bool" where
  "process_ok p \<longleftrightarrow> cgroup_id p \<noteq> 0 \<and> pid p \<noteq> 0 \<and> pid p = tgid p"

definition shape_inv :: "u64 \<Rightarrow> process_state \<Rightarrow> bool" where
  "shape_inv g s \<longleftrightarrow>
     (length (st_names s) \<le> 64 \<or> (length (st_names s) = 65 \<and> ''other'' \<in> set (keys (st_names s))))
     \<and> (\<forall>n \<in> set (keys (st_names s)). valid_name n)
     \<and> distinct (st_gaps s) \<and> (st_baseline_complete s \<longrightarrow> st_baseline_provenance s \<noteq> Unavailable)
     \<and> process_ok (st_process s) \<and> validate_generation (st_generation s) = Ok ()
     \<and> (\<forall>tk \<in> set (keys (st_tasks s)). unat (tk_generation tk) < unat g)"

lemma named_le: "named n ts \<le> length ts"
  by (induction ts) (auto simp: named_def)

lemma named_total:
  assumes "distinct ns" and "\<And>n. 0 < named n ts \<Longrightarrow> n \<in> set ns"
  shows "(\<Sum>n \<in> set ns. named n ts) = length ts"
  using assms(2)
proof (induction ts)
  case (Cons p ts)
  let ?n = "task_name (snd p)"
  have "0 < named ?n (p # ts)" by (simp add: named_def)
  then have mem: "?n \<in> set ns" by (rule Cons.prems)
  have "0 < named n ts \<Longrightarrow> n \<in> set ns" for n
    using Cons.prems [of n] by (simp add: named_def)
  then have ih: "(\<Sum>n \<in> set ns. named n ts) = length ts" by (rule Cons.IH)
  have "(\<Sum>n \<in> set ns. named n (p # ts)) = (\<Sum>n \<in> set ns. if n = ?n then 1 else 0) + (\<Sum>n \<in> set ns. named n ts)"
    unfolding sum.distrib [symmetric] by (rule sum.cong) (auto simp: named_def)
  also have "(\<Sum>n \<in> set ns. if n = ?n then 1 else 0 :: nat) = 1" using mem by simp
  finally show ?case using ih by simp
qed (simp add: named_def)

text \<open>The active counters of all names add up to the number of tasks.\<close>

lemma active_total:
  assumes "names_inv s"
  shows "msum (unat \<circ> ns_active) (st_names s) = length (st_tasks s)"
proof -
  have inv: "distinct (keys (st_names s))" "\<And>n. active_of (st_names s) n = named n (st_tasks s)"
    using assms by (auto simp: names_inv_def)
  have "n \<in> set (keys (st_names s))" if "0 < named n (st_tasks s)" for n
  proof (rule ccontr)
    assume "n \<notin> set (keys (st_names s))"
    then have "map_of (st_names s) n = None" by (simp add: map_of_eq_None_iff)
    then have "active_of (st_names s) n = 0" by (simp add: active_of_def)
    with that inv(2) [of n] show False by simp
  qed
  then have "(\<Sum>n \<in> set (keys (st_names s)). named n (st_tasks s)) = length (st_tasks s)"
    using inv(1) by (rule named_total [rotated])
  moreover have "msum (unat \<circ> ns_active) (st_names s) = (\<Sum>n \<in> set (keys (st_names s)). active_of (st_names s) n)"
    using msum_keys [OF inv(1), of "unat \<circ> ns_active"] by (simp add: active_of_def comp_def cong: option.case_cong)
  ultimately show ?thesis using inv(2) by simp
qed

lemma active_of_entry:
  "active_of (name_entry n f m) n' =
     (if n' = n then unat (ns_active (f (case map_of m n of None \<Rightarrow> name_default | Some e \<Rightarrow> e)))
      else active_of m n')"
  by (simp add: active_of_def name_entry_def)

lemma active_of_modify:
  "active_of (modify n f m) n' =
     (if n' = n then (case map_of m n of None \<Rightarrow> 0 | Some e \<Rightarrow> unat (ns_active (f e))) else active_of m n')"
  by (auto simp: active_of_def map_of_modify split: option.splits)

lemma msum_entry:
  assumes "distinct (keys m)" "f name_default = 0"
  shows "msum f (name_entry n g m) + f (case map_of m n of None \<Rightarrow> name_default | Some e \<Rightarrow> e)
    = msum f m + f (g (case map_of m n of None \<Rightarrow> name_default | Some e \<Rightarrow> e))"
  using assms msum_update [of m f n "g (case map_of m n of None \<Rightarrow> name_default | Some e \<Rightarrow> e)"]
  by (cases "map_of m n") (simp_all add: name_entry_def)

lemma keys_entry: "set (keys (name_entry n f m)) = insert n (set (keys m))"
  unfolding name_entry_def by (rule set_keys_update)

lemma distinct_entry: "distinct (keys m) \<Longrightarrow> distinct (keys (name_entry n f m))"
  unfolding name_entry_def by (rule distinct_keys_update)

lemma length_entry: "length (name_entry n f m) = (if n \<in> set (keys m) then length m else Suc (length m))"
  unfolding name_entry_def by (rule length_update)

section \<open>Operations on a process state\<close>

lemma unat_of_nat_bound: "n \<le> 2 ^ 64 - 1 \<Longrightarrow> unat (of_nat n :: u64) = n"
  by (rule unat_of_nat_small) simp

lemma sat_add_one: "unat (a :: u64) < 2 ^ 64 - 1 \<Longrightarrow> unat (saturating_add a 1) = Suc (unat a)"
  by (simp add: unat_saturating_add)

lemma sat_sub_one: "unat (saturating_sub (a :: u64) 1) = unat a - 1"
  by (simp add: unat_saturating_sub)

text \<open>Fields that do not take part in an invariant.\<close>

lemma bucket_name_fields:
  assumes "bucket_name name s = (s', n)"
  shows "s' = s\<lparr>st_overflow := st_overflow s'\<rparr>"
    and "n = name \<and> (name \<in> set (keys (st_names s)) \<or> length (st_names s) < 64)
       \<or> n = ''other'' \<and> length (st_names s) \<ge> 64"
  using assms by (auto simp: bucket_name_def contains_key_iff MAX_THREAD_NAMES_def split: if_splits)

lemma names_inv_overflow [simp]: "names_inv (s\<lparr>st_overflow := x\<rparr>) = names_inv s"
  and balance_inv_overflow [simp]: "balance_inv w (s\<lparr>st_overflow := x\<rparr>) = balance_inv w s"
  and shape_inv_overflow [simp]: "shape_inv g (s\<lparr>st_overflow := x\<rparr>) = shape_inv g s"
  by (simp_all add: names_inv_def balance_inv_def shape_inv_def)

lemma names_inv_peak [simp]: "names_inv (s\<lparr>st_peak_active := x\<rparr>) = names_inv s"
  and shape_inv_peak [simp]: "shape_inv g (s\<lparr>st_peak_active := x\<rparr>) = shape_inv g s"
  by (simp_all add: names_inv_def shape_inv_def)

lemma add_gap_inv:
  "names_inv (add_gap r s) = names_inv s" "balance_inv w (add_gap r s) = balance_inv w s"
  "shape_inv g s \<Longrightarrow> shape_inv g (add_gap r s)"
  by (simp_all add: names_inv_def balance_inv_def shape_inv_def add_gap_def)

lemma incomplete_inv:
  "names_inv (s\<lparr>st_baseline_complete := False\<rparr>) = names_inv s"
  "balance_inv w (s\<lparr>st_baseline_complete := False\<rparr>) = balance_inv w s"
  "shape_inv g s \<Longrightarrow> shape_inv g (s\<lparr>st_baseline_complete := False\<rparr>)"
  by (simp_all add: names_inv_def balance_inv_def shape_inv_def)

text \<open>A task leaves: the state is given with the task already taken out of the table.\<close>

lemma count_exit_names:
  assumes inv: "names_inv s" and room: "unat (st_exited s) < 2 ^ 64 - 1"
    and tk: "map_of (st_tasks s) tk = Some t"
  shows "names_inv (count_exit (task_name t) (s\<lparr>st_tasks := AList.delete tk (st_tasks s)\<rparr>))"
proof -
  let ?n = "task_name t" and ?ts = "AList.delete tk (st_tasks s)"
  have d: "distinct (keys (st_tasks s))" "distinct (keys (st_names s))"
    and act: "\<And>n. active_of (st_names s) n = named n (st_tasks s)"
    and sums: "msum (unat \<circ> ns_created) (st_names s) = unat (st_created s)"
      "msum (unat \<circ> ns_exited) (st_names s) = unat (st_exited s)"
    using inv by (auto simp: names_inv_def)
  have named: "named n ?ts + (if ?n = n then 1 else 0) = named n (st_tasks s)" for n
    unfolding named_def using msum_delete [OF d(1) tk, of "\<lambda>t. if task_name t = n then 1 else 0"] by simp
  then have "0 < active_of (st_names s) ?n" using act [of ?n] named [of ?n] by simp
  then obtain e where e: "map_of (st_names s) ?n = Some e"
    by (auto simp: active_of_def split: option.splits)
  let ?f = "\<lambda>e. e\<lparr>ns_exited := saturating_add (ns_exited e) 1, ns_active := saturating_sub (ns_active e) 1\<rparr>"
  have ex: "unat (ns_exited e) \<le> unat (st_exited s)"
    using msum_modify [OF d(2) e, of "unat \<circ> ns_exited" "\<lambda>e. e\<lparr>ns_exited := 0\<rparr>"] sums(2) by simp
  have "active_of (modify ?n ?f (st_names s)) n = named n ?ts" for n
    using act [of n] named [of n] e
    by (auto simp: map_of_modify sat_sub_one active_of_def split: if_splits)
  moreover have "msum (unat \<circ> ns_created) (modify ?n ?f (st_names s)) = unat (st_created s)"
    using msum_modify [OF d(2) e, of "unat \<circ> ns_created" ?f] sums(1) by simp
  moreover have "msum (unat \<circ> ns_exited) (modify ?n ?f (st_names s)) = Suc (unat (st_exited s))"
    using msum_modify [OF d(2) e, of "unat \<circ> ns_exited" ?f] sums(2) ex room
    by (simp add: sat_add_one)
  ultimately show ?thesis
    using d room by (simp add: names_inv_def count_exit_def sat_add_one del: set_map)
qed

lemma count_exit_balance:
  assumes "balance_inv w s" "w < 2 ^ 64 - 1" "distinct (keys (st_tasks s))" "map_of (st_tasks s) tk = Some t"
  shows "balance_inv w (count_exit n (s\<lparr>st_tasks := AList.delete tk (st_tasks s)\<rparr>))"
    and "unat (st_exited s) < 2 ^ 64 - 1"
proof -
  have mem: "tk \<in> set (keys (st_tasks s))"
    using assms(4) by (metis map_of_eq_None_iff option.distinct(1) set_map)
  then have "length (st_tasks s) = Suc (length (AList.delete tk (st_tasks s)))"
    using length_delete [OF assms(3), of tk] by (cases "st_tasks s") (simp_all del: set_map)
  moreover show room: "unat (st_exited s) < 2 ^ 64 - 1"
    using assms(1,2) by (simp add: balance_inv_def)
  ultimately show "balance_inv w (count_exit n (s\<lparr>st_tasks := AList.delete tk (st_tasks s)\<rparr>))"
    using assms(1) by (simp add: balance_inv_def count_exit_def sat_add_one)
qed

lemma count_exit_shape:
  "shape_inv g s \<Longrightarrow> set (keys ts) \<subseteq> set (keys (st_tasks s)) \<Longrightarrow> shape_inv g (count_exit n (s\<lparr>st_tasks := ts\<rparr>))"
  by (auto simp: shape_inv_def count_exit_def simp del: set_map)

definition state_inv :: "u64 \<Rightarrow> nat \<Rightarrow> process_state \<Rightarrow> bool" where
  "state_inv g w s \<longleftrightarrow> names_inv s \<and> balance_inv w s \<and> shape_inv g s"

lemma state_inv_count_exit:
  assumes "state_inv g w s" "w < 2 ^ 64 - 1" "map_of (st_tasks s) tk = Some t"
  shows "state_inv g w (count_exit (task_name t) (s\<lparr>st_tasks := AList.delete tk (st_tasks s)\<rparr>))"
proof -
  have d: "distinct (keys (st_tasks s))" using assms(1) by (simp add: state_inv_def names_inv_def)
  have sub: "set (keys (AList.delete tk (st_tasks s))) \<subseteq> set (keys (st_tasks s))"
    unfolding set_keys_delete by blast
  show ?thesis
    using assms count_exit_names [of s tk t] count_exit_balance [OF _ assms(2) d assms(3)]
      count_exit_shape [OF _ sub]
    by (simp add: state_inv_def)
qed

lemma state_inv_lose_task:
  assumes "state_inv g w s" "w < 2 ^ 64 - 1" "map_of (st_tasks s) tk = Some t"
  shows "state_inv g w (lose_task (task_name t) (s\<lparr>st_tasks := AList.delete tk (st_tasks s)\<rparr>))"
  using state_inv_count_exit [OF assms]
  by (simp add: lose_task_def state_inv_def add_gap_inv incomplete_inv)

text \<open>All tasks of a process leave at its exit: the loop runs over the table it clears afterwards.\<close>

lemma lose_task_tasks: "lose_task n (s\<lparr>st_tasks := ts\<rparr>) = (lose_task n s)\<lparr>st_tasks := ts\<rparr>"
  by (simp add: lose_task_def count_exit_def add_gap_def)

lemma state_inv_lose_all:
  assumes "state_inv g w (s\<lparr>st_tasks := ts\<rparr>)" "w < 2 ^ 64 - 1"
  shows "state_inv g w ((fold (\<lambda>(_, t). lose_task (task_name t)) ts s)\<lparr>st_tasks := []\<rparr>)"
  using assms(1)
proof (induction ts arbitrary: s)
  case (Cons p ts)
  obtain tk t where p: "p = (tk, t)" by (cases p)
  have d: "distinct (keys (p # ts))" using Cons.prems by (simp add: state_inv_def names_inv_def)
  then have "AList.delete tk (p # ts) = ts"
    using p by (auto simp: delete_filter filter_id_conv)
  then have "state_inv g w (lose_task (task_name t) (s\<lparr>st_tasks := ts\<rparr>))"
    using state_inv_lose_task [OF Cons.prems assms(2), of tk t] p by simp
  with Cons.IH [of "lose_task (task_name t) s"] p show ?case by (simp add: lose_task_tasks)
qed simp

text \<open>A task arrives with a key that is not in use.\<close>

lemma named_update:
  assumes "tk \<notin> set (keys ts)"
  shows "named n (AList.update tk t ts) = named n ts + (if task_name t = n then 1 else 0)"
    and "length (AList.update tk t ts) = Suc (length ts)"
proof -
  have "AList.update tk t ts = ts @ [(tk, t)]"
    using assms by (induction ts) auto
  then show "named n (AList.update tk t ts) = named n ts + (if task_name t = n then 1 else 0)"
      "length (AList.update tk t ts) = Suc (length ts)"
    by (simp_all add: named_def)
qed

lemma entry_le:
  assumes "names_inv s" "map_of (st_names s) n = Some e"
  shows "unat (ns_created e) \<le> unat (st_created s)" "unat (ns_active e) \<le> length (st_tasks s)"
proof -
  have d: "distinct (keys (st_names s))" and c: "msum (unat \<circ> ns_created) (st_names s) = unat (st_created s)"
    and act: "active_of (st_names s) n = named n (st_tasks s)"
    using assms(1) by (auto simp: names_inv_def)
  show "unat (ns_created e) \<le> unat (st_created s)"
    using msum_modify [OF d assms(2), of "unat \<circ> ns_created" "\<lambda>e. e\<lparr>ns_created := 0\<rparr>"] c by simp
  show "unat (ns_active e) \<le> length (st_tasks s)"
    using act assms(2) named_le [of n "st_tasks s"] by (simp add: active_of_def)
qed

lemma name_entry_shape:
  assumes "shape_inv g s" "valid_name n"
    and "n \<in> set (keys (st_names s)) \<or> length (st_names s) < 64 \<or> n = ''other''"
  shows "(length (name_entry n f (st_names s)) \<le> 64
      \<or> (length (name_entry n f (st_names s)) = 65 \<and> ''other'' \<in> set (keys (name_entry n f (st_names s)))))
    \<and> (\<forall>n \<in> set (keys (name_entry n f (st_names s))). valid_name n)"
  using assms unfolding shape_inv_def keys_entry length_entry by auto

lemma valid_fixed_names [simp]: "valid_name ''other''" "valid_name ''unknown''"
  by (simp_all add: valid_name_def MAX_THREAD_NAME_BYTES_def byte_def)

lemma bucket_name_valid:
  assumes "bucket_name name s = (s', n)" "valid_name name"
  shows "valid_name n \<and> (n \<in> set (keys (st_names s)) \<or> length (st_names s) < 64 \<or> n = ''other'')"
  using bucket_name_fields(2) [OF assms(1)] assms(2) by auto

lemma shape_inv_mono: "shape_inv g s \<Longrightarrow> unat g \<le> unat g' \<Longrightarrow> shape_inv g' s"
  by (auto simp: shape_inv_def)

lemma state_inv_mono:
  "state_inv g w s \<Longrightarrow> unat g \<le> unat g' \<Longrightarrow> w \<le> w' \<Longrightarrow> state_inv g' w' s"
  by (auto simp: state_inv_def balance_inv_def intro: shape_inv_mono)

lemma fresh_task: "shape_inv g s \<Longrightarrow> tk_generation tk = g \<Longrightarrow> tk \<notin> set (keys (st_tasks s))"
  by (auto simp: shape_inv_def simp del: set_map)

text \<open>The effect of one more task on the names: \<open>f\<close> raises \<open>active\<close> by one and \<open>created\<close> by \<open>c\<close>.\<close>

lemma names_inv_arrive:
  assumes inv: "names_inv s" and fresh: "tk \<notin> set (keys (st_tasks s))"
    and f: "\<And>e. unat (ns_active e) \<le> length (st_tasks s) \<Longrightarrow> unat (ns_created e) \<le> unat (st_created s) \<Longrightarrow>
      unat (ns_active (f e)) = Suc (unat (ns_active e)) \<and> unat (ns_created (f e)) = unat (ns_created e) + c
      \<and> ns_exited (f e) = ns_exited e"
    and created: "unat cr = unat (st_created s) + c"
  shows "names_inv (s\<lparr>st_tasks := AList.update tk \<lparr>task_name = n\<rparr> (st_tasks s), st_created := cr,
    st_names := name_entry n f (st_names s)\<rparr>)"
proof -
  let ?e = "case map_of (st_names s) n of None \<Rightarrow> name_default | Some e \<Rightarrow> e"
  let ?m = "name_entry n f (st_names s)" and ?ts = "AList.update tk \<lparr>task_name = n\<rparr> (st_tasks s)"
  have d: "distinct (keys (st_tasks s))" "distinct (keys (st_names s))"
    and act: "\<And>k. active_of (st_names s) k = named k (st_tasks s)"
    and sums: "msum (unat \<circ> ns_created) (st_names s) = unat (st_created s)"
      "msum (unat \<circ> ns_exited) (st_names s) = unat (st_exited s)"
    using inv by (auto simp: names_inv_def)
  have "unat (ns_active ?e) \<le> length (st_tasks s)" "unat (ns_created ?e) \<le> unat (st_created s)"
    using entry_le [OF inv] by (cases "map_of (st_names s) n"; simp add: name_default_def)+
  note fe = f [OF this]
  have ae: "unat (ns_active ?e) = active_of (st_names s) n"
    by (simp add: active_of_def name_default_def split: option.splits)
  have "active_of ?m k = named k ?ts" for k
    using act [of k] act [of n] fe ae named_update(1) [OF fresh, of k "\<lparr>task_name = n\<rparr>"]
    by (auto simp: active_of_entry)
  moreover have "msum (unat \<circ> ns_created) ?m = unat cr" "msum (unat \<circ> ns_exited) ?m = unat (st_exited s)"
    using msum_entry [OF d(2), of "unat \<circ> ns_created" n f] msum_entry [OF d(2), of "unat \<circ> ns_exited" n f]
      sums fe created by (simp_all add: name_default_def)
  ultimately show ?thesis
    using d by (simp add: names_inv_def distinct_entry)
qed

lemma shape_inv_arrive:
  assumes "shape_inv g s" "valid_name n" "unat g' = Suc (unat g)" "tk_generation tk = g"
    and "n \<in> set (keys (st_names s)) \<or> length (st_names s) < 64 \<or> n = ''other''"
  shows "shape_inv g' (s\<lparr>st_tasks := AList.update tk t (st_tasks s), st_names := name_entry n f (st_names s)\<rparr>)"
proof -
  have "\<forall>k \<in> set (keys (AList.update tk t (st_tasks s))). unat (tk_generation k) < unat g'"
    using assms(1,3,4) unfolding set_keys_update by (auto simp: shape_inv_def simp del: set_map)
  moreover have "distinct (st_gaps s)" "st_baseline_complete s \<longrightarrow> st_baseline_provenance s \<noteq> Unavailable"
      "process_ok (st_process s)" "validate_generation (st_generation s) = Ok ()"
    using assms(1) by (auto simp: shape_inv_def)
  ultimately show ?thesis
    using name_entry_shape [OF assms(1,2,5), of f] by (simp add: shape_inv_def del: set_map)
qed

lemma state_inv_add_task:
  assumes inv: "state_inv g w s" and w: "w < 2 ^ 64 - 2" and name: "valid_name name"
    and tk: "tk_generation tk = g" and g': "unat g' = Suc (unat g)"
  shows "state_inv g' (Suc w) (add_task tk name s)"
proof -
  obtain s1 n where b: "bucket_name name s = (s1, n)" by (cases "bucket_name name s")
  have s1: "s1 = s\<lparr>st_overflow := st_overflow s1\<rparr>" by (rule bucket_name_fields(1) [OF b])
  then have inv1: "names_inv s1" "balance_inv w s1" "shape_inv g s1"
    using inv unfolding state_inv_def by (metis names_inv_overflow balance_inv_overflow shape_inv_overflow)+
  have "st_names s1 = st_names s" by (subst s1) simp
  then have n: "valid_name n"
      "n \<in> set (keys (st_names s1)) \<or> length (st_names s1) < 64 \<or> n = ''other''"
    using bucket_name_valid [OF b name] by auto
  let ?f = "\<lambda>e. e\<lparr>ns_created := saturating_add (ns_created e) 1, ns_active := saturating_add (ns_active e) 1\<rparr>"
  let ?t = "s1\<lparr>st_tasks := AList.update tk \<lparr>task_name = n\<rparr> (st_tasks s1), st_created := saturating_add (st_created s1) 1,
    st_names := name_entry n ?f (st_names s1)\<rparr>"
  have fresh: "tk \<notin> set (keys (st_tasks s1))" using inv1(3) tk by (rule fresh_task)
  have le: "unat (st_created s1) < 2 ^ 64 - 1" "length (st_tasks s1) < 2 ^ 64 - 1"
    using inv1(2) w by (auto simp: balance_inv_def)
  have "names_inv ?t"
    by (rule names_inv_arrive [OF inv1(1) fresh, where c = 1]) (use le in \<open>simp_all add: sat_add_one\<close>)
  moreover have "shape_inv g' ?t"
    using shape_inv_arrive [OF inv1(3) n(1) g' tk n(2), where f = ?f and t = "\<lparr>task_name = n\<rparr>"] by (simp add: shape_inv_def)
  moreover
  let ?p = "max (st_peak_active s1) (of_nat (Suc (length (st_tasks s1))))"
  have "unat ?p = max (unat (st_peak_active s1)) (Suc (length (st_tasks s1)))"
    using le(2) unat_of_nat_bound [of "Suc (length (st_tasks s1))"]
    by (simp add: max_def word_le_nat_alt del: of_nat_Suc)
  then have "balance_inv (Suc w) (?t\<lparr>st_peak_active := ?p\<rparr>)"
    using inv1(2) le named_update(2) [OF fresh, of "\<lparr>task_name = n\<rparr>"]
    by (simp add: balance_inv_def sat_add_one max_def del: of_nat_Suc)
  moreover have "add_task tk name s = ?t\<lparr>st_peak_active := ?p\<rparr>"
    using named_update(2) [OF fresh, of "\<lparr>task_name = n\<rparr>"] by (simp add: add_task_def b)
  ultimately show ?thesis unfolding state_inv_def by simp
qed

lemma state_inv_rename:
  assumes inv: "state_inv g w s" and w: "w < 2 ^ 64 - 1" and name: "valid_name name"
  shows "state_inv g w (rename_task tk name s)"
proof -
  obtain s1 n where b: "bucket_name name s = (s1, n)" by (cases "bucket_name name s")
  have s1: "s1 = s\<lparr>st_overflow := st_overflow s1\<rparr>" by (rule bucket_name_fields(1) [OF b])
  then have inv1: "names_inv s1" "balance_inv w s1" "shape_inv g s1"
    using inv unfolding state_inv_def by (metis names_inv_overflow balance_inv_overflow shape_inv_overflow)+
  have "st_names s1 = st_names s" by (subst s1) simp
  then have n: "valid_name n"
      "n \<in> set (keys (st_names s1)) \<or> length (st_names s1) < 64 \<or> n = ''other''"
    using bucket_name_valid [OF b name] by auto
  show ?thesis
  proof (cases "\<exists>t. map_of (st_tasks s1) tk = Some t \<and> task_name t \<noteq> n")
    case False
    then have "rename_task tk name s = s1" by (auto simp: rename_task_def b split: option.splits)
    with inv1 show ?thesis by (simp add: state_inv_def)
  next
    case True
    then obtain t where t: "map_of (st_tasks s1) tk = Some t" "task_name t \<noteq> n" by blast
    let ?f = "\<lambda>e. e\<lparr>ns_active := saturating_sub (ns_active e) 1\<rparr>"
    let ?m = "modify (task_name t) ?f (st_names s1)"
    let ?a = "case map_of ?m n of None \<Rightarrow> 1 | Some e \<Rightarrow> saturating_add (ns_active e) 1"
    let ?g = "\<lambda>e. e\<lparr>ns_active := ?a\<rparr>"
    let ?ts = "modify tk (\<lambda>t. t\<lparr>task_name := n\<rparr>) (st_tasks s1)"
    have eq: "rename_task tk name s = s1\<lparr>st_names := name_entry n ?g ?m, st_tasks := ?ts\<rparr>"
      using t by (simp add: rename_task_def b Let_def)
    have d: "distinct (keys (st_tasks s1))" "distinct (keys (st_names s1))" "distinct (keys ?m)"
      and act: "\<And>k. active_of (st_names s1) k = named k (st_tasks s1)"
      using inv1(1) by (auto simp: names_inv_def)
    have named: "named k ?ts + (if task_name t = k then 1 else 0) = named k (st_tasks s1) + (if n = k then 1 else 0)" for k
      unfolding named_def
      using msum_modify [OF d(1) t(1), of "\<lambda>t. if task_name t = k then 1 else 0" "\<lambda>t. t\<lparr>task_name := n\<rparr>"] by simp
    have a: "unat ?a = Suc (active_of (st_names s1) n)"
    proof (cases "map_of (st_names s1) n")
      case None
      then show ?thesis using t(2) by (simp add: map_of_modify active_of_def)
    next
      case (Some e)
      then have "unat (ns_active e) < 2 ^ 64 - 1"
        using entry_le(2) [OF inv1(1)] inv1(2) w by (fastforce simp: balance_inv_def)
      with Some show ?thesis using t(2) by (simp add: map_of_modify active_of_def sat_add_one)
    qed
    have "active_of (name_entry n ?g ?m) k = named k ?ts" for k
    proof -
      have "active_of ?m k = active_of (st_names s1) k - (if task_name t = k then 1 else 0)"
        by (auto simp: active_of_def map_of_modify sat_sub_one split: option.splits)
      then show ?thesis
        using a act [of k] act [of n] named [of k] t(2) by (auto simp: active_of_entry)
    qed
    moreover have sums: "msum (unat \<circ> h) (name_entry n ?g ?m) = msum (unat \<circ> h) (st_names s1)"
      if h: "\<And>e x. h (e\<lparr>ns_active := x\<rparr>) = h e" "unat (h name_default) = 0" for h
    proof -
      have "h (if c then ?f e else e) = h e" for c e by (simp add: h(1))
      then have "msum (unat \<circ> h) ?m = msum (unat \<circ> h) (st_names s1)"
        by (simp add: msum_def modify_def comp_def case_prod_beta)
      then show ?thesis using msum_entry [OF d(3), of "unat \<circ> h" n ?g] h by simp
    qed
    ultimately have "names_inv (s1\<lparr>st_names := name_entry n ?g ?m, st_tasks := ?ts\<rparr>)"
      using inv1(1) d sums [of ns_created] sums [of ns_exited]
      by (simp add: names_inv_def distinct_entry name_default_def)
    moreover have "shape_inv g (s1\<lparr>st_names := name_entry n ?g ?m, st_tasks := ?ts\<rparr>)"
      using name_entry_shape [of g "s1\<lparr>st_names := ?m\<rparr>" n ?g] inv1(3) n
      by (simp add: shape_inv_def del: set_map)
    ultimately show ?thesis using inv1(2) unfolding eq by (simp add: state_inv_def balance_inv_def)
  qed
qed

lemma state_inv_new:
  assumes "process_ok process" "validate_generation gen = Ok ()"
  shows "state_inv g w (process_state_new attr process gen observed)"
  using assms
  by (simp add: state_inv_def names_inv_def balance_inv_def shape_inv_def process_state_new_def
      active_of_def named_def)

lemma state_inv_reset:
  assumes inv: "state_inv g w s" and w: "w < 2 ^ 64"
  shows "state_inv g w (reset_window start s)"
proof -
  let ?m = "map (\<lambda>(k, e). (k, e\<lparr>ns_created := 0, ns_exited := 0\<rparr>)) (st_names s)"
  have n: "unat (of_nat (length (st_tasks s)) :: u64) = length (st_tasks s)" "length (st_tasks s) \<le> w"
    using inv w by (auto simp: state_inv_def balance_inv_def intro!: unat_of_nat_bound)
  have keys: "keys ?m = keys (st_names s)" by (simp add: case_prod_beta comp_def)
  have "active_of ?m k = active_of (st_names s) k" for k
    by (induction "st_names s") (auto simp: active_of_def map_of_map split: option.splits)
  moreover have "msum (unat \<circ> ns_created) ?m = 0" "msum (unat \<circ> ns_exited) ?m = 0"
    by (simp_all add: msum_def comp_def case_prod_beta)
  ultimately show ?thesis
    using inv n keys
    by (simp add: state_inv_def names_inv_def balance_inv_def shape_inv_def reset_window_def Let_def
        del: set_map map_map)
qed

section \<open>The snapshot\<close>

text \<open>What holds while the entries of the snapshot are read: nothing is counted yet.\<close>

definition seed_inv :: "u64 \<Rightarrow> nat \<Rightarrow> process_state \<Rightarrow> bool" where
  "seed_inv g w s \<longleftrightarrow> names_inv s \<and> shape_inv g s \<and> length (st_tasks s) \<le> w
     \<and> st_created s = 0 \<and> st_exited s = 0 \<and> st_baseline_provenance s \<noteq> Unavailable"

lemma seed_inv_mono: "seed_inv g w s \<Longrightarrow> unat g \<le> unat g' \<Longrightarrow> w \<le> w' \<Longrightarrow> seed_inv g' w' s"
  by (auto simp: seed_inv_def intro: shape_inv_mono)

lemma seed_inv_gap: "seed_inv g w s \<Longrightarrow> seed_inv g w (add_gap r s)"
  unfolding seed_inv_def by (simp add: add_gap_inv) (simp add: add_gap_def)

lemma seed_inv_task:
  assumes inv: "seed_inv g w s" and w: "w < 2 ^ 64 - 1" and n: "valid_name n"
    "n \<in> set (keys (st_names s)) \<or> length (st_names s) < 64 \<or> n = ''other''"
    and tk: "tk_generation tk = g" and g': "unat g' = Suc (unat g)"
  shows "seed_inv g' (Suc w) (seed_task tk n s)"
proof -
  let ?f = "\<lambda>e. e\<lparr>ns_active := ns_active e + 1\<rparr>"
  have i: "names_inv s" "shape_inv g s" "length (st_tasks s) \<le> w" "st_created s = 0" "st_exited s = 0"
      "st_baseline_provenance s \<noteq> Unavailable"
    using inv by (auto simp: seed_inv_def)
  have fresh: "tk \<notin> set (keys (st_tasks s))" using i(2) tk by (rule fresh_task)
  have one: "unat (a + 1 :: u64) = Suc (unat a)" if "unat a \<le> length (st_tasks s)" for a
    using that i(3) w by (subst unat_plus_no_wrap) simp_all
  have "names_inv (s\<lparr>st_tasks := AList.update tk \<lparr>task_name = n\<rparr> (st_tasks s), st_created := st_created s,
      st_names := name_entry n ?f (st_names s)\<rparr>)"
    by (rule names_inv_arrive [OF i(1) fresh, where c = 0]) (simp_all add: one)
  then have "names_inv (seed_task tk n s)" by (simp add: names_inv_def seed_task_def)
  moreover have "shape_inv g' (seed_task tk n s)"
    unfolding seed_task_def by (rule shape_inv_arrive [OF i(2) n(1) g' tk n(2)])
  ultimately show ?thesis
    using i named_update(2) [OF fresh, of "\<lparr>task_name = n\<rparr>"]
    unfolding seed_inv_def by (auto simp: seed_task_def)
qed

lemma snapshot_name_valid:
  assumes "snapshot_name comm s = (s', n)"
  shows "valid_name n" "s' = s \<or> s' = add_gap SnapshotRace s"
proof -
  have "valid_name v" if "valid_snapshot_name v" for v
  proof -
    have "CHR 0x00 \<notin> set v" if "\<not> has_control v" for v
      using that by (induction v) (auto simp: byte_def)
    with that show ?thesis by (auto simp: valid_name_def valid_snapshot_name_def)
  qed
  then show "valid_name n" "s' = s \<or> s' = add_gap SnapshotRace s"
    using assms by (auto simp: snapshot_name_def split: option.splits if_splits)
qed

lemma next_task_key_gen:
  assumes "next_task_key tid at st = (st', tk)" "1 \<le> unat (next_task_generation st)"
    "unat (next_task_generation st) < 2 ^ 64 - 1"
  shows "tk_generation tk = next_task_generation st"
    "unat (next_task_generation st') = Suc (unat (next_task_generation st))"
    "states st' = states st" "task_index st' = task_index st" "store_capacity st' = store_capacity st"
proof -
  have "unat (max (saturating_add (next_task_generation st) 1) 1) = Suc (unat (next_task_generation st))"
    using assms(3) sat_add_one [of "next_task_generation st"]
    by (simp add: max_def word_le_nat_alt)
  with assms(1) show "tk_generation tk = next_task_generation st"
      "unat (next_task_generation st') = Suc (unat (next_task_generation st))"
      "states st' = states st" "task_index st' = task_index st" "store_capacity st' = store_capacity st"
    by (auto simp: next_task_key_def)
qed

lemma seed_snapshot_inv:
  assumes "seed_snapshot k es (st, s) = (st', s')"
    and "seed_inv (next_task_generation st) w s"
    and "1 \<le> unat (next_task_generation st)" "unat (next_task_generation st) \<le> Suc w"
    and "w + length es < 2 ^ 64 - 2"
  shows "seed_inv (next_task_generation st') (w + length es) s' \<and> states st' = states st
    \<and> store_capacity st' = store_capacity st
    \<and> unat (next_task_generation st) \<le> unat (next_task_generation st')
    \<and> unat (next_task_generation st') \<le> Suc (w + length es)"
  using assms
proof (induction k es "(st, s)" arbitrary: st s w rule: seed_snapshot.induct)
  case (1 k st s)
  then show ?case by auto
next
  case (2 k es st s)
  have "seed_inv (next_task_generation st) (Suc w) (add_gap SnapshotRace s)"
    using "2.prems"(2) by (intro seed_inv_gap) (rule seed_inv_mono, auto)
  with "2.hyps" [of "Suc w"] "2.prems" show ?case by simp
next
  case (3 k fname comm es st s)
  have mono: "seed_inv (next_task_generation st) (Suc w) s"
    using "3.prems"(2) by (rule seed_inv_mono) auto
  show ?case
  proof (cases "parse_u32 fname")
    case None
    with "3.hyps"(1) [of "Suc w"] "3.prems" seed_inv_gap [OF mono] show ?thesis by simp
  next
    case (Some tid)
    consider "tid = tgid (st_process s)"
      | "tid \<noteq> tgid (st_process s)" "length (task_index st) \<ge> store_capacity st"
      | "tid \<noteq> tgid (st_process s)" "length (task_index st) < store_capacity st" by linarith
    then show ?thesis
    proof cases
      case 1
      with Some "3.hyps"(2) [of tid "Suc w"] "3.prems" mono show ?thesis by simp
    next
      case 2
      then have "st' = st" "s' = add_gap SnapshotTruncated s" using Some "3.prems"(1) by auto
      moreover have "seed_inv (next_task_generation st) (w + length (Entry fname comm # es)) s"
        using "3.prems"(2) by (rule seed_inv_mono) auto
      ultimately show ?thesis using "3.prems"(4) by (simp add: seed_inv_gap)
    next
      case 3
      obtain s1 raw where sn: "snapshot_name comm s = (s1, raw)" by (cases "snapshot_name comm s")
      obtain s2 n where bn: "bucket_name raw s1 = (s2, n)" by (cases "bucket_name raw s1")
      obtain st1 tk where nk: "next_task_key tid 0 st = (st1, tk)" by (cases "next_task_key tid 0 st")
      have gen: "tk_generation tk = next_task_generation st"
          "unat (next_task_generation st1) = Suc (unat (next_task_generation st))"
          "states st1 = states st" "store_capacity st1 = store_capacity st"
        using next_task_key_gen [OF nk "3.prems"(3)] "3.prems"(4,5) by auto
      have "seed_inv (next_task_generation st) w s1"
        using snapshot_name_valid(2) [OF sn] "3.prems"(2) seed_inv_gap by auto
      moreover obtain x where s2: "s2 = s1\<lparr>st_overflow := x\<rparr>"
        using bucket_name_fields(1) [OF bn] by blast
      ultimately have "seed_inv (next_task_generation st) w s2" by (simp add: seed_inv_def)
      moreover have "st_names s2 = st_names s1" by (simp add: s2)
      ultimately have "seed_inv (next_task_generation st1) (Suc w) (seed_task tk n s2)"
        using bucket_name_valid [OF bn snapshot_name_valid(1) [OF sn]] gen(1,2) "3.prems"(5)
        by (intro seed_inv_task) auto
      with "3.hyps"(3) [OF Some 3(1) _ sn [symmetric] refl bn [symmetric] refl nk [symmetric] refl, of "Suc w"]
        3(2) gen "3.prems" Some 3(1) sn bn nk
      show ?thesis by simp
    qed
  qed
qed

section \<open>The store\<close>

definition store_inv :: "nat \<Rightarrow> task_store \<Rightarrow> bool" where
  "store_inv w st \<longleftrightarrow>
     distinct (keys (states st))
     \<and> 1 \<le> unat (next_task_generation st) \<and> unat (next_task_generation st) \<le> Suc w
     \<and> (\<forall>p \<in> set (states st). state_inv (next_task_generation st) w (snd p))"

definition max_work :: nat where
  "max_work = 2 ^ 64 - 3"

lemma store_inv_new: "store_inv 0 (task_store_new cap)"
  by (simp add: store_inv_def task_store_new_def)

lemma store_inv_mono: "store_inv w st \<Longrightarrow> w \<le> w' \<Longrightarrow> store_inv w' st"
  unfolding store_inv_def by (meson Suc_le_mono order_refl order_trans state_inv_mono)

lemma store_inv_index [simp]: "store_inv w (st\<lparr>task_index := ix\<rparr>) = store_inv w st"
  by (simp add: store_inv_def)

lemma store_inv_set_state:
  "store_inv w st \<Longrightarrow> state_inv (next_task_generation st) w s \<Longrightarrow> store_inv w (set_state k s st)"
  using set_update_subset [of k s "states st"] by (auto simp: store_inv_def set_state_def)

lemma store_inv_remove: "store_inv w st \<Longrightarrow> store_inv w (remove_process_state k st)"
  by (auto simp: store_inv_def remove_process_state_def delete_filter split: option.splits)

lemma store_inv_lookup:
  "store_inv w st \<Longrightarrow> map_of (states st) k = Some s \<Longrightarrow> state_inv (next_task_generation st) w s"
  by (auto simp: store_inv_def dest!: map_of_SomeD)

lemma next_gen_simps [simp]:
  "next_task_generation (set_state k s st) = next_task_generation st"
  "next_task_generation (remove_process_state k st) = next_task_generation st"
  by (simp_all add: set_state_def remove_process_state_def split: option.splits)

lemma store_inv_retire:
  assumes "store_inv w st" "w \<le> max_work"
  shows "store_inv w (retire_reused_task loc st)"
proof -
  have w: "w < 2 ^ 64 - 1" using assms(2) by (simp add: max_work_def)
  show ?thesis
    using assms(1) store_inv_lookup [OF assms(1)] state_inv_lose_task [OF _ w]
    by (auto simp: retire_reused_task_def Let_def intro!: store_inv_set_state
        split: option.splits)
qed

lemma store_inv_ensure:
  assumes "store_inv w st" "process_ok process" "validate_generation gen = Ok ()"
  shows "store_inv w (fst (ensure_state k observed attr process gen st))"
  using assms store_inv_remove [OF assms(1), of k] state_inv_new [OF assms(2,3)]
  by (auto simp: ensure_state_def Let_def intro!: store_inv_set_state split: option.splits)

lemma store_inv_process_start:
  assumes "store_inv w st" "process_ok process"
  shows "store_inv w (fst (observe_process_start i observed attr process start st))"
proof (cases "validate_start start")
  case (Ok u)
  then have "validate_generation (ps_generation start) = Ok ()"
    by (simp add: validate_start_def result_laws)
  with Ok assms show ?thesis
    by (simp add: observe_process_start_def Let_def store_inv_set_state store_inv_remove state_inv_new)
next
  case (Err e)
  then show ?thesis using assms(1) by (simp add: observe_process_start_def Let_def store_inv_remove)
qed

lemma store_inv_next_key:
  assumes inv: "store_inv w st" and w: "w < max_work" and nk: "next_task_key tid at st = (st', tk)"
  shows "store_inv (Suc w) st'"
proof -
  have gen: "1 \<le> unat (next_task_generation st)" "unat (next_task_generation st) \<le> Suc w"
    using inv by (auto simp: store_inv_def)
  have bound: "unat (next_task_generation st) < 2 ^ 64 - 1"
    using gen(2) w by (simp add: max_work_def)
  note nx = next_task_key_gen [OF nk gen(1) bound]
  have "state_inv (next_task_generation st') (Suc w) (snd p)" if "p \<in> set (states st)" for p
  proof (rule state_inv_mono)
    show "state_inv (next_task_generation st) w (snd p)" using inv that by (simp add: store_inv_def)
  qed (use nx(2) in simp_all)
  then show ?thesis using inv nx gen by (simp add: store_inv_def)
qed

lemma store_inv_add_task:
  assumes inv: "store_inv w st" and w: "w < max_work" and name: "valid_name name"
    and nk: "next_task_key tid at st = (st', tk)"
    and s: "map_of (states st') k = Some s"
  shows "store_inv (Suc w) (set_state k (add_task tk name s) st')"
proof -
  have gen: "1 \<le> unat (next_task_generation st)" "unat (next_task_generation st) \<le> Suc w"
    using inv by (auto simp: store_inv_def)
  have bound: "unat (next_task_generation st) < 2 ^ 64 - 1" "w < 2 ^ 64 - 2"
    using gen(2) w by (auto simp: max_work_def)
  note nx = next_task_key_gen [OF nk gen(1) bound(1)]
  have "store_inv (Suc w) st'"
    using inv w nk by (rule store_inv_next_key)
  moreover have "state_inv (next_task_generation st) w s" using inv s nx(3) by (simp add: store_inv_lookup)
  then have "state_inv (next_task_generation st') (Suc w) (add_task tk name s)"
    using bound(2) name nx(1,2) by (rule state_inv_add_task)
  ultimately show ?thesis by (rule store_inv_set_state)
qed

lemma store_inv_thread_start:
  assumes inv: "store_inv w st" and w: "w < max_work" and p: "process_ok process"
    and g: "validate_generation gen = Ok ()" and name: "valid_name (start_name task)"
  shows "store_inv (Suc w) (observe_thread_start observed attr process gen task st)"
proof -
  let ?k = "process_key_of process" and ?loc = "(proc_tgid (process_key_of process), start_tid task)"
  obtain st1 b where e: "ensure_state ?k observed attr process gen st = (st1, b)"
    by (cases "ensure_state ?k observed attr process gen st")
  have inv1: "store_inv w st1" using store_inv_ensure [OF inv p g, of ?k observed attr] e by simp
  let ?st2 = "retire_reused_task ?loc st1"
  have inv2: "store_inv w ?st2" using inv1 w by (intro store_inv_retire) simp_all
  obtain st3 tk where nk: "next_task_key (start_tid task) (start_observed_at_ns task) ?st2 = (st3, tk)"
    by (cases "next_task_key (start_tid task) (start_observed_at_ns task) ?st2")
  have inv3: "store_inv (Suc w) st3" by (rule store_inv_next_key [OF inv2 w nk])
  have up: "store_inv w s \<Longrightarrow> store_inv (Suc w) s" for s using store_inv_mono [of w s "Suc w"] by simp
  have gap: "store_inv (Suc w) (set_state ?k (add_gap StateCapacity s) ?st2)"
    if "map_of (states ?st2) ?k = Some s" for s
    using store_inv_lookup [OF inv2 that] inv2
    by (intro up store_inv_set_state) (simp_all add: state_inv_def add_gap_inv)
  have add: "store_inv (Suc w) (set_state ?k (add_task tk (start_name task) s) st3)"
    if "map_of (states st3) ?k = Some s" for s
    by (rule store_inv_add_task [OF inv2 w name nk that])
  show ?thesis
    unfolding observe_thread_start_def Let_def
    using up [OF inv1] up [OF inv2] inv3 gap add
    by (cases b) (auto simp: e nk split: option.splits)
qed

lemma state_inv_seeded:
  assumes "names_inv s" "st_created s = 0" "st_exited s = 0" "length (st_tasks s) \<le> w" "w < 2 ^ 64"
    and "shape_inv g (s\<lparr>st_baseline_complete := False\<rparr>)"
    and "st_gaps s = [] \<longrightarrow> st_baseline_provenance s \<noteq> Unavailable"
    and "n = of_nat (length (st_tasks s))"
  shows "state_inv g w (s\<lparr>st_active_at_start := n, st_peak_active := n,
    st_baseline_complete := (st_gaps s = [])\<rparr>)"
proof -
  have "unat n = length (st_tasks s)" using assms(4,5,8) by (simp add: unat_of_nat_bound)
  then show ?thesis
    using assms(1-7) by (simp add: state_inv_def names_inv_def balance_inv_def shape_inv_def)
qed

lemma store_inv_bootstrap:
  assumes inv: "store_inv w st" and p: "process_ok process" and g: "validate_generation gen = Ok ()"
    and w: "w + (case dir of None \<Rightarrow> 0 | Some es \<Rightarrow> length es) \<le> max_work"
  shows "store_inv (w + (case dir of None \<Rightarrow> 0 | Some es \<Rightarrow> length es))
    (bootstrap_process observed attr process gen dir st)"
proof -
  let ?k = "process_key_of process" and ?w = "w + (case dir of None \<Rightarrow> 0 | Some es \<Rightarrow> length es)"
  let ?s0 = "(process_state_new attr process gen observed)\<lparr>st_baseline_provenance := Snapshot\<rparr>"
  let ?u = "add_gap SnapshotPermission (?s0\<lparr>st_baseline_provenance := Unavailable\<rparr>)"
  let ?fin = "\<lambda>s. s\<lparr>st_active_at_start := of_nat (length (st_tasks s)),
    st_peak_active := of_nat (length (st_tasks s)), st_baseline_complete := (st_gaps s = [])\<rparr>"
  have gen: "1 \<le> unat (next_task_generation st)" "unat (next_task_generation st) \<le> Suc w"
    using inv by (auto simp: store_inv_def)
  have up: "store_inv ?w st" using inv by (rule store_inv_mono) simp
  have new: "state_inv (next_task_generation st) w (process_state_new attr process gen observed)"
    using p g by (rule state_inv_new)
  show ?thesis
  proof (cases dir)
    case None
    have "state_inv (next_task_generation st) w (?fin ?u)"
      using new w by (intro state_inv_seeded)
        (simp_all add: state_inv_def names_inv_def shape_inv_def process_state_new_def add_gap_def max_work_def)
    with None inv show ?thesis by (simp add: bootstrap_process_def Let_def store_inv_set_state)
  next
    case (Some es)
    obtain st1 s1 where r: "seed_snapshot ?k es (st, ?s0) = (st1, s1)"
      by (cases "seed_snapshot ?k es (st, ?s0)")
    have "seed_inv (next_task_generation st) w ?s0"
      using new by (simp add: seed_inv_def state_inv_def names_inv_def shape_inv_def process_state_new_def)
    note s1 = seed_snapshot_inv [OF r this gen]
    have "w + length es < 2 ^ 64 - 2" using w Some by (simp add: max_work_def)
    note s1 = s1 [OF this]
    have "state_inv (next_task_generation st1) ?w (?fin s1)"
      using s1 w Some by (intro state_inv_seeded)
        (simp_all add: seed_inv_def max_work_def incomplete_inv)
    moreover have "store_inv ?w st1"
    proof -
      have "state_inv (next_task_generation st1) ?w (snd q)" if "q \<in> set (states st)" for q
      proof (rule state_inv_mono)
        show "state_inv (next_task_generation st) w (snd q)" using inv that by (simp add: store_inv_def)
      qed (use s1 in simp_all)
      then show ?thesis using inv s1 gen Some by (simp add: store_inv_def)
    qed
    ultimately show ?thesis
      using Some r up by (simp add: bootstrap_process_def Let_def store_inv_set_state)
  qed
qed

lemma store_inv_rename:
  assumes "store_inv w st" "w \<le> max_work" "valid_name name"
  shows "store_inv w (observe_rename process_id task_id at name st)"
proof -
  have "w < 2 ^ 64 - 1" using assms(2) by (simp add: max_work_def)
  then show ?thesis
    using assms(1) store_inv_lookup [OF assms(1)] state_inv_rename [OF _ _ assms(3)]
    by (auto simp: observe_rename_def intro!: store_inv_set_state split: option.splits)
qed

lemma store_inv_thread_exit:
  assumes "store_inv w st" "w \<le> max_work"
  shows "store_inv w (observe_thread_exit cgroup process_id thread_id at st)"
proof -
  have w: "w < 2 ^ 64 - 1" using assms(2) by (simp add: max_work_def)
  have "state_inv g w (add_gap r s)" if "state_inv g w s" for g r s
    using that by (simp add: state_inv_def add_gap_inv)
  then show ?thesis
    using assms(1) store_inv_lookup [OF assms(1)] state_inv_count_exit [OF _ w]
    by (auto simp: observe_thread_exit_def Let_def intro!: store_inv_set_state split: option.splits)
qed

lemma store_inv_process_exit:
  assumes "store_inv w st" "w \<le> max_work"
  shows "store_inv w (observe_process_exit cgroup process_id st)"
proof -
  let ?k = "\<lparr>proc_cgroup = cgroup, proc_tgid = process_id\<rparr>"
  have w: "w < 2 ^ 64 - 1" using assms(2) by (simp add: max_work_def)
  show ?thesis
  proof (cases "map_of (states st) ?k")
    case None
    with assms(1) show ?thesis by (simp add: observe_process_exit_def Let_def)
  next
    case (Some s)
    have "state_inv (next_task_generation st) w ((s\<lparr>st_retired := True\<rparr>)\<lparr>st_tasks := st_tasks s\<rparr>)"
      using store_inv_lookup [OF assms(1) Some]
      by (simp add: state_inv_def names_inv_def balance_inv_def shape_inv_def)
    from state_inv_lose_all [OF this w] Some assms(1) show ?thesis
      by (simp add: observe_process_exit_def Let_def store_inv_set_state)
  qed
qed

section \<open>Windows\<close>

lemma be_nat_pos: "b \<in> set bs \<Longrightarrow> b \<noteq> 0 \<Longrightarrow> 0 < be_nat bs"
proof (induction bs rule: rev_induct)
  case (snoc c bs)
  then show ?case by (auto simp: unat_gt_0)
qed simp

text \<open>The version bits make the identifier of a window different from the nil UUID.\<close>

lemma window_id_not_nil:
  assumes "\<And>bs. length (sha bs) = 32"
  shows "deterministic_window_id sha p g start \<noteq> 0"
proof -
  let ?d = "take 16 (sha (window_id_preimage p g start))"
  let ?b = "(?d ! 6 AND 0x0f) OR 0x50" and ?c = "(?d ! 8 AND 0x3f) OR 0x80"
  let ?bs = "?d[6 := ?b, 8 := ?c]"
  have len: "length ?bs = 16" using assms by simp
  have "bit ?b 6" by (simp add: bit_or_iff)
  then have "?b \<noteq> 0" by (metis bit_0_eq bot_apply bot_bool_def)
  moreover have "6 < length ?bs" using len by simp
  then have "?bs ! 6 \<in> set ?bs" by (rule nth_mem)
  moreover have "?bs ! 6 = ?b" using len by simp
  ultimately have pos: "0 < be_nat ?bs" by (intro be_nat_pos [of ?b]) simp_all
  have "be_nat ?bs < 256 ^ 16" using be_nat_bound [of ?bs] len by simp
  then have "unat (of_nat (be_nat ?bs) :: uuid) = be_nat ?bs" by (intro unat_of_nat_small) simp
  then show ?thesis
    using pos by (auto simp: deterministic_window_id_def Let_def from_be_bytes_def)
qed

lemma window_of_valid:
  assumes sha: "\<And>bs. length (sha bs) = 32" and inv: "state_inv g w s" and w: "w < 2 ^ 64"
  shows "validate_window (window_of sha s) = Ok ()"
proof -
  define v where "v = window_of sha s"
  have len: "length (st_tasks s) \<le> w" "unat (of_nat (length (st_tasks s)) :: u64) = length (st_tasks s)"
    using inv w by (auto simp: state_inv_def balance_inv_def intro!: unat_of_nat_bound)
  have sums: "usum (map tn_active (tw_names v)) = length (st_tasks s)"
    "usum (map tn_created (tw_names v)) = unat (st_created s)"
    "usum (map tn_exited (tw_names v)) = unat (st_exited s)"
    using active_total [of s] inv
    by (simp_all add: v_def window_of_def usum_def state_inv_def names_inv_def msum_def comp_def case_prod_beta)
  have names: "map tn_name (tw_names v) = keys (st_names s)" "length (tw_names v) = length (st_names s)"
    by (simp_all add: v_def window_of_def case_prod_beta comp_def)
  have bound: "length (st_names s) \<le> 66" using inv by (auto simp: state_inv_def shape_inv_def)
  have fields: "tw_process v = st_process s" "tw_generation v = st_generation s"
    "window_ended_at v = window_started_at v + 60000000000"
    "tw_created v = st_created s" "tw_exited v = st_exited s"
    "tw_active_at_start v = st_active_at_start s" "tw_peak_active v = st_peak_active s"
    "unat (tw_active_at_end v) = length (st_tasks s)"
    "tw_baseline_provenance v = st_baseline_provenance s"
    "tw_baseline_complete v = (st_baseline_complete s \<and> st_gaps s = [])" "tw_gaps v = st_gaps s"
    "tw_id v \<noteq> 0"
    using len(2) window_id_not_nil [of sha, OF sha] by (simp_all add: v_def window_of_def)
  have "window_spec v"
    using inv w bound
    unfolding window_spec_def fields names sums state_inv_def names_inv_def balance_inv_def shape_inv_def
    by (auto simp: process_ok_def validate_generation_def list_all_iff fields split: if_splits)
  then show ?thesis by (simp add: validate_window_spec v_def)
qed

lemma flush_inv:
  assumes sha: "\<And>bs. length (sha bs) = 32" and "state_inv g w s" "w < 2 ^ 64" "flush sha now s = (s', e)"
  shows "state_inv g w s'"
    and "e = Some ev \<Longrightarrow> \<exists>v. payload ev = ThreadActivityWindow v \<and> validate_window v = Ok ()"
  using assms state_inv_reset [OF assms(2,3)] window_of_valid [OF assms(1-3)]
  by (auto simp: flush_def Let_def split: if_splits)

definition valid_event :: "runtime_event \<Rightarrow> bool" where
  "valid_event e \<longleftrightarrow> (case payload e of
     ThreadActivityWindow v \<Rightarrow> validate_window v = Ok ()
   | ProcessStart p \<Rightarrow> validate_start p = Ok ()
   | _ \<Rightarrow> False)"

lemma flush_states_inv:
  assumes sha: "\<And>bs. length (sha bs) = 32" and w: "w < 2 ^ 64"
    and "\<forall>p \<in> set m. state_inv g w (snd p)" and "distinct (keys m)" and "flush_states sha now m = (m', es)"
  shows "(\<forall>p \<in> set m'. state_inv g w (snd p)) \<and> distinct (keys m') \<and> set (keys m') \<subseteq> set (keys m)
    \<and> list_all valid_event es"
  using assms(3-5)
proof (induction m arbitrary: m' es)
  case (Cons q m)
  obtain k s where q: "q = (k, s)" by (cases q)
  obtain m1 es1 where r: "flush_states sha now m = (m1, es1)" by (cases "flush_states sha now m")
  obtain s' e where f: "flush sha now s = (s', e)" by (cases "flush sha now s")
  have ih: "(\<forall>p \<in> set m1. state_inv g w (snd p)) \<and> distinct (keys m1) \<and> set (keys m1) \<subseteq> set (keys m)
      \<and> list_all valid_event es1" using Cons.IH [OF _ _ r] Cons.prems by simp
  have s: "state_inv g w s" using Cons.prems(1) q by simp
  have s': "state_inv g w s'" by (rule flush_inv(1) [OF sha s w f])
  have ev: "valid_event ev" if "e = Some ev" for ev
    using flush_inv(2) [OF sha s w f that] by (auto simp: valid_event_def)
  show ?case using Cons.prems ih s' ev q r f by (auto simp del: set_map split: option.splits if_splits)
qed simp

lemma store_inv_flush:
  assumes sha: "\<And>bs. length (sha bs) = 32" and "store_inv w st" "w \<le> max_work"
  shows "store_inv w (fst (flush_due sha now st)) \<and> list_all valid_event (snd (flush_due sha now st))"
proof -
  obtain m es where r: "flush_states sha now (states st) = (m, es)"
    by (cases "flush_states sha now (states st)")
  have "w < 2 ^ 64" using assms(3) by (simp add: max_work_def)
  from flush_states_inv [OF sha this _ _ r, where g = "next_task_generation st"] assms(2) r
  show ?thesis by (simp add: flush_due_def store_inv_def)
qed

fun task_cost :: "task_op \<Rightarrow> nat" where
  "task_cost (OpThreadStart _ _ _ _ _) = 1"
| "task_cost (OpBootstrap _ _ _ _ dir) = (case dir of None \<Rightarrow> 0 | Some es \<Rightarrow> length es)"
| "task_cost _ = 0"

fun task_op_ok :: "task_op \<Rightarrow> bool" where
  "task_op_ok (OpProcessStart _ _ _ p _) \<longleftrightarrow> process_ok p"
| "task_op_ok (OpThreadStart _ _ p g task) \<longleftrightarrow>
     process_ok p \<and> validate_generation g = Ok () \<and> valid_name (start_name task)"
| "task_op_ok (OpBootstrap _ _ p g _) \<longleftrightarrow> process_ok p \<and> validate_generation g = Ok ()"
| "task_op_ok (OpRename _ _ _ n) \<longleftrightarrow> valid_name n"
| "task_op_ok _ \<longleftrightarrow> True"

lemma task_step_inv:
  assumes sha: "\<And>bs. length (sha bs) = 32" and inv: "store_inv w st" and ok: "task_op_ok op"
    and w: "w + task_cost op \<le> max_work"
  shows "store_inv (w + task_cost op) (fst (task_step sha st op)) \<and> list_all valid_event (snd (task_step sha st op))"
proof (cases op)
  case (OpProcessStart i t a p s)
  have "list_all valid_event (snd (task_step sha st op))"
    using OpProcessStart
    by (auto simp: observe_process_start_def Let_def valid_event_def split: result.splits)
  with OpProcessStart store_inv_process_start [OF inv, of p i t a s] ok show ?thesis
    by (simp split: prod.splits)
next
  case (OpThreadStart t a p g task)
  with store_inv_thread_start [OF inv, of p g task t a] ok w show ?thesis by simp
next
  case (OpBootstrap t a p g dir)
  with store_inv_bootstrap [OF inv, of p g dir t a] ok w show ?thesis by simp
next
  case (OpRename p tid at n)
  with store_inv_rename [OF inv, of n p tid at] ok w show ?thesis by simp
next
  case (OpThreadExit c p tid at)
  with store_inv_thread_exit [OF inv, of c p tid at] w show ?thesis by simp
next
  case (OpProcessExit c p)
  with store_inv_process_exit [OF inv, of c p] w show ?thesis by simp
next
  case (OpFlush now)
  with store_inv_flush [of sha w st now, OF sha inv] w show ?thesis by simp
qed

text \<open>The parameter of the interpretation: a hash with digests of 32 bytes.\<close>

definition sized :: "(u8 list \<Rightarrow> u8 list) \<Rightarrow> u8 list \<Rightarrow> u8 list" where
  "sized sha bs = take 32 (sha bs @ replicate 32 0)"

lemma length_sized [simp]: "length (sized sha bs) = 32"
  by (simp add: sized_def)

lemma sized_id: "(\<And>bs. length (sha bs) = 32) \<Longrightarrow> sized sha = sha"
  by (rule ext) (simp add: sized_def)

interpretation tasks: metered "task_step (sized sha)" task_cost task_op_ok max_work store_inv "list_all valid_event"
  by unfold_locales (simp_all add: task_step_inv)

text \<open>C28: Every window the agent emits is valid. For every history of process and thread starts,
  snapshots, renames, exits and flushes with valid identifiers and names, every event that the
  store returns is a process start that passes its validation or a thread window that passes
  \<open>ThreadActivityWindow::validate\<close>: its counters balance, per name and in total, however the
  operations interleave, whichever tasks were lost or reused, and whatever \<open>/proc\<close> held. The
  history may add up to \<open>2^64 - 3\<close> tasks, where the saturating counters are still exact.\<close>

theorem thread_windows_validate:
  assumes "\<And>bs. length (sha bs) = 32" and "list_all task_op_ok ops"
    and "sum_list (map task_cost ops) \<le> 2 ^ 64 - 3"
  shows "list_all (list_all valid_event) (snd (run (task_step sha) (task_store_new cap) ops))"
  using tasks.run_metered [OF store_inv_new, of ops sha cap] assms(2,3) sized_id [of sha, OF assms(1)]
  by (simp add: max_work_def)

section \<open>Examples\<close>

definition sample_attr :: kubernetes_attribution where
  "sample_attr = \<lparr>project_id = 1, application_id = 2, node_name = ''n'', namespace = ''ns'', pod_uid = ''u'',
     pod_name = ''p'', container_id = ''c'', container_name = ''app'', workload_uid = ''w'',
     workload_kind = ''Deployment'', workload_name = ''web'', release = None, release_identity_of = None\<rparr>"

definition sample_proc :: process_identity where
  "sample_proc = \<lparr>cgroup_id = 9, pid = 40, tgid = 40, command = ''app''\<rparr>"

definition sample_gen :: "bool \<Rightarrow> process_generation_identity" where
  "sample_gen b = \<lparr>generation = 1, observation_epoch = 5, start_observed = b\<rparr>"

definition sample_task :: task_start where
  "sample_task = \<lparr>start_tid = 41, start_observed_at_ns = 1000, start_name = ''worker''\<rparr>"

definition sample_ops :: "task_op list" where
  "sample_ops =
     [OpProcessStart 3 0 sample_attr sample_proc
        \<lparr>ps_generation = sample_gen True, parent_pid = 1, parent_tgid = 1, parent_command = ''sh''\<rparr>,
      OpThreadStart 0 sample_attr sample_proc (sample_gen True) sample_task,
      OpFlush 60000000000]"

lemma sample_names: "valid_name ''worker''" "valid_name ''sh''"
  by (simp_all add: valid_name_def MAX_THREAD_NAME_BYTES_def byte_def)

lemmas task_eval = sample_attr_def sample_proc_def sample_gen_def sample_task_def
  observe_process_start_def observe_thread_start_def bootstrap_process_def ensure_state_def
  process_key_of_def remove_process_state_def task_store_new_def set_state_def process_state_new_def
  minute_start_def retire_reused_task_def next_task_key_def add_task_def bucket_name_def
  contains_key_def name_entry_def Let_def saturating_add_def validate_start_def
  validate_generation_def MAX_THREAD_NAMES_def

theorem thread_windows_validate_witness:
  "list_all (list_all valid_event) (snd (run (task_step (\<lambda>_. replicate 32 0)) (task_store_new 8) sample_ops))
   \<and> length (concat (snd (run (task_step (\<lambda>_. replicate 32 0)) (task_store_new 8) sample_ops))) = 2"
proof
  have ok: "list_all task_op_ok sample_ops" "sum_list (map task_cost sample_ops) \<le> 2 ^ 64 - 3"
    by (simp_all add: sample_ops_def process_ok_def sample_proc_def sample_gen_def sample_task_def
        validate_generation_def sample_names)
  show "list_all (list_all valid_event) (snd (run (task_step (\<lambda>_. replicate 32 0)) (task_store_new 8) sample_ops))"
    by (rule thread_windows_validate [OF _ ok]) simp
  show "length (concat (snd (run (task_step (\<lambda>_. replicate 32 0)) (task_store_new 8) sample_ops))) = 2"
    by (simp add: sample_ops_def task_eval sample_names flush_due_def flush_def)
qed

text \<open>
  The snapshot that \<open>bootstrap_process\<close> takes on the first thread creation of an unknown process
  already lists the new thread, and the \<open>observe_thread_start\<close> that follows retires it as a
  reused task: the window counts an exit and a kernel loss that did not happen.
\<close>

lemma snapshot_lists_new_thread:
  "map_option (\<lambda>s. (st_created s, st_exited s, st_gaps s, st_baseline_complete s))
     (map_of (states (observe_thread_start 0 sample_attr sample_proc (sample_gen False) sample_task
        (bootstrap_process 0 sample_attr sample_proc (sample_gen False)
          (Some [Entry ''41'' (Some ''worker'')]) (task_store_new 8)))) (process_key_of sample_proc))
   = Some (1, 1, [KernelLoss], False)"
proof -
  have "trimmed ''worker''" by (rule lowercase_trimmed) (simp add: is_ascii_lowercase_def byte_def)
  then have trim: "trim_end ''worker'' = ''worker''" by (simp add: trimmed_iff trim_end.simps del: strip_suffix.simps)
  have "valid_snapshot_name ''worker''"
    by (simp add: valid_snapshot_name_def MAX_THREAD_NAME_BYTES_def byte_def)
  moreover have "parse_u32 ''41'' = Some 41"
    by (simp add: parse_u32_def is_ascii_digit_def byte_def)
  ultimately show ?thesis
    by (simp add: task_eval trim snapshot_name_def seed_task_def lose_task_def count_exit_def add_gap_def
        modify_def name_default_def saturating_sub_def)
qed

end
