(* ===== verification/Spec2Isabelle.thy ===== *)
theory Spec2Isabelle
  imports Delivery Dns_Runtime Event_Groups Policy Process_Generations Protocol Protocol_Resources
    Retention_Laws Stream_Delivery Task_Windows
begin

text \<open>
  Okoscope: verification development.

  \<^bold>\<open>The program.\<close> An agent on a Kubernetes node (\<open>crates/agent\<close>) turns kernel observations into
  runtime events (\<open>crates/event-model\<close>), sends them over a gRPC stream (\<open>crates/protocol\<close>), and a server
  (\<open>crates/server\<close>) stores them, sorts them into Runtime Groups and inventory items, evaluates
  policies on them and forgets them again after a time.

  \<^bold>\<open>Foundations.\<close> \<open>Prelude\<close> holds the types that all theories share (\<open>result\<close>, identifiers as 128-bit
  words, instants as integer nanoseconds, machine integers as words) and the laws of results and
  lists. \<open>Rust_Strings\<close> and \<open>Rust_Text\<close> model the operations of Rust strings and text that the code
  uses. \<open>Tables\<close> and \<open>Table_Queries\<close> model SQL statements on tables; the locale \<open>counted_rows\<close> is
  the contract of the server's counting tables and is interpreted on each of them.

  \<^bold>\<open>Event model.\<close> \<open>Event_Base\<close>, \<open>Event_Payload\<close>, \<open>Termination\<close>, \<open>Thread_Window\<close>, \<open>Release\<close> and
  \<open>Resource_Model\<close> are the types of \<open>crates/event-model/src\<close> with their constructors and validations.

  \<^bold>\<open>Agent.\<close> \<open>Delivery\<close> is the bounded delivery buffer and the rate limiter, with a ledger as its
  abstract specification. \<open>Dns_Message\<close>, \<open>Dns_Tcp\<close>, \<open>Dns_State\<close> and \<open>Dns_Runtime\<close> are DNS observation
  from bytes to events. \<open>Process_Generations\<close>, \<open>Task_Lifecycle\<close> and \<open>Task_Windows\<close> are the stores of
  process generations and threads. \<open>Agent_Session\<close>, \<open>Application_Stream\<close> and \<open>Stream_Delivery\<close> are
  session establishment and the application streams; \<open>Stream_Delivery\<close> shows that a stream keeps the
  events it has not delivered and drains them.

  \<^bold>\<open>Wire protocol.\<close> \<open>Wire_Messages\<close>, \<open>Protocol_Values\<close>, \<open>Protocol\<close> and \<open>Protocol_Resources\<close> are the
  messages and the conversions of \<open>crates/protocol\<close>, with round trips.

  \<^bold>\<open>Server.\<close> \<open>Policy\<close> is policy evaluation. \<open>Fingerprints\<close> is the identity of groups and items.
  \<open>Event_Groups\<close>, \<open>Inventory_Projection\<close>, \<open>Policy_Projection\<close> and \<open>Termination_Projection\<close> are the
  projections of a stored event, each on its own tables with its consistency. \<open>Ingestion\<close> composes
  them into the transaction of a batch, and \<open>Ingestion_Laws\<close> shows consistency of the whole database,
  idempotency, isolation of tenants and the rejection of a batch with a blank command. \<open>Retention\<close>
  is the retention run on the same database, and \<open>Retention_Laws\<close> holds its laws.

  \<^bold>\<open>Parameters.\<close> SHA-256, \<open>uuid\<close> and \<open>chrono\<close> text formats, derived JSON serializers, clocks and random
  identifiers are arguments; a theorem states what it relies on as a hypothesis, and its witness
  instantiates it. Recursion is structural or has a termination proof; the only fuel is the number of
  pointer hops of a DNS name, which is the bound of the code, and the number of turns of the
  reconnect loop, which the theorem gives.

  \<^bold>\<open>Left out.\<close> The bookkeeping columns \<open>created_at\<close> and \<open>updated_at\<close>, the rounding of instants to
  microseconds by the database, metrics and log lines. Not modelled: the eBPF programs and ring
  buffers, the observer, container attribution and cgroup reading (kernel and file system I/O), the
  gRPC and HTTP transport, configuration files, mail and notification delivery, and the read-only page
  queries and user administration of the server (access, invitations, attention, resources).
\<close>

section \<open>The server\<close>

text \<open>
  The server's database under its two writers of events: a step is the transaction of a batch or a
  retention run on a project, in any order and with any arguments. The identifiers drawn for a batch
  are new. A database starts without events and projections; its projects have unique identifiers.
\<close>

definition server_start :: "database \<Rightarrow> bool" where
  "server_start db \<longleftrightarrow> db_events db = [] \<and> pt_groups (db_projections db) = no_groups
     \<and> pt_inventory (db_projections db) = no_items \<and> unique_projects db"

inductive server_step :: "wire_lib \<Rightarrow> serde_lib \<Rightarrow> database \<Rightarrow> database \<Rightarrow> bool" for L S where
  ingest: "persist_application_batch_outcome L S scope c agent es db = (db', r) \<Longrightarrow> fresh_batch es db \<Longrightarrow> server_step L S db db'"
| retain: "process_project draw now limit org proj db = (db', r) \<Longrightarrow> server_step L S db db'"

lemma server_start_ok: "server_start db \<Longrightarrow> database_ok db"
  using no_groups_ok no_items_ok
  by (simp add: server_start_def database_ok_def projections_ok_def) (simp add: no_groups_def no_items_def)

lemma server_step_ok: "server_step L S db db' \<Longrightarrow> database_ok db \<Longrightarrow> database_ok db'"
  by (induction rule: server_step.induct) (auto dest: batch_keeps_ok process_project_keeps_ok)

lemma server_step_final: "server_step L S db db' \<Longrightarrow> database_ok db \<Longrightarrow> unique_projects db \<Longrightarrow> final_step db db'"
  by (induction rule: server_step.induct) (auto intro: batch_final process_project_final)

lemma server_steps_final:
  assumes "(server_step L S)\<^sup>*\<^sup>* db db'" and "database_ok db" and "unique_projects db"
  shows "database_ok db' \<and> final_step db db'"
  using assms(1)
proof (induction rule: rtranclp_induct)
  case base
  with assms(2,3) show ?case by (auto intro: final_step_same)
next
  case (step db1 db2)
  then have "unique_projects db1" by (simp add: final_step_def)
  with step show ?case by (blast intro: server_step_ok server_step_final final_step_trans)
qed


text \<open>C2: retention is final and touches nothing else. Over any number of steps of the server, the
  horizon of a project only moves forward; an event that lies behind the horizon and is not stored, be
  it deleted or late, never appears again; and an event that does not lie behind the horizon is never
  deleted.\<close>
theorem retention_is_final:
  assumes "database_ok db" and "unique_projects db" and "(server_step L S)\<^sup>*\<^sup>* db db'"
  shows "horizon_le (closed_before proj db) (closed_before proj db')
    \<and> (e \<in> set (db_events db') \<longrightarrow> behind db e \<longrightarrow> e \<in> set (db_events db))
    \<and> (e \<in> set (db_events db) \<longrightarrow> \<not> behind db' e \<longrightarrow> e \<in> set (db_events db'))"
  using server_steps_final [OF assms(3,1,2)] by (auto simp: final_step_def)

section \<open>Sample histories\<close>


definition late_event :: event_row where
  "late_event = stored_event\<lparr>er_id := 77, er_event_id := 78, er_observed_at := 3\<rparr>"

theorem retention_is_final_witness:
  "horizon_le (Some 4) (closed_before 7 (fst (process_project (\<lambda>_ _ _. 99) (10 * NANOS_PER_DAY) 100 1 7 stored_database)))
    \<and> late_event \<notin> set (db_events (fst (process_project (\<lambda>_ _ _. 99) (10 * NANOS_PER_DAY) 100 1 7 stored_database)))"
proof -
  obtain db' r where run: "process_project (\<lambda>_ _ _. 99) (10 * NANOS_PER_DAY) 100 1 7 stored_database = (db', r)" by fastforce
  have steps: "(server_step sample_lib plain_serde)\<^sup>*\<^sup>* stored_database db'" by (rule r_into_rtranclp server_step.retain run)+
  have closed: "closed_before 7 stored_database = Some 4" by (simp add: closed_before_def stored_database_def sample_database_def)
  have uniq: "unique_projects stored_database" using stored_database_retained by (simp add: retained_def)
  have "behind stored_database late_event"
    using closed by (simp add: behind_def late_event_def stored_event_def new_event_def listen_event_def endpoint_event_def)
  moreover have "late_event \<notin> set (db_events stored_database)"
    by (simp add: stored_database_def late_event_def stored_event_def new_event_def)
  ultimately show ?thesis
    using retention_is_final [OF stored_database_ok uniq steps, of 7 late_event] closed run by simp
qed

end
